(* ===== verification/Prelude.thy ===== *)
theory Prelude
  imports Complex_Main "HOL-Library.Word" "HOL-Library.Multiset"
begin

text \<open>
  Shared vocabulary of the development: machine integers and byte strings as the C++ sources
  use them, \<open>td::Status\<close> / \<open>td::Result\<close> values, the little-endian memory image of an
  integer (what \<open>std::memcpy\<close> and \<open>as<T>\<close> read and write), and the list lemmas the
  component theories rely on.  \<open>int32\<close>/\<open>uint32\<close> are both \<open>32 word\<close> and
  \<open>int64\<close>/\<open>uint64\<close> both \<open>64 word\<close>: a signed reading is written \<open>sint\<close>, an
  unsigned one \<open>unat\<close>.  \<open>size_t\<close> is \<open>nat\<close>, with the wrap-around written out in
  the places where the source can reach it.  A \<open>double\<close> that holds a time or a duration is an exact
  rational: the comparisons and sums of the source are modelled, their rounding is not.
\<close>

unbundle bit_operations_syntax

type_synonym byte = "8 word"
type_synonym bytes = "byte list"
type_synonym u16 = "16 word"
type_synonym u32 = "32 word"
type_synonym u64 = "64 word"
type_synonym time = rat

named_theorems le_simps \<open>little-endian images of integers\<close>
named_theorems abort_free \<open>an operation returns, without abort or out-of-bounds access\<close>
named_theorems inv_intros \<open>an operation keeps the invariant of its component\<close>

section \<open>Status and Result\<close>

text \<open>
  \<open>td::Status\<close> carries a code (0 when \<open>Status::Error\<close> is called with a message only) and
  a message.  Messages are modelled by their literal prefix; the values the source formats into
  them play no role in control flow.
\<close>

datatype status = OK | Error (st_code: int) (st_msg: string)

type_synonym 'a result = "status + 'a"

definition is_error :: "status \<Rightarrow> bool" where
  "is_error s \<longleftrightarrow> s \<noteq> OK"

abbreviation Err :: "string \<Rightarrow> status" where
  "Err m \<equiv> Error 0 m"

lemma is_error_simps [simp]: "\<not> is_error OK" "is_error (Error c m)"
  by (simp_all add: is_error_def)

text \<open>\<open>SIZE_MAX\<close> of a 64-bit target.\<close>

definition size_max :: nat where
  "size_max = 2 ^ 64 - 1"

section \<open>Little-endian memory images\<close>

primrec le_bytes :: "nat \<Rightarrow> nat \<Rightarrow> bytes" where
  "le_bytes 0 v = []"
| "le_bytes (Suc n) v = of_nat v # le_bytes n (v div 256)"

primrec of_le :: "bytes \<Rightarrow> nat" where
  "of_le [] = 0"
| "of_le (b # bs) = unat b + 256 * of_le bs"

lemma length_le_bytes [simp, le_simps]: "length (le_bytes n v) = n"
  by (induction n arbitrary: v) simp_all

lemma unat_of_nat_byte: "unat (of_nat v :: byte) = v mod 256"
  by (simp add: unat_of_nat)

lemma of_le_le_bytes [le_simps]: "of_le (le_bytes n v) = v mod 256 ^ n"
proof (induction n arbitrary: v)
  case (Suc n)
  show ?case
    by (simp add: Suc unat_of_nat_byte mod_mult2_eq [symmetric])
      (simp add: mod_mult2_eq)
qed simp

lemma of_le_bound [le_simps]: "of_le bs < 256 ^ length bs"
proof (induction bs)
  case (Cons b bs)
  have "unat b < 256" using unsigned_less [of b] by simp
  with Cons show ?case by simp
qed simp

lemma le_bytes_of_le [le_simps]: "le_bytes (length bs) (of_le bs) = bs"
proof (induction bs)
  case (Cons b bs)
  have b: "unat b < 256" using unsigned_less [of b] by simp
  have "(of_nat (unat b + 256 * of_le bs) :: byte) = b"
    by (rule word_unat_eq_iff [THEN iffD2])
      (use b in \<open>simp add: unat_of_nat_byte del: of_nat_add of_nat_mult\<close>)
  moreover have "(unat b + 256 * of_le bs) div 256 = of_le bs"
    using b by simp
  ultimately show ?case using Cons by simp
qed simp

lemma le_bytes_inj: "a < 256 ^ n \<Longrightarrow> b < 256 ^ n \<Longrightarrow> le_bytes n a = le_bytes n b \<Longrightarrow> a = b"
  by (metis of_le_le_bytes mod_less)

lemma of_le_append: "of_le (xs @ ys) = of_le xs + 256 ^ length xs * of_le ys"
  by (induction xs) (simp_all add: algebra_simps)

text \<open>\<open>memcpy\<close> of a fixed-width integer, and back.\<close>

definition bytes_of_u32 :: "u32 \<Rightarrow> bytes" where
  "bytes_of_u32 x = le_bytes 4 (unat x)"

definition u32_of_bytes :: "bytes \<Rightarrow> u32" where
  "u32_of_bytes bs = of_nat (of_le (take 4 bs))"

definition bytes_of_u64 :: "u64 \<Rightarrow> bytes" where
  "bytes_of_u64 x = le_bytes 8 (unat x)"

definition u64_of_bytes :: "bytes \<Rightarrow> u64" where
  "u64_of_bytes bs = of_nat (of_le (take 8 bs))"

lemma length_bytes_of_u32 [simp, le_simps]: "length (bytes_of_u32 x) = 4"
  by (simp add: bytes_of_u32_def)

lemma length_bytes_of_u64 [simp, le_simps]: "length (bytes_of_u64 x) = 8"
  by (simp add: bytes_of_u64_def)

lemma bytes_of_u32_neq_Nil [simp]: "bytes_of_u32 x \<noteq> []"
  using length_bytes_of_u32 [of x] by force

lemma bytes_of_u64_neq_Nil [simp]: "bytes_of_u64 x \<noteq> []"
  using length_bytes_of_u64 [of x] by force

lemma u32_of_bytes_of_u32 [simp, le_simps]: "u32_of_bytes (bytes_of_u32 x @ rest) = x"
proof -
  have "unat x < 256 ^ 4" using unsigned_less [of x] by simp
  then show ?thesis by (simp add: u32_of_bytes_def bytes_of_u32_def of_le_le_bytes)
qed

lemma u64_of_bytes_of_u64 [simp, le_simps]: "u64_of_bytes (bytes_of_u64 x @ rest) = x"
proof -
  have "unat x < 256 ^ 8" using unsigned_less [of x] by simp
  then show ?thesis by (simp add: u64_of_bytes_def bytes_of_u64_def of_le_le_bytes)
qed

lemma u32_of_bytes_of_u32' [simp, le_simps]: "u32_of_bytes (bytes_of_u32 x) = x"
  using u32_of_bytes_of_u32 [of x "[]"] by simp

lemma u64_of_bytes_of_u64' [simp, le_simps]: "u64_of_bytes (bytes_of_u64 x) = x"
  using u64_of_bytes_of_u64 [of x "[]"] by simp

lemma bytes_of_u32_of_bytes: "length bs = 4 \<Longrightarrow> bytes_of_u32 (u32_of_bytes bs) = bs"
proof -
  assume l: "length bs = 4"
  then have "of_le bs < 2 ^ 32" using of_le_bound [of bs] by simp
  then have "unat (of_nat (of_le bs) :: u32) = of_le bs"
    by (simp add: unat_of_nat)
  then show ?thesis
    using le_bytes_of_le [of bs] l by (simp add: bytes_of_u32_def u32_of_bytes_def)
qed

lemma bytes_of_u64_of_bytes: "length bs = 8 \<Longrightarrow> bytes_of_u64 (u64_of_bytes bs) = bs"
proof -
  assume l: "length bs = 8"
  then have "of_le bs < 2 ^ 64" using of_le_bound [of bs] by simp
  then have "unat (of_nat (of_le bs) :: u64) = of_le bs"
    by (simp add: unat_of_nat)
  then show ?thesis
    using le_bytes_of_le [of bs] l by (simp add: bytes_of_u64_def u64_of_bytes_def)
qed

section \<open>Lists\<close>

lemma take_append_exact [simp]: "length xs = n \<Longrightarrow> take n (xs @ ys) = xs"
  by simp

lemma drop_append_exact [simp]: "length xs = n \<Longrightarrow> drop n (xs @ ys) = ys"
  by simp

lemma take_drop_split: "i \<le> j \<Longrightarrow> take i xs @ take (j - i) (drop i xs) = take j xs"
  by (metis le_add_diff_inverse take_add)

section \<open>Conversions to signed integers\<close>

lemma sint_of_nat_u32: "n < 2 ^ 31 \<Longrightarrow> sint (of_nat n :: u32) = int n"
proof -
  assume n: "n < 2 ^ 31"
  then have "signed_take_bit 31 (int n) = int n"
    by (intro signed_take_bit_int_eq_self) simp_all
  then show ?thesis by (simp add: signed_of_nat)
qed

lemma sint_of_nat_small: "n < 2 ^ 31 \<Longrightarrow> nat (sint (of_nat n :: u32)) = n"
  by (simp add: sint_of_nat_u32)

end
