(* ===== verification/TlCore.thy ===== *)
theory TlCore
  imports Prelude
begin

text \<open>
  TL serialisation (\<open>tdutils/td/utils/tl_parsers.h\<close>, \<open>tl_parsers.cpp\<close>,
  \<open>tl_storers.h\<close>, \<open>tl_helpers.h\<close>, \<open>Storer.h\<close>).
  The parser is a record; its operations return \<open>None\<close> where the program would abort on a
  \<open>CHECK\<close> or read outside the bytes its data pointer may address, so that memory safety is a
  theorem and not an assumption.  The \<open>store\<close> templates, which the source instantiates with
  two storers, are the sequence of calls they make; the two storers interpret the same sequence.
\<close>

section \<open>TlParser\<close>

record tl_parser =
  p_data :: bytes          \<comment> \<open>the bytes the pointer \<open>data\<close> may still address\<close>
  p_data_len :: nat
  p_left_len :: nat
  p_error_pos :: nat
  p_error :: string

type_synonym 'a fetch = "tl_parser \<Rightarrow> ('a \<times> tl_parser) option"

definition fret :: "'a \<Rightarrow> 'a fetch" where
  "fret x = (\<lambda>p. Some (x, p))"

definition fbind :: "'a fetch \<Rightarrow> ('a \<Rightarrow> 'b fetch) \<Rightarrow> 'b fetch" where
  "fbind m f = (\<lambda>p. case m p of None \<Rightarrow> None | Some (x, p') \<Rightarrow> f x p')"

definition empty_data :: bytes where
  "empty_data = replicate 64 0"

definition tl_parser_of :: "bytes \<Rightarrow> tl_parser" where
  "tl_parser_of str = \<lparr>p_data = str, p_data_len = length str, p_left_len = length str,
     p_error_pos = size_max, p_error = []\<rparr>"

definition set_error :: "string \<Rightarrow> unit fetch" where
  "set_error error_message = (\<lambda>p.
     if p_error p = [] then
       (if error_message = [] then None
        else Some ((), p\<lparr>p_error := error_message,
                         p_error_pos := p_data_len p - p_left_len p,
                         p_data := empty_data, p_left_len := 0, p_data_len := 0\<rparr>))
     else if p_error_pos p \<noteq> size_max \<and> p_data_len p = 0 \<and> p_left_len p = 0
     then Some ((), p\<lparr>p_data := empty_data\<rparr>)
     else None)"

definition get_status :: "tl_parser \<Rightarrow> status" where
  "get_status p = (if p_error p = [] then OK else Err (p_error p))"

definition check_len :: "nat \<Rightarrow> unit fetch" where
  "check_len len = (\<lambda>p.
     if p_left_len p < len then set_error ''Not enough data to read'' p
     else Some ((), p\<lparr>p_left_len := p_left_len p - len\<rparr>))"

definition can_prefetch_int :: "tl_parser \<Rightarrow> bool" where
  "can_prefetch_int p \<longleftrightarrow> p_left_len p \<ge> 4"

definition prefetch_int_unsafe :: "tl_parser \<Rightarrow> u32 option" where
  "prefetch_int_unsafe p = (if length (p_data p) < 4 then None else Some (u32_of_bytes (p_data p)))"

definition fetch_binary_unsafe :: "nat \<Rightarrow> bytes fetch" where
  "fetch_binary_unsafe n = (\<lambda>p.
     if length (p_data p) < n then None
     else Some (take n (p_data p), p\<lparr>p_data := drop n (p_data p)\<rparr>))"

definition fetch_int_unsafe :: "u32 fetch" where
  "fetch_int_unsafe = fbind (fetch_binary_unsafe 4) (\<lambda>bs. fret (u32_of_bytes bs))"

definition fetch_int :: "u32 fetch" where
  "fetch_int = fbind (check_len 4) (\<lambda>_. fetch_int_unsafe)"

definition fetch_long_unsafe :: "u64 fetch" where
  "fetch_long_unsafe = fbind (fetch_binary_unsafe 8) (\<lambda>bs. fret (u64_of_bytes bs))"

definition fetch_long :: "u64 fetch" where
  "fetch_long = fbind (check_len 8) (\<lambda>_. fetch_long_unsafe)"

text \<open>A \<open>double\<close> is carried as its 64-bit pattern.\<close>

definition fetch_double :: "u64 fetch" where
  "fetch_double = fbind (check_len 8) (\<lambda>_. fetch_long_unsafe)"

text \<open>\<open>fetch_binary<T>\<close> with \<open>sizeof(T) = n\<close>; \<open>n \<le> 64\<close> is its static assertion.\<close>

definition fetch_binary :: "nat \<Rightarrow> bytes fetch" where
  "fetch_binary n = fbind (check_len n) (\<lambda>_. fetch_binary_unsafe n)"

text \<open>The tail of \<open>fetch_string\<close>: \<open>data += hdr\<close>, \<open>check_len(aligned)\<close>, \<open>data += aligned\<close>;
  the string is \<open>len\<close> bytes at \<open>begin\<close> bytes from the old data pointer.\<close>

definition fetch_string_tail :: "nat \<Rightarrow> nat \<Rightarrow> nat \<Rightarrow> nat \<Rightarrow> bytes fetch" where
  "fetch_string_tail begin hdr len aligned = (\<lambda>p0.
     fbind (fetch_binary_unsafe hdr) (\<lambda>_.
     fbind (check_len aligned) (\<lambda>_ p.
       if p_error p \<noteq> [] then Some ([], p)
       else if length (p_data p) < aligned \<or> length (p_data p0) < begin + len then None
       else Some (take len (drop begin (p_data p0)), p\<lparr>p_data := drop aligned (p_data p)\<rparr>))) p0)"

definition fetch_string :: "bytes fetch" where
  "fetch_string = fbind (check_len 4) (\<lambda>_ p.
     case p_data p of
       [] \<Rightarrow> None
     | b0 # _ \<Rightarrow>
        (let result_len = unat b0 in
         if result_len < 254 then fetch_string_tail 1 4 result_len (result_len div 4 * 4) p
         else if result_len = 254 then
           (if length (p_data p) < 4 then None
            else (let len = of_le (take 3 (drop 1 (p_data p)))
                  in fetch_string_tail 4 4 len ((len + 3) div 4 * 4) p))
         else fbind (check_len 4) (\<lambda>_ p.
           if length (p_data p) < 8 then None
           else (let len64 = of_le (take 7 (drop 1 (p_data p))) in
                 if len64 > size_max - 3
                 then fbind (set_error ''Too big string found'') (\<lambda>_. fret []) p
                 else fetch_string_tail 8 8 len64 ((len64 + 3) div 4 * 4) p)) p))"

definition fetch_string_raw :: "nat \<Rightarrow> bytes fetch" where
  "fetch_string_raw n = fbind (check_len n) (\<lambda>_ p.
     if p_error p \<noteq> [] then Some ([], p) else fetch_binary_unsafe n p)"

definition fetch_end :: "unit fetch" where
  "fetch_end = (\<lambda>p. if p_left_len p \<noteq> 0 then set_error ''Too much data to fetch'' p
                    else Some ((), p))"

section \<open>Storers\<close>

text \<open>
  A \<open>store\<close> template makes a sequence of calls on its storer.  \<open>StoreStorer\<close> is
  \<open>store_storer\<close> of a nested \<open>Storer\<close>; \<open>StoreCheck\<close> is a \<open>CHECK\<close> the template runs
  between two calls (\<open>narrow_cast\<close>, \<open>END_STORE_FLAGS\<close>).
\<close>

datatype store_call =
    StoreBinary bytes
  | StoreSlice bytes
  | StoreString bytes
  | StoreStorer "store_call list"
  | StoreCheck bool

definition store_string_pad :: "nat \<Rightarrow> bytes" where
  "store_string_pad len =
     (case len mod 4 of 0 \<Rightarrow> [] | Suc 0 \<Rightarrow> [0, 0, 0] | Suc (Suc 0) \<Rightarrow> [0, 0] | _ \<Rightarrow> [0])"

definition unsafe_store_string :: "bytes \<Rightarrow> bytes option" where
  "unsafe_store_string str = (let len = length str in
     if len < 254 then Some (of_nat len # str @ store_string_pad (len + 1))
     else if len < 2 ^ 24 then
       Some ([254, of_nat (len mod 256), of_nat (len div 2 ^ 8 mod 256), of_nat (len div 2 ^ 16)]
             @ str @ store_string_pad len)
     else if len < 2 ^ 32 then
       Some ([255, of_nat (len mod 256), of_nat (len div 2 ^ 8 mod 256),
              of_nat (len div 2 ^ 16 mod 256), of_nat (len div 2 ^ 24 mod 256), 0, 0, 0]
             @ str @ store_string_pad len)
     else None)"

fun run_unsafe_call :: "store_call \<Rightarrow> bytes \<Rightarrow> bytes option"
and run_unsafe :: "store_call list \<Rightarrow> bytes \<Rightarrow> bytes option" where
  "run_unsafe_call (StoreBinary bs) buf = Some (buf @ bs)"
| "run_unsafe_call (StoreSlice bs) buf = Some (buf @ bs)"
| "run_unsafe_call (StoreString str) buf = map_option (\<lambda>bs. buf @ bs) (unsafe_store_string str)"
| "run_unsafe_call (StoreStorer cs) buf = map_option (\<lambda>bs. buf @ bs) (run_unsafe cs [])"
| "run_unsafe_call (StoreCheck b) buf = (if b then Some buf else None)"
| "run_unsafe [] buf = Some buf"
| "run_unsafe (c # cs) buf =
     (case run_unsafe_call c buf of None \<Rightarrow> None | Some buf' \<Rightarrow> run_unsafe cs buf')"

definition calc_store_string :: "bytes \<Rightarrow> nat" where
  "calc_store_string str = (let add = length str;
      add = (if add < 254 then add + 1 else if add < 2 ^ 24 then add + 4 else add + 8)
    in (add + 3) div 4 * 4)"

fun run_calc_call :: "store_call \<Rightarrow> nat \<Rightarrow> nat option"
and run_calc :: "store_call list \<Rightarrow> nat \<Rightarrow> nat option" where
  "run_calc_call (StoreBinary bs) n = Some (n + length bs)"
| "run_calc_call (StoreSlice bs) n = Some (n + length bs)"
| "run_calc_call (StoreString str) n = Some (n + calc_store_string str)"
| "run_calc_call (StoreStorer cs) n = map_option (\<lambda>k. n + k) (run_calc cs 0)"
| "run_calc_call (StoreCheck b) n = (if b then Some n else None)"
| "run_calc [] n = Some n"
| "run_calc (c # cs) n =
     (case run_calc_call c n of None \<Rightarrow> None | Some n' \<Rightarrow> run_calc cs n')"


section \<open>Templates of tl_helpers.h\<close>

definition store_bool :: "bool \<Rightarrow> store_call list" where
  "store_bool x = [StoreBinary (bytes_of_u32 (if x then 1 else 0))]"

definition parse_bool :: "bool fetch" where
  "parse_bool = fbind fetch_int (\<lambda>v. fret (v \<noteq> 0))"

definition store_int32 :: "u32 \<Rightarrow> store_call list" where
  "store_int32 x = [StoreBinary (bytes_of_u32 x)]"

definition parse_int32 :: "u32 fetch" where
  "parse_int32 = fetch_int"

definition store_int64 :: "u64 \<Rightarrow> store_call list" where
  "store_int64 x = [StoreBinary (bytes_of_u64 x)]"

definition parse_int64 :: "u64 fetch" where
  "parse_int64 = fetch_long"

text \<open>\<open>UInt256\<close> and \<open>UInt512\<close>: \<open>n\<close> raw bytes.\<close>

definition store_uint :: "bytes \<Rightarrow> store_call list" where
  "store_uint x = [StoreBinary x]"

definition parse_uint :: "nat \<Rightarrow> bytes fetch" where
  "parse_uint n = fetch_binary n"

definition store_str :: "bytes \<Rightarrow> store_call list" where
  "store_str x = [StoreString x]"

definition parse_str :: "bytes fetch" where
  "parse_str = fetch_string"

definition store_vector :: "('a \<Rightarrow> store_call list) \<Rightarrow> 'a list \<Rightarrow> store_call list" where
  "store_vector store_val vec =
     StoreCheck (length vec < 2 ^ 31) # StoreBinary (bytes_of_u32 (of_nat (length vec)))
     # concat (map store_val vec)"

primrec parse_vals :: "'a fetch \<Rightarrow> nat \<Rightarrow> 'a list fetch" where
  "parse_vals parse_val 0 = fret []"
| "parse_vals parse_val (Suc n) =
     fbind parse_val (\<lambda>x. fbind (parse_vals parse_val n) (\<lambda>xs. fret (x # xs)))"

definition parse_vector :: "'a fetch \<Rightarrow> 'a list fetch" where
  "parse_vector parse_val = fbind fetch_int (\<lambda>sz p.
     if p_left_len p < unat sz
     then fbind (set_error ''Wrong vector length'') (\<lambda>_. fret []) p
     else parse_vals parse_val (unat sz) p)"

definition store_pair ::
  "('a \<Rightarrow> store_call list) \<Rightarrow> ('b \<Rightarrow> store_call list) \<Rightarrow> 'a \<times> 'b \<Rightarrow> store_call list" where
  "store_pair sa sb xy = sa (fst xy) @ sb (snd xy)"

definition parse_pair :: "'a fetch \<Rightarrow> 'b fetch \<Rightarrow> ('a \<times> 'b) fetch" where
  "parse_pair pa pb = fbind pa (\<lambda>x. fbind pb (\<lambda>y. fret (x, y)))"

text \<open>\<open>BEGIN_STORE_FLAGS .. STORE_FLAG .. END_STORE_FLAGS\<close> and the parsing macros.\<close>

primrec flags_word :: "nat \<Rightarrow> bool list \<Rightarrow> u32" where
  "flags_word i [] = 0"
| "flags_word i (f # fs) = (if f then push_bit i 1 else 0) OR flags_word (Suc i) fs"

definition store_flags :: "bool list \<Rightarrow> store_call list" where
  "store_flags flags = [StoreCheck (length flags < 31), StoreBinary (bytes_of_u32 (flags_word 0 flags))]"

definition parse_flags :: "nat \<Rightarrow> bool list fetch" where
  "parse_flags n = fbind fetch_int (\<lambda>w p.
     let flags = map (\<lambda>i. drop_bit i w AND 1 \<noteq> 0) [0..<n] in
     if \<not> n < 31 then None
     else if w AND NOT (push_bit n 1 - 1) \<noteq> 0
     then fbind (set_error ''Invalid flags '') (\<lambda>_. fret flags) p
     else Some (flags, p))"

definition serialize :: "store_call list \<Rightarrow> bytes option" where
  "serialize object =
     (case run_calc object 0 of None \<Rightarrow> None
      | Some len \<Rightarrow> (case run_unsafe object [] of None \<Rightarrow> None
          | Some buf \<Rightarrow> if length buf = len then Some buf else None))"

definition unserialize :: "'a fetch \<Rightarrow> bytes \<Rightarrow> ('a \<times> status) option" where
  "unserialize parse data =
     (case fbind parse (\<lambda>x. fbind fetch_end (\<lambda>_. fret x)) (tl_parser_of data) of
        None \<Rightarrow> None | Some (x, p) \<Rightarrow> Some (x, get_status p))"

section \<open>Memory safety of the parser\<close>

definition wf_parser :: "tl_parser \<Rightarrow> bool" where
  "wf_parser p \<longleftrightarrow>
     (if p_error p = [] then p_left_len p = length (p_data p) \<and> p_left_len p \<le> p_data_len p
        \<and> p_data_len p < size_max
      else p_left_len p = 0 \<and> p_data_len p = 0 \<and> p_error_pos p \<noteq> size_max)"

definition clean :: "tl_parser \<Rightarrow> bool" where
  "clean p \<longleftrightarrow> wf_parser p \<and> p_error p = []"

definition consume :: "nat \<Rightarrow> tl_parser \<Rightarrow> tl_parser" where
  "consume n p = p\<lparr>p_data := drop n (p_data p), p_left_len := p_left_len p - n\<rparr>"

text \<open>The parser after a failed length check.\<close>

definition failed :: "string \<Rightarrow> tl_parser \<Rightarrow> tl_parser" where
  "failed msg p = (if p_error p = [] then
      p\<lparr>p_error := msg, p_error_pos := p_data_len p - p_left_len p, p_data := empty_data,
        p_left_len := 0, p_data_len := 0\<rparr>
    else p\<lparr>p_data := empty_data\<rparr>)"

definition safe_fetch :: "'a fetch \<Rightarrow> bool" where
  "safe_fetch m \<longleftrightarrow> (\<forall>p. wf_parser p \<longrightarrow>
     (\<exists>x p'. m p = Some (x, p') \<and> wf_parser p' \<and> (p_error p \<noteq> [] \<longrightarrow> p_error p' = p_error p)))"

lemmas fetch_defs = fret_def fbind_def check_len_def fetch_binary_unsafe_def

lemma length_empty_data [simp]: "length empty_data = 64"
  by (simp add: empty_data_def)

lemma wf_tl_parser_of [inv_intros]: "length str < size_max \<Longrightarrow> wf_parser (tl_parser_of str)"
  by (simp add: wf_parser_def tl_parser_of_def)

lemma clean_tl_parser_of: "length str < size_max \<Longrightarrow> clean (tl_parser_of str)"
  by (simp add: wf_parser_def tl_parser_of_def clean_def)

lemma clean_len: "clean p \<Longrightarrow> p_left_len p = length (p_data p)"
  by (simp add: clean_def wf_parser_def)

lemma set_error_eq: "wf_parser p \<Longrightarrow> msg \<noteq> [] \<Longrightarrow> set_error msg p = Some ((), failed msg p)"
  by (auto simp: set_error_def failed_def wf_parser_def)

lemma failed_simps [simp]:
  "p_data (failed msg p) = empty_data"
  "p_error (failed msg p) = (if p_error p = [] then msg else p_error p)"
  by (simp_all add: failed_def)

lemma wf_failed [inv_intros]: "wf_parser p \<Longrightarrow> msg \<noteq> [] \<Longrightarrow> wf_parser (failed msg p)"
  by (auto simp: failed_def wf_parser_def)

lemma wf_failed_data [inv_intros]:
  "wf_parser p \<Longrightarrow> msg \<noteq> [] \<Longrightarrow> wf_parser (failed msg p\<lparr>p_data := d\<rparr>)"
  by (auto simp: failed_def wf_parser_def)

lemma wf_consume [inv_intros]: "wf_parser p \<Longrightarrow> n \<le> p_left_len p \<Longrightarrow> wf_parser (consume n p)"
  by (auto simp: consume_def wf_parser_def split: if_splits)

lemma consume_simps [simp]:
  "p_data (consume n p) = drop n (p_data p)"
  "p_error (consume n p) = p_error p"
  "p_left_len (consume n p) = p_left_len p - n"
  "consume m (consume n p) = consume (n + m) p"
  by (simp_all add: consume_def add.commute)

lemma clean_consume [inv_intros]: "clean p \<Longrightarrow> n \<le> length (p_data p) \<Longrightarrow> clean (consume n p)"
  by (simp add: clean_def wf_consume clean_len [unfolded clean_def])

lemma check_len_eq:
  "wf_parser p \<Longrightarrow> check_len n p =
     Some ((), if p_left_len p < n then failed ''Not enough data to read'' p
               else p\<lparr>p_left_len := p_left_len p - n\<rparr>)"
  by (simp add: check_len_def set_error_eq)

text \<open>One equation for every fixed-width fetch.\<close>

lemma fetch_binary_eq:
  assumes "wf_parser p" and "n \<le> 64"
  shows "fetch_binary n p = (if n \<le> p_left_len p
    then Some (take n (p_data p), consume n p)
    else Some (take n empty_data,
      failed ''Not enough data to read'' p\<lparr>p_data := drop n empty_data\<rparr>))"
  using assms
  by (auto simp: fetch_binary_def fetch_defs check_len_eq [unfolded check_len_def]
      wf_parser_def consume_def set_error_eq split: if_splits)

lemma safe_fetchI:
  "(\<And>p. wf_parser p \<Longrightarrow> \<exists>x p'. m p = Some (x, p') \<and> wf_parser p' \<and>
     (p_error p \<noteq> [] \<longrightarrow> p_error p' = p_error p)) \<Longrightarrow> safe_fetch m"
  by (simp add: safe_fetch_def)

lemma safe_fetchE:
  assumes "safe_fetch m" and "wf_parser p"
  obtains x p' where "m p = Some (x, p')" and "wf_parser p'"
    and "p_error p \<noteq> [] \<Longrightarrow> p_error p' = p_error p"
  using assms unfolding safe_fetch_def by blast

lemma safe_fret [abort_free]: "safe_fetch (fret x)"
  by (simp add: safe_fetch_def fret_def)

lemma safe_fbind [abort_free]:
  assumes "safe_fetch m" and "\<And>x. safe_fetch (f x)"
  shows "safe_fetch (fbind m f)"
proof (rule safe_fetchI)
  fix p assume wf: "wf_parser p"
  obtain x p1 where m: "m p = Some (x, p1)" "wf_parser p1"
    and e1: "p_error p \<noteq> [] \<Longrightarrow> p_error p1 = p_error p"
    using safe_fetchE [OF assms(1) wf] by metis
  obtain y p2 where f: "f x p1 = Some (y, p2)" "wf_parser p2"
    and e2: "p_error p1 \<noteq> [] \<Longrightarrow> p_error p2 = p_error p1"
    using safe_fetchE [OF assms(2) m(2)] by metis
  show "\<exists>x p'. fbind m f p = Some (x, p') \<and> wf_parser p' \<and> (p_error p \<noteq> [] \<longrightarrow> p_error p' = p_error p)"
    using m f e1 e2 by (auto simp: fbind_def)
qed

lemma safe_if: "safe_fetch a \<Longrightarrow> safe_fetch b \<Longrightarrow> safe_fetch (\<lambda>p. if c p then a p else b p)"
  by (simp add: safe_fetch_def)

lemma safe_fetch_binary [abort_free]: "n \<le> 64 \<Longrightarrow> safe_fetch (fetch_binary n)"
  by (rule safe_fetchI) (auto simp: fetch_binary_eq intro!: inv_intros)

lemma safe_set_error [abort_free]: "msg \<noteq> [] \<Longrightarrow> safe_fetch (set_error msg)"
  by (rule safe_fetchI) (auto simp: set_error_eq intro!: inv_intros)

lemma fetch_int_eq: "fetch_int = fbind (fetch_binary 4) (\<lambda>bs. fret (u32_of_bytes bs))"
  by (rule ext) (simp add: fetch_int_def fetch_int_unsafe_def fetch_binary_def fetch_defs
      split: option.splits)

lemma fetch_long_eq: "fetch_long = fbind (fetch_binary 8) (\<lambda>bs. fret (u64_of_bytes bs))"
  by (rule ext) (simp add: fetch_long_def fetch_long_unsafe_def fetch_binary_def fetch_defs
      split: option.splits)

lemma fetch_double_eq: "fetch_double = fetch_long"
  by (simp add: fetch_double_def fetch_long_def)

lemma safe_fetch_int [abort_free]: "safe_fetch fetch_int"
  unfolding fetch_int_eq by (intro abort_free) simp

lemma safe_fetch_long [abort_free]: "safe_fetch fetch_long"
  unfolding fetch_long_eq by (intro abort_free) simp

lemma safe_fetch_double [abort_free]: "safe_fetch fetch_double"
  unfolding fetch_double_eq by (rule safe_fetch_long)

lemma safe_fetch_end [abort_free]: "safe_fetch fetch_end"
  by (rule safe_fetchI) (auto simp: fetch_end_def set_error_eq intro!: inv_intros)

lemma safe_fetch_string_raw [abort_free]: "safe_fetch (fetch_string_raw n)"
proof (rule safe_fetchI)
  fix p assume wf: "wf_parser p"
  show "\<exists>x p'. fetch_string_raw n p = Some (x, p') \<and> wf_parser p' \<and>
    (p_error p \<noteq> [] \<longrightarrow> p_error p' = p_error p)"
    using wf wf_consume [OF wf, of n] wf_failed [OF wf, of "''Not enough data to read''"]
    by (auto simp: fetch_string_raw_def fbind_def check_len_eq fetch_binary_unsafe_def
        consume_def wf_parser_def split: if_splits)
qed

lemma fetch_string_raw_clean:
  "clean p \<Longrightarrow> n \<le> length (p_data p) \<Longrightarrow>
     fetch_string_raw n p = Some (take n (p_data p), consume n p)"
  by (auto simp: fetch_string_raw_def fbind_def check_len_eq fetch_binary_unsafe_def clean_def
      consume_def wf_parser_def)

text \<open>The tail of \<open>fetch_string\<close>, from the parser \<open>q\<close> before its header was accounted for.\<close>

lemma fetch_string_tail_eq:
  assumes "clean q" and "hdr \<le> p_left_len q" and "begin + len \<le> hdr + aligned"
  shows "fetch_string_tail begin hdr len aligned (q\<lparr>p_left_len := p_left_len q - hdr\<rparr>) =
    (if hdr + aligned \<le> p_left_len q
     then Some (take len (drop begin (p_data q)), consume (hdr + aligned) q)
     else Some ([], failed ''Not enough data to read'' (consume hdr q)))"
proof -
  have wf: "wf_parser (consume hdr q)"
    using assms by (simp add: clean_def wf_consume)
  have data: "p_left_len q = length (p_data q)"
    using assms(1) by (rule clean_len)
  have e: "p_error q = []" using assms(1) by (simp add: clean_def)
  have hdr: "fetch_binary_unsafe hdr (q\<lparr>p_left_len := length (p_data q) - hdr\<rparr>) =
      Some (take hdr (p_data q), consume hdr q)"
    using assms(2) data by (simp add: fetch_binary_unsafe_def consume_def)
  have last: "consume hdr q\<lparr>p_left_len := n, p_data := d\<rparr> = q\<lparr>p_data := d, p_left_len := n\<rparr>" for n d
    by (simp add: consume_def)
  show ?thesis
    using assms(2,3) e unfolding data
    by (auto simp: fetch_string_tail_def fbind_def hdr check_len_eq [OF wf] last data
        consume_def [of "hdr + aligned"] consume_def [of "aligned + hdr"] add.commute)
qed

text \<open>In the error state the length word read from \<open>empty_data\<close> is zero.\<close>

lemma empty_data_Cons: "empty_data = 0 # replicate 63 0"
  by (simp add: empty_data_def numeral_eq_Suc)

lemma of_le_zeros [simp]: "of_le (replicate n 0) = 0"
  by (induction n) simp_all

lemma fetch_string_tail_error:
  assumes "p_error p \<noteq> []" and "p_data p = empty_data" and "hdr \<le> 64"
  shows "fetch_string_tail begin hdr 0 0 p = Some ([], p\<lparr>p_data := drop hdr empty_data\<rparr>)"
  using assms by (simp add: fetch_string_tail_def fbind_def fetch_binary_unsafe_def check_len_def)

lemma consume_left_failed: "p_left_len q \<ge> n \<Longrightarrow> wf_parser q \<Longrightarrow> n > 0 \<Longrightarrow> p_error q = []"
  by (auto simp: wf_parser_def split: if_splits)

text \<open>\<open>fetch_string\<close> on a parser that cannot read its first word.\<close>

lemma fetch_string_short:
  assumes "wf_parser p" and "p_left_len p < 4"
  shows "fetch_string p =
    Some ([], failed ''Not enough data to read'' p\<lparr>p_data := drop 4 empty_data\<rparr>)"
proof -
  let ?f = "failed ''Not enough data to read'' p"
  have "check_len 4 p = Some ((), ?f)"
    using assms by (simp add: check_len_eq)
  moreover have "fetch_string_tail 1 4 0 0 ?f = Some ([], ?f\<lparr>p_data := drop 4 empty_data\<rparr>)"
    by (rule fetch_string_tail_error) auto
  ultimately show ?thesis
    by (simp add: fetch_string_def fbind_def empty_data_Cons)
qed

lemma div4_bound: "n \<le> (n + 3) div 4 * (4 :: nat)" "n < n div 4 * (4 :: nat) + 4"
  by presburger+

lemma of_le_take_bound: "of_le (take n bs) < 256 ^ n"
proof -
  have "(256::nat) ^ length (take n bs) \<le> 256 ^ n"
    by (rule power_increasing) auto
  then show ?thesis using of_le_bound [of "take n bs"] by (rule less_le_trans [rotated])
qed

lemma safe_failed_consume:
  "clean q \<Longrightarrow> n \<le> p_left_len q \<Longrightarrow>
     wf_parser (failed ''Not enough data to read'' (consume n q))"
  by (intro inv_intros) (simp_all add: clean_def)

lemma safe_fetch_string [abort_free]: "safe_fetch fetch_string"
proof (rule safe_fetchI)
  fix p assume wf: "wf_parser p"
  show "\<exists>x p'. fetch_string p = Some (x, p') \<and> wf_parser p' \<and> (p_error p \<noteq> [] \<longrightarrow> p_error p' = p_error p)"
  proof (cases "p_left_len p < 4")
    case True
    then show ?thesis using wf by (auto simp: fetch_string_short intro!: inv_intros)
  next
    case False
    then have cl: "clean p" using wf consume_left_failed [of 4 p] by (simp add: clean_def)
    have ln: "4 \<le> length (p_data p)" using False clean_len [OF cl] by simp
    then obtain b0 tl where d: "p_data p = b0 # tl" by (cases "p_data p") auto
    let ?p4 = "p\<lparr>p_left_len := p_left_len p - 4\<rparr>"
    have len7: "\<not> of_le (take 7 tl) > size_max - 3"
      using of_le_take_bound [of 7 tl] by (simp add: size_max_def)
    have tail: "\<exists>x p'. fetch_string_tail b h l a (p\<lparr>p_left_len := p_left_len p - h\<rparr>) = Some (x, p')
        \<and> wf_parser p'"
      if "h \<le> p_left_len p" "b + l \<le> h + a" for b h l a
      using fetch_string_tail_eq [OF cl that] safe_failed_consume [OF cl that(1)]
        wf_consume [OF wf, of "h + a"] by auto
    have p48: "p_left_len p \<ge> 8 \<Longrightarrow> ?p4\<lparr>p_left_len := p_left_len ?p4 - 4\<rparr> =
        p\<lparr>p_left_len := p_left_len p - 8\<rparr>"
      by simp
    have "\<exists>x p'. fetch_string p = Some (x, p') \<and> wf_parser p'"
    proof (cases "unat b0 < 254")
      case True
      then show ?thesis
        using tail [of 4 1 "unat b0" "unat b0 div 4 * 4"] False d wf div4_bound(2) [of "unat b0"]
        by (simp add: fetch_string_def fbind_def check_len_eq Let_def)
    next
      case b: False
      show ?thesis
      proof (cases "unat b0 = 254")
        case True
        then show ?thesis
          using tail [of 4 4 "of_le (take 3 tl)" "(of_le (take 3 tl) + 3) div 4 * 4"] False d wf ln
            div4_bound(1) [of "of_le (take 3 tl)"]
          by (simp add: fetch_string_def fbind_def check_len_eq Let_def)
      next
        case b': False
        show ?thesis
        proof (cases "p_left_len p < 8")
          case True
          let ?f = "failed ''Not enough data to read'' ?p4"
          have e: "p_error p = []" using cl by (simp add: clean_def)
          have "check_len 4 p = Some ((), ?p4)" using \<open>\<not> p_left_len p < 4\<close> by (simp add: check_len_def)
          moreover have "check_len 4 ?p4 = Some ((), ?f)"
            using True e by (simp add: check_len_def set_error_def failed_def)
          moreover have "fetch_string_tail 8 8 0 0 ?f = Some ([], ?f\<lparr>p_data := drop 8 empty_data\<rparr>)"
            by (rule fetch_string_tail_error) auto
          ultimately have "fetch_string p = Some ([], ?f\<lparr>p_data := drop 8 empty_data\<rparr>)"
            using d b b' by (simp add: fetch_string_def fbind_def empty_data_Cons)
          then show ?thesis using wf e by (auto simp: wf_parser_def failed_def)
        next
          case False
          then show ?thesis
            using tail [of 8 8 "of_le (take 7 tl)" "(of_le (take 7 tl) + 3) div 4 * 4"] d wf b b'
              clean_len [OF cl] len7 div4_bound(1) [of "of_le (take 7 tl)"]
            by (simp add: fetch_string_def fbind_def check_len_def Let_def) linarith
        qed
      qed
    qed
    then show ?thesis using cl by (auto simp: clean_def)
  qed
qed


section \<open>The two storers agree\<close>

lemma length_store_string_pad:
  "length (store_string_pad n) = (if n mod 4 = 0 then 0 else 4 - n mod 4)"
proof -
  have "n mod 4 < 4" by simp
  then consider "n mod 4 = 0" | "n mod 4 = Suc 0" | "n mod 4 = Suc (Suc 0)" | "n mod 4 = Suc (Suc (Suc 0))"
    by linarith
  then show ?thesis by cases (simp_all add: store_string_pad_def)
qed

lemma pad_round_up: "n + length (store_string_pad n) = (n + 3) div 4 * 4"
  unfolding length_store_string_pad by presburger

lemma round_up4_add: "(n + 4 + 3) div 4 * 4 = (n + 3) div 4 * 4 + (4::nat)"
  "(n + 8 + 3) div 4 * 4 = (n + 3) div 4 * 4 + (8::nat)"
  by presburger+

lemma length_unsafe_store_string:
  assumes "unsafe_store_string str = Some bs"
  shows "length bs = calc_store_string str"
proof -
  let ?n = "length str"
  consider "?n < 254" | "\<not> ?n < 254" "?n < 2 ^ 24" | "\<not> ?n < 254" "\<not> ?n < 2 ^ 24" "?n < 2 ^ 32"
    using assms unfolding unsafe_store_string_def Let_def by (metis option.distinct(1))
  then show ?thesis
  proof cases
    case 1
    then have "bs = of_nat ?n # str @ store_string_pad (?n + 1)"
      using assms unfolding unsafe_store_string_def Let_def by simp
    then show ?thesis
      using 1 pad_round_up [of "?n + 1"] by (simp add: calc_store_string_def)
  next
    case 2
    then have "length bs = 4 + (?n + length (store_string_pad ?n))"
      using assms unfolding unsafe_store_string_def Let_def by auto
    then show ?thesis
      using 2 pad_round_up [of "?n"] round_up4_add(1) [of ?n] by (simp add: calc_store_string_def)
  next
    case 3
    then have "length bs = 8 + (?n + length (store_string_pad ?n))"
      using assms unfolding unsafe_store_string_def Let_def by auto
    then show ?thesis
      using 3 pad_round_up [of "?n"] round_up4_add(2) [of ?n] by (simp add: calc_store_string_def)
  qed
qed

lemma run_unsafe_call_buf:
  "run_unsafe_call c (buf @ b) = map_option (\<lambda>bs. buf @ bs) (run_unsafe_call c b)"
  by (cases c) (simp_all add: map_option_case split: option.splits)

lemma run_unsafe_shift: "run_unsafe cs (buf @ b) = map_option (\<lambda>bs. buf @ bs) (run_unsafe cs b)"
  by (induction cs arbitrary: b) (auto simp: run_unsafe_call_buf split: option.splits)

lemma run_unsafe_buf: "run_unsafe cs buf = map_option (\<lambda>bs. buf @ bs) (run_unsafe cs [])"
  using run_unsafe_shift [of cs buf "[]"] by simp

lemma run_unsafe_append:
  "run_unsafe (as @ bs) buf = (case run_unsafe as buf of None \<Rightarrow> None | Some b \<Rightarrow> run_unsafe bs b)"
  by (induction as arbitrary: buf) (auto split: option.splits)

lemma run_calc_unsafe:
  "run_unsafe_call c buf = Some bs \<Longrightarrow> run_calc_call c (length buf) = Some (length bs)"
  "run_unsafe cs buf = Some bs \<Longrightarrow> run_calc cs (length buf) = Some (length bs)"
proof (induction c buf and cs buf arbitrary: bs and bs rule: run_unsafe_call_run_unsafe.induct)
  case (4 cs buf)
  then show ?case by force
qed (auto dest: length_unsafe_store_string split: option.splits if_splits)

text \<open>The only way for a \<open>CHECK\<close> of \<open>serialize\<close> to fire is one the template itself runs.\<close>

lemma serialize_run: "serialize cs = run_unsafe cs []"
proof (cases "run_unsafe cs []")
  case None
  then show ?thesis by (simp add: serialize_def split: option.split)
next
  case (Some bs)
  then show ?thesis using run_calc_unsafe(2) [OF Some] by (simp add: serialize_def)
qed

section \<open>Codecs\<close>

lemma fetch_binary_clean:
  "clean p \<Longrightarrow> n \<le> 64 \<Longrightarrow> length bs = n \<Longrightarrow> p_data p = bs @ rest \<Longrightarrow>
     fetch_binary n p = Some (bs, consume n p)"
  using clean_len [of p] by (simp add: fetch_binary_eq clean_def)

lemma fetch_int_clean:
  "clean p \<Longrightarrow> p_data p = bytes_of_u32 w @ rest \<Longrightarrow> fetch_int p = Some (w, consume 4 p)"
  using clean_len [of p] by (simp add: fetch_int_eq fbind_def fetch_binary_eq clean_def fret_def)

lemma fetch_long_clean:
  "clean p \<Longrightarrow> p_data p = bytes_of_u64 w @ rest \<Longrightarrow> fetch_long p = Some (w, consume 8 p)"
  using clean_len [of p] by (simp add: fetch_long_eq fbind_def fetch_binary_eq clean_def fret_def)

lemma of_le_3: "n < 2 ^ 24 \<Longrightarrow>
  of_le [of_nat (n mod 256), of_nat (n div 2 ^ 8 mod 256), of_nat (n div 2 ^ 16)] = n"
proof -
  assume n: "n < 2 ^ 24"
  have "le_bytes 3 n = [of_nat (n mod 256), of_nat (n div 2 ^ 8 mod 256), of_nat (n div 2 ^ 16)]"
    by (simp add: numeral_3_eq_3 word_unat_eq_iff unat_of_nat div_mult2_eq [symmetric])
  then show ?thesis using n of_le_le_bytes [of 3 n] by simp
qed

lemma of_le_7: "n < 2 ^ 32 \<Longrightarrow>
  of_le [of_nat (n mod 256), of_nat (n div 2 ^ 8 mod 256), of_nat (n div 2 ^ 16 mod 256),
         of_nat (n div 2 ^ 24 mod 256), 0, 0, 0] = n"
proof -
  assume n: "n < 2 ^ 32"
  have four: "le_bytes 4 n = le_bytes (Suc 3) n" by simp
  have "le_bytes 4 n = [of_nat (n mod 256), of_nat (n div 2 ^ 8 mod 256),
      of_nat (n div 2 ^ 16 mod 256), of_nat (n div 2 ^ 24 mod 256)]"
    unfolding four by (simp add: numeral_3_eq_3 word_unat_eq_iff unat_of_nat div_mult2_eq [symmetric])
  then show ?thesis using n of_le_le_bytes [of 4 n] of_le_append [of "le_bytes 4 n" "[0, 0, 0]"] by simp
qed

lemma fetch_string_clean:
  assumes "unsafe_store_string str = Some bs" and cl: "clean p" and d: "p_data p = bs @ rest"
  shows "fetch_string p = Some (str, consume (length bs) p)"
proof -
  let ?n = "length str"
  have wf: "wf_parser p" using cl by (simp add: clean_def)
  have ll: "p_left_len p = length bs + length rest" using clean_len [OF cl] d by simp
  have lb: "length bs = calc_store_string str" using assms(1) by (rule length_unsafe_store_string)
  consider "?n < 254" | "\<not> ?n < 254" "?n < 2 ^ 24" | "\<not> ?n < 254" "\<not> ?n < 2 ^ 24" "?n < 2 ^ 32"
    using assms(1) unfolding unsafe_store_string_def Let_def by (metis option.distinct(1))
  then show ?thesis
  proof cases
    case 1
    then have bs: "bs = of_nat ?n # str @ store_string_pad (?n + 1)"
      using assms(1) unfolding unsafe_store_string_def Let_def by simp
    have n: "unat (of_nat ?n :: byte) = ?n" using 1 by (simp add: unat_of_nat_byte)
    have "(?n + 1 + 3) div 4 * 4 = 4 + ?n div 4 * 4" by presburger
    with 1 lb have l4: "length bs = 4 + ?n div 4 * 4" by (simp add: calc_store_string_def)
    have "fetch_string p = fetch_string_tail 1 4 ?n (?n div 4 * 4) (p\<lparr>p_left_len := p_left_len p - 4\<rparr>)"
      using 1 l4 ll n wf d bs by (simp add: fetch_string_def fbind_def check_len_eq Let_def)
    also have "\<dots> = Some (str, consume (length bs) p)"
      using fetch_string_tail_eq [OF cl, of 4 1 ?n "?n div 4 * 4"] ll l4 div4_bound(2) [of ?n] d bs
      by simp
    finally show ?thesis .
  next
    case 2
    let ?h = "[254, of_nat (?n mod 256), of_nat (?n div 2 ^ 8 mod 256), of_nat (?n div 2 ^ 16)] :: bytes"
    have bs: "bs = ?h @ str @ store_string_pad ?n"
      using 2 assms(1) unfolding unsafe_store_string_def Let_def by simp
    have tk: "take ?n (drop 4 (p_data p)) = str" using d bs by simp
    obtain tl where tl: "p_data p = 254 # tl" "of_le (take 3 tl) = ?n" "3 \<le> length tl"
      using d bs of_le_3 [OF 2(2)] by force
    have l4: "length bs = 4 + (?n + 3) div 4 * 4"
      using 2 lb round_up4_add(1) [of ?n] by (simp add: calc_store_string_def)
    have "fetch_string p = fetch_string_tail 4 4 ?n ((?n + 3) div 4 * 4) (p\<lparr>p_left_len := p_left_len p - 4\<rparr>)"
      using ll tl unfolding l4 by (simp add: fetch_string_def fbind_def check_len_def Let_def)
    also have "\<dots> = Some (str, consume (length bs) p)"
      using fetch_string_tail_eq [OF cl, of 4 4 ?n "(?n + 3) div 4 * 4"] ll div4_bound(1) [of ?n] tk
      unfolding l4 by simp
    finally show ?thesis .
  next
    case 3
    let ?h = "[255, of_nat (?n mod 256), of_nat (?n div 2 ^ 8 mod 256), of_nat (?n div 2 ^ 16 mod 256),
      of_nat (?n div 2 ^ 24 mod 256), 0, 0, 0] :: bytes"
    have bs: "bs = ?h @ str @ store_string_pad ?n"
      using 3 assms(1) unfolding unsafe_store_string_def Let_def by simp
    have tk: "take ?n (drop 8 (p_data p)) = str" using d bs by simp
    have sz: "\<not> ?n > size_max - 3" using 3 by (simp add: size_max_def)
    obtain tl where tl: "p_data p = 255 # tl" "of_le (take 7 tl) = ?n" "7 \<le> length tl"
      using d bs of_le_7 [OF 3(3)] by force
    have l8: "length bs = 8 + (?n + 3) div 4 * 4"
      using 3 lb round_up4_add(2) [of ?n] by (simp add: calc_store_string_def)
    have "fetch_string p = fetch_string_tail 8 8 ?n ((?n + 3) div 4 * 4) (p\<lparr>p_left_len := p_left_len p - 8\<rparr>)"
      using sz ll tl unfolding l8 by (simp add: fetch_string_def fbind_def check_len_def Let_def)
    also have "\<dots> = Some (str, consume (length bs) p)"
      using fetch_string_tail_eq [OF cl, of 8 8 ?n "(?n + 3) div 4 * 4"] ll div4_bound(1) [of ?n] tk
      unfolding l8 by simp
    finally show ?thesis .
  qed
qed

text \<open>\<open>parses m bs x\<close>: on data that starts with \<open>bs\<close>, the fetch \<open>m\<close> returns \<open>x\<close> and
  consumes exactly \<open>bs\<close>.\<close>

definition parses :: "'a fetch \<Rightarrow> bytes \<Rightarrow> 'a \<Rightarrow> bool" where
  "parses m bs x \<longleftrightarrow> (\<forall>p rest. clean p \<longrightarrow> p_data p = bs @ rest \<longrightarrow> m p = Some (x, consume (length bs) p))"

lemma parses_fret: "parses (fret x) [] x"
  by (simp add: parses_def fret_def consume_def)

lemma parses_fbind:
  assumes "parses m b1 x" and "parses (f x) b2 y"
  shows "parses (fbind m f) (b1 @ b2) y"
  unfolding parses_def
proof (intro allI impI)
  fix p rest assume p: "clean p" "p_data p = (b1 @ b2) @ rest"
  have "clean (consume (length b1) p)" using p by (intro clean_consume) simp_all
  then show "fbind m f p = Some (y, consume (length (b1 @ b2)) p)"
    using assms p by (simp add: parses_def fbind_def)
qed

lemma parses_fmap: "parses m bs x \<Longrightarrow> y = f x \<Longrightarrow> parses (fbind m (\<lambda>x. fret (f x))) bs y"
  using parses_fbind [of m bs x "\<lambda>x. fret (f x)" "[]" y] parses_fret [of "f x"] by simp

lemma parses_fetch:
  "parses fetch_int (bytes_of_u32 w) w"
  "parses fetch_long (bytes_of_u64 v) v"
  "parses fetch_double (bytes_of_u64 v) v"
  "unsafe_store_string str = Some bs \<Longrightarrow> parses fetch_string bs str"
  by (simp_all add: parses_def fetch_int_clean fetch_long_clean fetch_double_eq fetch_string_clean)

lemma parses_unserialize:
  assumes "parses m bs x" and "length bs < size_max"
  shows "unserialize m bs = Some (x, OK)"
proof -
  have "m (tl_parser_of bs) = Some (x, consume (length bs) (tl_parser_of bs))"
    using assms clean_tl_parser_of [OF assms(2)] by (auto simp: parses_def tl_parser_of_def)
  then show ?thesis
    by (simp add: unserialize_def fbind_def fret_def fetch_end_def tl_parser_of_def get_status_def)
qed

text \<open>
  The contract between a \<open>store\<close> template and its \<open>parse\<close> counterpart, on the values
  \<open>ok\<close> describes: storing succeeds and writes something, parsing what was stored gives the
  value back and consumes exactly those bytes, and parsing is safe on any input whatever.
\<close>

locale tl_codec =
  fixes st :: "'a \<Rightarrow> store_call list"
    and pa :: "'a fetch"
    and ok :: "'a \<Rightarrow> bool"
  assumes st_returns: "ok x \<Longrightarrow> \<exists>bs. run_unsafe (st x) [] = Some bs \<and> bs \<noteq> []"
    and pa_st: "ok x \<Longrightarrow> run_unsafe (st x) [] = Some bs \<Longrightarrow> clean p \<Longrightarrow> p_data p = bs @ rest
      \<Longrightarrow> pa p = Some (x, consume (length bs) p)"
    and pa_safe: "safe_fetch pa"
begin

lemma serialize_returns: "ok x \<Longrightarrow> \<exists>bs. serialize (st x) = Some bs"
  using st_returns unfolding serialize_run by blast

lemma unserialize_serialize:
  assumes "ok x" and "serialize (st x) = Some bs" and "length bs < size_max"
  shows "unserialize pa bs = Some (x, OK)"
  using assms pa_st [OF assms(1)] by (intro parses_unserialize) (simp_all add: parses_def serialize_run)

lemma unserialize_total:
  assumes "length bs < size_max"
  shows "\<exists>x s. unserialize pa bs = Some (x, s)"
proof -
  have "safe_fetch (fbind pa (\<lambda>x. fbind fetch_end (\<lambda>_. fret x)))"
    by (intro abort_free pa_safe)
  then obtain x p where
    "fbind pa (\<lambda>x. fbind fetch_end (\<lambda>_. fret x)) (tl_parser_of bs) = Some (x, p)"
    using safe_fetchE [OF _ wf_tl_parser_of [OF assms]] by metis
  then show ?thesis by (simp add: unserialize_def)
qed

lemma run_vals:
  assumes "\<forall>x \<in> set xs. ok x"
  shows "\<exists>bs. run_unsafe (concat (map st xs)) [] = Some bs \<and> length xs \<le> length bs \<and>
    (\<forall>p rest. clean p \<longrightarrow> p_data p = bs @ rest \<longrightarrow>
      parse_vals pa (length xs) p = Some (xs, consume (length bs) p))"
  using assms
proof (induction xs)
  case Nil
  have "consume 0 p = p" for p by (simp add: consume_def)
  then show ?case by (simp add: fret_def)
next
  case (Cons x xs)
  obtain b1 where b1: "run_unsafe (st x) [] = Some b1" "b1 \<noteq> []"
    using st_returns Cons.prems by force
  obtain b2 where b2: "run_unsafe (concat (map st xs)) [] = Some b2" "length xs \<le> length b2"
    and vals: "\<And>p rest. clean p \<Longrightarrow> p_data p = b2 @ rest \<Longrightarrow>
      parse_vals pa (length xs) p = Some (xs, consume (length b2) p)"
    using Cons by auto
  have "run_unsafe (concat (map st (x # xs))) [] = Some (b1 @ b2)"
    using b1 b2 run_unsafe_buf [of "concat (map st xs)" b1] by (simp add: run_unsafe_append)
  moreover have "length (x # xs) \<le> length (b1 @ b2)"
    using b1(2) b2(2) by (cases b1) auto
  moreover have "parse_vals pa (length (x # xs)) p = Some (x # xs, consume (length (b1 @ b2)) p)"
    if "clean p" "p_data p = (b1 @ b2) @ rest" for p rest
    using pa_st [OF _ b1(1) that(1), of "b2 @ rest"] Cons.prems that
      vals [of "consume (length b1) p" rest] clean_consume [OF that(1), of "length b1"]
    by (simp add: fbind_def fret_def)
  ultimately show ?case by blast
qed

lemma safe_parse_vals: "safe_fetch (parse_vals pa n)"
proof (induction n)
  case 0
  show ?case by (simp add: safe_fret)
next
  case (Suc n)
  then show ?case by (simp only: parse_vals.simps) (intro safe_fbind safe_fret pa_safe)
qed

lemma vector_codec:
  "tl_codec (store_vector st) (parse_vector pa) (\<lambda>v. length v < 2 ^ 31 \<and> (\<forall>x \<in> set v. ok x))"
proof
  fix v assume v: "length v < 2 ^ 31 \<and> (\<forall>x \<in> set v. ok x)"
  then obtain b where b: "run_unsafe (concat (map st v)) [] = Some b" "length v \<le> length b"
    and vals: "\<And>p rest. clean p \<Longrightarrow> p_data p = b @ rest \<Longrightarrow>
      parse_vals pa (length v) p = Some (v, consume (length b) p)"
    using run_vals by metis
  let ?h = "bytes_of_u32 (of_nat (length v))"
  have st: "run_unsafe (store_vector st v) [] = Some (?h @ b)"
    using v b run_unsafe_buf [of "concat (map st v)" ?h] by (simp add: store_vector_def)
  then show "\<exists>bs. run_unsafe (store_vector st v) [] = Some bs \<and> bs \<noteq> []"
    by (metis append_is_Nil_conv length_bytes_of_u32 list.size(3) zero_neq_numeral)
  fix bs p rest
  assume bs: "run_unsafe (store_vector st v) [] = Some bs" and cl: "clean p"
    and d: "p_data p = bs @ rest"
  have bs: "bs = ?h @ b" using st bs by simp
  have u: "unat (of_nat (length v) :: u32) = length v"
    using v by (simp add: unat_of_nat)
  have "fetch_int p = Some (of_nat (length v), consume 4 p)"
    using fetch_int_clean [OF cl] d bs by simp
  moreover have "length v \<le> p_left_len (consume 4 p)"
    using clean_len [OF cl] d bs b(2) by simp
  moreover have "parse_vals pa (length v) (consume 4 p) = Some (v, consume (4 + length b) p)"
    using vals [of "consume 4 p" rest] clean_consume [OF cl, of 4] d bs by simp
  ultimately show "parse_vector pa p = Some (v, consume (length bs) p)"
    using u bs by (simp add: parse_vector_def fbind_def)
next
  show "safe_fetch (parse_vector pa)"
    unfolding parse_vector_def
  proof (rule safe_fbind [OF safe_fetch_int])
    fix sz :: u32
    have "safe_fetch (fbind (set_error ''Wrong vector length'') (\<lambda>_. fret []))"
      by (intro safe_fbind safe_set_error safe_fret) simp
    then show "safe_fetch (\<lambda>p. if p_left_len p < unat sz
        then fbind (set_error ''Wrong vector length'') (\<lambda>_. fret []) p else parse_vals pa (unat sz) p)"
      using safe_parse_vals [of "unat sz"] by (rule safe_if)
  qed
qed

end


locale tl_codec_pair = a: tl_codec sa pa oka + b: tl_codec sb pb okb
  for sa :: "'a \<Rightarrow> store_call list" and pa :: "'a fetch" and oka :: "'a \<Rightarrow> bool"
    and sb :: "'b \<Rightarrow> store_call list" and pb :: "'b fetch" and okb :: "'b \<Rightarrow> bool"
begin

lemma pair_codec:
  "tl_codec (store_pair sa sb) (parse_pair pa pb) (\<lambda>xy. oka (fst xy) \<and> okb (snd xy))"
proof
  fix xy :: "'a \<times> 'b" assume ok: "oka (fst xy) \<and> okb (snd xy)"
  obtain x y where xy: "xy = (x, y)" by (cases xy)
  obtain b1 where b1: "run_unsafe (sa x) [] = Some b1" "b1 \<noteq> []"
    using a.st_returns ok xy by force
  obtain b2 where b2: "run_unsafe (sb y) [] = Some b2"
    using b.st_returns ok xy by force
  have st: "run_unsafe (store_pair sa sb xy) [] = Some (b1 @ b2)"
    using b1 b2 run_unsafe_buf [of "sb y" b1] xy by (simp add: store_pair_def run_unsafe_append)
  then show "\<exists>bs. run_unsafe (store_pair sa sb xy) [] = Some bs \<and> bs \<noteq> []" using b1 by simp
  fix bs p rest
  assume "run_unsafe (store_pair sa sb xy) [] = Some bs" and cl: "clean p" and d: "p_data p = bs @ rest"
  then have bs: "bs = b1 @ b2" using st by simp
  have "pa p = Some (x, consume (length b1) p)"
    using a.pa_st [OF _ b1(1) cl] ok d bs xy by simp
  moreover have "pb (consume (length b1) p) = Some (y, consume (length bs) p)"
    using b.pa_st [OF _ b2 clean_consume [OF cl, of "length b1"], of rest] ok d bs xy by simp
  ultimately show "parse_pair pa pb p = Some (xy, consume (length bs) p)"
    using xy by (simp add: parse_pair_def fbind_def fret_def)
next
  show "safe_fetch (parse_pair pa pb)"
    unfolding parse_pair_def by (intro safe_fbind safe_fret a.pa_safe b.pa_safe)
qed

end

interpretation int32_codec: tl_codec store_int32 parse_int32 "\<lambda>_. True"
  by unfold_locales (auto simp: store_int32_def parse_int32_def fetch_int_clean safe_fetch_int)

interpretation int64_codec: tl_codec store_int64 parse_int64 "\<lambda>_. True"
  by unfold_locales (auto simp: store_int64_def parse_int64_def fetch_long_clean safe_fetch_long)

interpretation bool_codec: tl_codec store_bool parse_bool "\<lambda>_. True"
proof unfold_locales
  show "safe_fetch parse_bool"
    unfolding parse_bool_def by (intro safe_fbind safe_fetch_int safe_fret)
qed (auto simp: store_bool_def parse_bool_def fetch_int_clean fbind_def fret_def)

interpretation uint256_codec: tl_codec store_uint "parse_uint 32" "\<lambda>x. length x = 32"
  by unfold_locales (auto simp: store_uint_def parse_uint_def fetch_binary_clean safe_fetch_binary)

lemma run_store_str: "run_unsafe (store_str x) [] = unsafe_store_string x"
  by (simp add: store_str_def split: option.split)

interpretation string_codec: tl_codec store_str parse_str "\<lambda>x. length x < 2 ^ 32"
proof unfold_locales
  fix x :: bytes
  assume "length x < 2 ^ 32"
  then show "\<exists>bs. run_unsafe (store_str x) [] = Some bs \<and> bs \<noteq> []"
    by (simp add: run_store_str unsafe_store_string_def Let_def)
next
  show "safe_fetch parse_str" by (simp add: parse_str_def safe_fetch_string)
qed (simp add: run_store_str parse_str_def fetch_string_clean)

interpretation int64_vector: tl_codec "store_vector store_int64" "parse_vector parse_int64"
    "\<lambda>v. length v < 2 ^ 31 \<and> (\<forall>x \<in> set v. True)"
  by (rule int64_codec.vector_codec)

interpretation string_int64: tl_codec_pair store_str parse_str "\<lambda>x. length x < 2 ^ 32"
    store_int64 parse_int64 "\<lambda>_. True"
  by unfold_locales

interpretation string_int64_pair: tl_codec "store_pair store_str store_int64" "parse_pair parse_str parse_int64"
    "\<lambda>xy. length (fst xy) < 2 ^ 32 \<and> True"
  by (rule string_int64.pair_codec)

interpretation string_int64_vector: tl_codec "store_vector (store_pair store_str store_int64)"
    "parse_vector (parse_pair parse_str parse_int64)"
    "\<lambda>v. length v < 2 ^ 31 \<and> (\<forall>xy \<in> set v. length (fst xy) < 2 ^ 32 \<and> True)"
  by (rule string_int64_pair.vector_codec)

section \<open>Flag words\<close>

lemma bit_flags_word:
  "bit (flags_word i fs) k \<longleftrightarrow> i \<le> k \<and> k < i + length fs \<and> k < 32 \<and> fs ! (k - i)"
proof (induction fs arbitrary: i)
  case (Cons f fs)
  have "bit (if f then push_bit i 1 else 0 :: u32) k \<longleftrightarrow> f \<and> k = i \<and> k < 32"
    by (auto simp: bit_exp_iff)
  then show ?case
    by (auto simp: Cons.IH bit_or_iff nth_Cons' Suc_le_eq)
qed simp

lemma flags_word_roundtrip:
  assumes "length fs \<le> 32"
  shows "map (\<lambda>i. drop_bit i (flags_word 0 fs) AND 1 \<noteq> 0) [0..<length fs] = fs"
proof (rule nth_equalityI)
  fix k assume "k < length (map (\<lambda>i. drop_bit i (flags_word 0 fs) AND 1 \<noteq> 0) [0..<length fs])"
  then have k: "k < length fs" by simp
  have "drop_bit k (flags_word 0 fs) AND 1 \<noteq> 0 \<longleftrightarrow> odd (drop_bit k (flags_word 0 fs))"
    by (simp add: and_one_eq odd_iff_mod_2_eq_one)
  also have "\<dots> \<longleftrightarrow> fs ! k"
    using bit_flags_word [of 0 fs k] k assms by (simp add: bit_iff_odd_drop_bit)
  finally show "map (\<lambda>i. drop_bit i (flags_word 0 fs) AND 1 \<noteq> 0) [0..<length fs] ! k = fs ! k"
    using k by simp
qed simp

lemma flags_word_no_extra: "flags_word 0 fs AND NOT (push_bit (length fs) 1 - 1) = 0"
proof (rule bit_eqI)
  fix k
  have "push_bit (length fs) 1 - 1 = (mask (length fs) :: u32)"
    by (simp add: mask_eq_exp_minus_1 push_bit_eq_mult)
  then show "bit (flags_word 0 fs AND NOT (push_bit (length fs) 1 - 1)) k \<longleftrightarrow> bit (0 :: u32) k"
    by (auto simp: bit_and_iff bit_not_iff bit_mask_iff bit_flags_word)
qed

lemma safe_parse_flags:
  assumes "n < 31"
  shows "safe_fetch (parse_flags n)"
  unfolding parse_flags_def Let_def
proof (rule safe_fbind [OF safe_fetch_int])
  fix w :: u32
  let ?flags = "map (\<lambda>i. drop_bit i w AND 1 \<noteq> 0) [0..<n]"
  have "safe_fetch (fbind (set_error ''Invalid flags '') (\<lambda>_. fret ?flags))"
    by (intro safe_fbind safe_set_error safe_fret) simp
  then show "safe_fetch (\<lambda>p. if \<not> n < 31 then None
      else if w AND NOT (push_bit n 1 - 1) \<noteq> 0
      then fbind (set_error ''Invalid flags '') (\<lambda>_. fret ?flags) p else Some (?flags, p))"
    using assms safe_fret [of ?flags] by (simp add: safe_fetch_def fret_def)
qed

lemma flags_codec:
  assumes "n < 31"
  shows "tl_codec store_flags (parse_flags n) (\<lambda>fs. length fs = n)"
proof
  fix fs bs p rest
  assume fs: "length fs = n" and "run_unsafe (store_flags fs) [] = Some bs"
    and cl: "clean p" and "p_data p = bs @ rest"
  then show "parse_flags n p = Some (fs, consume (length bs) p)"
    using assms fetch_int_clean [OF cl] flags_word_no_extra [of fs] flags_word_roundtrip [of fs]
    by (auto simp: store_flags_def parse_flags_def fbind_def)
qed (use assms safe_parse_flags in \<open>auto simp: store_flags_def\<close>)

section \<open>Runs of the parser\<close>

text \<open>Any sequence of calls, as a generated \<open>fetch\<close> function makes them.\<close>

datatype fetch_call =
    FetchInt | FetchLong | FetchDouble | FetchBinary nat | FetchString | FetchStringRaw nat | FetchEnd

fun run_fetch :: "fetch_call \<Rightarrow> bytes fetch" where
  "run_fetch FetchInt = fbind fetch_int (\<lambda>w. fret (bytes_of_u32 w))"
| "run_fetch FetchLong = fbind fetch_long (\<lambda>w. fret (bytes_of_u64 w))"
| "run_fetch FetchDouble = fbind fetch_double (\<lambda>w. fret (bytes_of_u64 w))"
| "run_fetch (FetchBinary n) = fetch_binary n"
| "run_fetch FetchString = fetch_string"
| "run_fetch (FetchStringRaw n) = fetch_string_raw n"
| "run_fetch FetchEnd = fbind fetch_end (\<lambda>_. fret [])"

primrec run_fetches :: "fetch_call list \<Rightarrow> bytes list fetch" where
  "run_fetches [] = fret []"
| "run_fetches (c # cs) = fbind (run_fetch c) (\<lambda>x. fbind (run_fetches cs) (\<lambda>xs. fret (x # xs)))"

fun static_ok :: "fetch_call \<Rightarrow> bool" where
  "static_ok (FetchBinary n) = (n \<le> 64)"
| "static_ok _ = True"

lemma safe_run_fetch: "static_ok c \<Longrightarrow> safe_fetch (run_fetch c)"
  by (cases c) (simp_all add: safe_fetch_binary safe_fetch_string safe_fetch_string_raw
      safe_fbind safe_fret safe_fetch_int safe_fetch_long safe_fetch_double safe_fetch_end)

lemma safe_run_fetches: "list_all static_ok cs \<Longrightarrow> safe_fetch (run_fetches cs)"
  by (induction cs) (simp_all add: safe_fbind safe_fret safe_run_fetch)

end
