(* ===== verification/TlProps.thy ===== *)
theory TlProps
  imports TlCore
begin

text \<open>
  The properties of the TL layer: no input and no sequence of fetches makes the parser abort, the
  two storers agree, and what the \<open>store\<close> templates write the \<open>parse\<close> templates read back.
\<close>

text \<open>
  C35. For every input and every sequence of fetch calls (with compile-time
  sizes of at most 64 bytes), the parser neither reads out of bounds nor runs into a failed
  \<open>CHECK\<close>: every call returns, and the parser is left well formed.
\<close>

theorem tl_parser_never_aborts:
  assumes "length str < size_max" and "list_all static_ok cs"
  shows "\<exists>xs p. run_fetches cs (tl_parser_of str) = Some (xs, p) \<and> wf_parser p"
  using safe_fetchE [OF safe_run_fetches [OF assms(2)] wf_tl_parser_of [OF assms(1)]] by metis

theorem tl_parser_never_aborts_witness:
  "length [255, 1, 2 :: byte] < size_max \<and> list_all static_ok [FetchString, FetchInt, FetchBinary 32] \<and>
   (\<exists>xs p. run_fetches [FetchString, FetchInt, FetchBinary 32] (tl_parser_of [255, 1, 2]) = Some (xs, p)
      \<and> wf_parser p)"
  using tl_parser_never_aborts [of "[255, 1, 2]" "[FetchString, FetchInt, FetchBinary 32]"]
  by (simp add: size_max_def)

text \<open>
  C36. The length-calculating storer predicts exactly what the writing storer
  writes, for every template; so the \<open>CHECK\<close> of \<open>serialize\<close> on the length never fires, and
  \<open>serialize\<close> returns whenever the writing storer does.
\<close>

theorem storer_lengths_agree:
  "serialize cs = run_unsafe cs [] \<and>
   (run_unsafe cs [] = None \<or> run_calc cs 0 = map_option length (run_unsafe cs []))"
proof (cases "run_unsafe cs []")
  case (Some bs)
  then show ?thesis using run_calc_unsafe(2) [OF Some] serialize_run by simp
qed (simp add: serialize_run)

text \<open>
  C37. A vector of pairs of a string and a 64-bit integer that \<open>serialize\<close>
  wrote is read back unchanged by \<open>unserialize\<close>, with status \<open>OK\<close> and no data left over;
  and \<open>serialize\<close> does return for vectors below 2^31 elements with strings below 2^32 bytes.
\<close>

theorem vector_pair_roundtrip:
  assumes "length v < 2 ^ 31" and "\<forall>xy \<in> set v. length (fst xy) < 2 ^ 32"
  shows "\<exists>bs. serialize (store_vector (store_pair store_str store_int64) v) = Some bs \<and>
    (length bs < size_max \<longrightarrow>
       unserialize (parse_vector (parse_pair parse_str parse_int64)) bs = Some (v, OK))"
  using string_int64_vector.serialize_returns [of v] string_int64_vector.unserialize_serialize [of v] assms
  by auto

theorem vector_pair_roundtrip_witness:
  "\<exists>bs. serialize (store_vector (store_pair store_str store_int64) [([1, 2], 3), ([], 4)]) = Some bs \<and>
    length bs < size_max \<and>
    unserialize (parse_vector (parse_pair parse_str parse_int64)) bs = Some ([([1, 2], 3), ([], 4)], OK)"
proof -
  let ?v = "[([1, 2], 3), ([], 4)] :: (bytes \<times> u64) list"
  have "map_option length (serialize (store_vector (store_pair store_str store_int64) ?v)) = Some 28"
    by (simp add: serialize_run store_vector_def store_pair_def store_str_def store_int64_def
        unsafe_store_string_def store_string_pad_def)
  then obtain bs where bs: "serialize (store_vector (store_pair store_str store_int64) ?v) = Some bs"
    "length bs = 28" by auto
  then have "length bs < size_max" by (simp add: size_max_def)
  then show ?thesis using vector_pair_roundtrip [of ?v] bs(1) by simp
qed

lemma parse_flags_extra_bit:
  assumes "n < 31" and "k < 32" and "n \<le> k" and "bit w k"
  shows "\<exists>fs m. unserialize (parse_flags n) (bytes_of_u32 w) = Some (fs, Err m)"
proof -
  have cl: "clean (tl_parser_of (bytes_of_u32 w))"
    by (rule clean_tl_parser_of) (simp add: size_max_def)
  have "bit (w AND NOT (push_bit n 1 - 1)) k"
  proof -
    have "push_bit n 1 - 1 = (mask n :: u32)" by (simp add: mask_eq_exp_minus_1 push_bit_eq_mult)
    then show ?thesis using assms by (simp add: bit_and_iff bit_not_iff bit_mask_iff)
  qed
  then have x: "w AND NOT (push_bit n 1 - 1) \<noteq> 0" by auto
  have fi: "fetch_int (tl_parser_of (bytes_of_u32 w)) = Some (w, consume 4 (tl_parser_of (bytes_of_u32 w)))"
    using fetch_int_clean [OF cl, of w "[]"] by (simp add: tl_parser_of_def)
  have wf: "wf_parser (consume 4 (tl_parser_of (bytes_of_u32 w)))"
    using clean_consume [OF cl, of 4] by (simp add: clean_def tl_parser_of_def)
  show ?thesis
    using assms(1) x fi set_error_eq [OF wf, of "''Invalid flags ''"]
    by (simp add: unserialize_def parse_flags_def fbind_def fret_def Let_def fetch_end_def
        get_status_def failed_def tl_parser_of_def)
qed

text \<open>
  C38. Fewer than 31 flags packed by \<open>BEGIN_STORE_FLAGS\<close> ... \<open>END_STORE_FLAGS\<close>
  are read back unchanged by the matching \<open>PARSE_FLAG\<close> sequence; a stored word with a bit beyond
  the declared flags set makes the parser fail.
\<close>

theorem flags_roundtrip:
  assumes "length fs < 31"
  shows "(\<exists>bs. serialize (store_flags fs) = Some bs \<and>
        unserialize (parse_flags (length fs)) bs = Some (fs, OK)) \<and>
      (\<forall>w k. k < 32 \<and> length fs \<le> k \<and> bit w k \<longrightarrow>
        (\<exists>gs m. unserialize (parse_flags (length fs)) (bytes_of_u32 w) = Some (gs, Err m)))"
proof -
  have "serialize (store_flags fs) = Some (bytes_of_u32 (flags_word 0 fs))"
    using assms by (simp add: serialize_run store_flags_def)
  then show ?thesis
    using tl_codec.unserialize_serialize [OF flags_codec [OF assms], of fs] parse_flags_extra_bit [OF assms]
    by (auto simp: size_max_def)
qed

theorem flags_roundtrip_witness:
  "(\<exists>bs. serialize (store_flags [True, False, True]) = Some bs \<and>
      unserialize (parse_flags 3) bs = Some ([True, False, True], OK)) \<and>
   (\<exists>gs m. unserialize (parse_flags 3) (bytes_of_u32 8) = Some (gs, Err m))"
proof -
  have l: "length [True, False, True] = 3" by simp
  have b: "bit (8 :: u32) 3" by (simp add: bit_numeral_rec)
  have "(3 :: nat) < 31" by simp
  note p = flags_roundtrip [of "[True, False, True]", unfolded l, OF this]
  then have "(3 :: nat) < 32 \<and> 3 \<le> (3 :: nat) \<and> bit (8 :: u32) 3 \<longrightarrow>
      (\<exists>gs m. unserialize (parse_flags 3) (bytes_of_u32 8) = Some (gs, Err m))"
    by blast
  then show ?thesis using p b by simp
qed

end
