(* ===== verification/AuthData.thy ===== *)
theory AuthData
  imports TlCore
begin

text \<open>
  Keys, salts, message identifiers and the replay window of one MTProto session
  (\<open>td/mtproto/AuthKey.h\<close>, \<open>MessageId.h\<close>, \<open>AuthData.h\<close>, \<open>AuthData.cpp\<close>).
  Clock readings (\<open>Time::now()\<close>, \<open>Clocks::system()\<close>) and random numbers
  (\<open>Random::secure_int32()\<close>) are arguments.  \<open>None\<close> is a failed \<open>CHECK\<close> or an
  access the language leaves undefined.
\<close>

section \<open>AuthKey\<close>

record auth_key =
  ak_id :: u64
  ak_key :: bytes
  ak_auth_flag :: bool
  ak_have_header :: bool
  ak_header_expires_at :: time
  ak_expires_at :: time
  ak_created_at :: time

definition auth_key_default :: auth_key where
  "auth_key_default = \<lparr>ak_id = 0, ak_key = [], ak_auth_flag = False, ak_have_header = True,
     ak_header_expires_at = 0, ak_expires_at = 0, ak_created_at = 0\<rparr>"

definition auth_key_of :: "u64 \<Rightarrow> bytes \<Rightarrow> auth_key" where
  "auth_key_of key_id key = auth_key_default\<lparr>ak_id := key_id, ak_key := key\<rparr>"

definition break_key :: "auth_key \<Rightarrow> auth_key option" where
  "break_key k = (case ak_key k of [] \<Rightarrow> None
     | b # bs \<Rightarrow> Some (k\<lparr>ak_id := ak_id k + 1, ak_key := (b + 1) # bs\<rparr>))"

definition ak_empty :: "auth_key \<Rightarrow> bool" where
  "ak_empty k \<longleftrightarrow> ak_key k = []"

definition need_header :: "time \<Rightarrow> auth_key \<Rightarrow> bool" where
  "need_header now k \<longleftrightarrow> ak_have_header k \<or> now < ak_header_expires_at k"

definition remove_header :: "time \<Rightarrow> auth_key \<Rightarrow> auth_key" where
  "remove_header now k = (if ak_auth_flag k \<and> ak_have_header k
     then k\<lparr>ak_have_header := False, ak_header_expires_at := now + 3\<rparr> else k)"

definition restore_header :: "auth_key \<Rightarrow> auth_key" where
  "restore_header k = k\<lparr>ak_have_header := True\<rparr>"

definition ak_clear :: "auth_key \<Rightarrow> auth_key" where
  "ak_clear k = k\<lparr>ak_key := []\<rparr>"

definition AUTH_FLAG :: u32 where "AUTH_FLAG = 1"
definition HAS_CREATED_AT :: u32 where "HAS_CREATED_AT = 4"
definition HAS_EXPIRES_AT :: u32 where "HAS_EXPIRES_AT = 8"

text \<open>\<open>bits\<close> is the memory image of a \<open>double\<close>, \<open>dval\<close> its inverse reading.\<close>

definition auth_key_store :: "(time \<Rightarrow> u64) \<Rightarrow> time \<Rightarrow> time \<Rightarrow> auth_key \<Rightarrow> store_call list" where
  "auth_key_store bits now system k =
     (let has_created_at = ak_created_at k \<noteq> 0;
          has_expires_at = ak_expires_at k \<noteq> 0;
          flags = (if ak_auth_flag k then AUTH_FLAG else 0)
                  OR (if has_created_at then HAS_CREATED_AT else 0)
                  OR (if has_expires_at then HAS_EXPIRES_AT else 0)
      in [StoreBinary (bytes_of_u64 (ak_id k)), StoreBinary (bytes_of_u32 flags),
          StoreString (ak_key k)]
         @ (if has_created_at then [StoreBinary (bytes_of_u64 (bits (ak_created_at k)))] else [])
         @ (if has_expires_at
            then [StoreBinary (bytes_of_u64 (bits (max (ak_expires_at k - now) 0))),
                  StoreBinary (bytes_of_u64 (bits system))]
            else []))"

definition auth_key_parse :: "(u64 \<Rightarrow> time) \<Rightarrow> time \<Rightarrow> time \<Rightarrow> auth_key \<Rightarrow> auth_key fetch" where
  "auth_key_parse dval now system k0 =
     fbind fetch_long (\<lambda>key_id.
     fbind fetch_int (\<lambda>flags.
     fbind fetch_string (\<lambda>key.
     fbind (if flags AND HAS_CREATED_AT \<noteq> 0 then fbind fetch_double (\<lambda>d. fret (dval d))
            else fret (ak_created_at k0)) (\<lambda>created_at.
     fbind (if flags AND HAS_EXPIRES_AT \<noteq> 0
            then fbind fetch_double (\<lambda>tl. fbind fetch_double (\<lambda>old.
                   (let passed_server_time = max (system - dval old) 0;
                        time_left = max (dval tl - passed_server_time) 0
                    in fret (now + time_left))))
            else fret (ak_expires_at k0)) (\<lambda>expires_at.
     fret (k0\<lparr>ak_id := key_id, ak_auth_flag := (flags AND AUTH_FLAG \<noteq> 0), ak_key := key,
              ak_created_at := created_at, ak_expires_at := expires_at,
              ak_have_header := True\<rparr>))))))"

section \<open>Server salts\<close>

record server_salt =
  ss_salt :: u64
  ss_valid_since :: time
  ss_valid_until :: time

definition server_salt_store :: "(time \<Rightarrow> u64) \<Rightarrow> server_salt \<Rightarrow> store_call list" where
  "server_salt_store bits s = [StoreBinary (bytes_of_u64 (ss_salt s)),
     StoreBinary (bytes_of_u64 (bits (ss_valid_since s))),
     StoreBinary (bytes_of_u64 (bits (ss_valid_until s)))]"

definition server_salt_parse :: "(u64 \<Rightarrow> time) \<Rightarrow> server_salt fetch" where
  "server_salt_parse dval = fbind fetch_long (\<lambda>salt. fbind fetch_double (\<lambda>since.
     fbind fetch_double (\<lambda>until. fret \<lparr>ss_salt = salt, ss_valid_since = dval since,
       ss_valid_until = dval until\<rparr>)))"

section \<open>Duplicate checker\<close>

text \<open>\<open>std::lower_bound\<close> on a sorted range: the index of the first element not below \<open>x\<close>.\<close>

definition lower_bound :: "u64 list \<Rightarrow> u64 \<Rightarrow> nat" where
  "lower_bound xs x = length (takeWhile (\<lambda>y. y < x) xs)"

definition check_message_id_duplicates ::
  "u64 list \<Rightarrow> nat \<Rightarrow> nat \<Rightarrow> u64 \<Rightarrow> status \<times> u64 list \<times> nat" where
  "check_message_id_duplicates saved0 max_size end_pos0 message_id =
     (let (saved, end_pos) =
        (if end_pos0 = 2 * max_size
         then (take max_size (drop max_size saved0) @ drop max_size saved0, max_size)
         else (saved0, end_pos0))
      in if end_pos = 0 \<or> message_id > saved ! (end_pos - 1)
         then (OK, saved[end_pos := message_id], end_pos + 1)
         else if end_pos \<ge> max_size \<and> message_id < saved ! 0
         then (Error 2 ''Ignore very old '', saved, end_pos)
         else (let it = lower_bound (take end_pos saved) message_id in
               if saved ! it = message_id then (Error 1 ''Ignore already processed '', saved, end_pos)
               else (OK, take it saved @ message_id # take (end_pos - it) (drop it saved)
                         @ drop (end_pos + 1) saved, end_pos + 1)))"

record duplicate_checker =
  dc_saved :: "u64 list"
  dc_end_pos :: nat

definition duplicate_checker_init :: "nat \<Rightarrow> duplicate_checker" where
  "duplicate_checker_init max_size = \<lparr>dc_saved = replicate (2 * max_size) 0, dc_end_pos = 0\<rparr>"

definition dc_check :: "nat \<Rightarrow> u64 \<Rightarrow> duplicate_checker \<Rightarrow> status \<times> duplicate_checker" where
  "dc_check max_size message_id dc =
     (case check_message_id_duplicates (dc_saved dc) max_size (dc_end_pos dc) message_id of
        (st, saved, e) \<Rightarrow> (st, \<lparr>dc_saved = saved, dc_end_pos = e\<rparr>))"

section \<open>AuthData\<close>

record auth_data =
  ad_use_pfs :: bool
  ad_main_auth_key :: auth_key
  ad_tmp_auth_key :: auth_key
  ad_server_time_difference_was_updated :: bool
  ad_server_time_difference :: time
  ad_server_salt :: server_salt
  ad_last_message_id :: u64
  ad_seq_no :: u32
  ad_header :: bytes
  ad_session_id :: u64
  ad_future_salts :: "server_salt list"
  ad_duplicate_checker :: duplicate_checker
  ad_updates_duplicate_checker :: duplicate_checker
  ad_updates_duplicate_rechecker :: duplicate_checker

definition auth_data_init :: "u64 \<Rightarrow> auth_data" where
  "auth_data_init random_salt = \<lparr>ad_use_pfs = True, ad_main_auth_key = auth_key_default,
     ad_tmp_auth_key = auth_key_default, ad_server_time_difference_was_updated = False,
     ad_server_time_difference = 0,
     ad_server_salt = \<lparr>ss_salt = random_salt, ss_valid_since = -10000000000,
                       ss_valid_until = -10000000000\<rparr>,
     ad_last_message_id = 0, ad_seq_no = 0, ad_header = [], ad_session_id = 0,
     ad_future_salts = [],
     ad_duplicate_checker = duplicate_checker_init 1000,
     ad_updates_duplicate_checker = duplicate_checker_init 1000,
     ad_updates_duplicate_rechecker = duplicate_checker_init 100\<rparr>"

definition has_main_auth_key :: "auth_data \<Rightarrow> bool" where
  "has_main_auth_key ad \<longleftrightarrow> \<not> ak_empty (ad_main_auth_key ad)"

definition set_tmp_auth_key :: "auth_key \<Rightarrow> auth_data \<Rightarrow> auth_data option" where
  "set_tmp_auth_key k ad = (if ak_empty k then None else Some (ad\<lparr>ad_tmp_auth_key := k\<rparr>))"

definition was_tmp_auth_key :: "auth_data \<Rightarrow> bool" where
  "was_tmp_auth_key ad \<longleftrightarrow> ad_use_pfs ad \<and> \<not> ak_empty (ad_tmp_auth_key ad)"

definition need_tmp_auth_key :: "time \<Rightarrow> time \<Rightarrow> auth_data \<Rightarrow> bool" where
  "need_tmp_auth_key now refresh_margin ad =
     (if \<not> ad_use_pfs ad then False
      else if ak_empty (ad_tmp_auth_key ad) then True
      else if now > ak_expires_at (ad_tmp_auth_key ad) - refresh_margin then True
      else False)"

definition drop_main_auth_key :: "auth_data \<Rightarrow> auth_data" where
  "drop_main_auth_key ad = ad\<lparr>ad_main_auth_key := auth_key_default\<rparr>"

definition drop_tmp_auth_key :: "auth_data \<Rightarrow> auth_data" where
  "drop_tmp_auth_key ad = ad\<lparr>ad_tmp_auth_key := auth_key_default\<rparr>"

definition has_tmp_auth_key :: "time \<Rightarrow> auth_data \<Rightarrow> bool" where
  "has_tmp_auth_key now ad =
     (if \<not> ad_use_pfs ad then False
      else if ak_empty (ad_tmp_auth_key ad) then False
      else if now > ak_expires_at (ad_tmp_auth_key ad) then False
      else True)"

definition get_auth_key :: "auth_data \<Rightarrow> auth_key" where
  "get_auth_key ad = (if ad_use_pfs ad then ad_tmp_auth_key ad else ad_main_auth_key ad)"

definition has_auth_key :: "time \<Rightarrow> auth_data \<Rightarrow> bool" where
  "has_auth_key now ad = (if ad_use_pfs ad then has_tmp_auth_key now ad else has_main_auth_key ad)"

definition set_auth_flag :: "bool \<Rightarrow> auth_data \<Rightarrow> auth_data" where
  "set_auth_flag flag ad =
     (let ad' = ad\<lparr>ad_main_auth_key := (ad_main_auth_key ad)\<lparr>ak_auth_flag := flag\<rparr>\<rparr>
      in if \<not> flag then drop_tmp_auth_key ad' else ad')"

definition get_bind_flag :: "auth_data \<Rightarrow> bool" where
  "get_bind_flag ad \<longleftrightarrow> \<not> ad_use_pfs ad \<or> ak_auth_flag (ad_tmp_auth_key ad)"

definition on_bind :: "auth_data \<Rightarrow> auth_data option" where
  "on_bind ad = (if \<not> ad_use_pfs ad then None
     else Some (ad\<lparr>ad_tmp_auth_key := (ad_tmp_auth_key ad)\<lparr>ak_auth_flag := True\<rparr>\<rparr>))"

definition get_header :: "time \<Rightarrow> auth_data \<Rightarrow> bytes" where
  "get_header now ad =
     (if ad_use_pfs ad then (if need_header now (ad_tmp_auth_key ad) then ad_header ad else [])
      else (if need_header now (ad_main_auth_key ad) then ad_header ad else []))"

definition on_api_response :: "time \<Rightarrow> auth_data \<Rightarrow> auth_data" where
  "on_api_response now ad =
     (if ad_use_pfs ad then ad\<lparr>ad_tmp_auth_key := remove_header now (ad_tmp_auth_key ad)\<rparr>
      else ad\<lparr>ad_main_auth_key := remove_header now (ad_main_auth_key ad)\<rparr>)"

definition on_connection_not_inited :: "auth_data \<Rightarrow> auth_data" where
  "on_connection_not_inited ad =
     (if ad_use_pfs ad then ad\<lparr>ad_tmp_auth_key := restore_header (ad_tmp_auth_key ad)\<rparr>
      else ad\<lparr>ad_main_auth_key := restore_header (ad_main_auth_key ad)\<rparr>)"

definition get_session_id :: "auth_data \<Rightarrow> u64 option" where
  "get_session_id ad = (if ad_session_id ad = 0 then None else Some (ad_session_id ad))"

definition get_server_time :: "time \<Rightarrow> auth_data \<Rightarrow> time" where
  "get_server_time now ad = ad_server_time_difference ad + now"

definition update_server_time_difference :: "time \<Rightarrow> auth_data \<Rightarrow> bool \<times> auth_data" where
  "update_server_time_difference diff ad =
     (if \<not> ad_server_time_difference_was_updated ad
      then (True, ad\<lparr>ad_server_time_difference_was_updated := True, ad_server_time_difference := diff\<rparr>)
      else if ad_server_time_difference ad + 1 / 10000 < diff
      then (True, ad\<lparr>ad_server_time_difference := diff\<rparr>)
      else (False, ad))"

definition reset_server_time_difference :: "time \<Rightarrow> auth_data \<Rightarrow> auth_data" where
  "reset_server_time_difference diff ad =
     ad\<lparr>ad_server_time_difference_was_updated := False, ad_server_time_difference := diff\<rparr>"

function update_salt_loop ::
  "time \<Rightarrow> server_salt \<Rightarrow> server_salt list \<Rightarrow> server_salt \<times> server_salt list" where
  "update_salt_loop server_time salt future =
     (if future \<noteq> [] \<and> ss_valid_since (last future) < server_time
      then update_salt_loop server_time (last future) (butlast future)
      else (salt, future))"
  by pat_completeness auto
termination
  by (relation "measure (\<lambda>(t, s, f). length f)") auto

declare update_salt_loop.simps [simp del]

definition update_salt :: "time \<Rightarrow> auth_data \<Rightarrow> auth_data" where
  "update_salt now ad =
     (case update_salt_loop (get_server_time now ad) (ad_server_salt ad) (ad_future_salts ad) of
        (salt, future) \<Rightarrow> ad\<lparr>ad_server_salt := salt, ad_future_salts := future\<rparr>)"

definition get_server_salt :: "time \<Rightarrow> auth_data \<Rightarrow> u64 \<times> auth_data" where
  "get_server_salt now ad = (let ad' = update_salt now ad in (ss_salt (ad_server_salt ad'), ad'))"

definition set_server_salt :: "u64 \<Rightarrow> time \<Rightarrow> auth_data \<Rightarrow> auth_data" where
  "set_server_salt salt now ad =
     (let server_time = get_server_time now ad
      in ad\<lparr>ad_server_salt := \<lparr>ss_salt = salt, ss_valid_since = server_time,
                               ss_valid_until = server_time + 60 * 10\<rparr>,
            ad_future_salts := []\<rparr>)"

definition is_server_salt_valid :: "time \<Rightarrow> auth_data \<Rightarrow> bool" where
  "is_server_salt_valid now ad \<longleftrightarrow> ss_valid_until (ad_server_salt ad) > get_server_time now ad + 60"

definition has_salt :: "time \<Rightarrow> auth_data \<Rightarrow> bool \<times> auth_data" where
  "has_salt now ad = (let ad' = update_salt now ad in (is_server_salt_valid now ad', ad'))"

definition need_future_salts :: "time \<Rightarrow> auth_data \<Rightarrow> bool \<times> auth_data" where
  "need_future_salts now ad = (let ad' = update_salt now ad
     in (ad_future_salts ad' = [] \<or> \<not> is_server_salt_valid now ad', ad'))"

text \<open>\<open>std::sort\<close> by decreasing \<open>valid_since\<close>.\<close>

definition set_future_salts :: "server_salt list \<Rightarrow> time \<Rightarrow> auth_data \<Rightarrow> auth_data" where
  "set_future_salts salts now ad =
     (if salts = [] then ad
      else update_salt now (ad\<lparr>ad_future_salts := sort_key (\<lambda>s. - ss_valid_since s) salts\<rparr>))"

definition get_future_salts :: "auth_data \<Rightarrow> server_salt list" where
  "get_future_salts ad = ad_future_salts ad @ [ad_server_salt ad]"

definition is_ready :: "time \<Rightarrow> auth_data \<Rightarrow> bool \<times> auth_data" where
  "is_ready now ad =
     (if \<not> has_main_auth_key ad then (False, ad)
      else if ad_use_pfs ad \<and> \<not> has_tmp_auth_key now ad then (False, ad)
      else (case has_salt now ad of (b, ad') \<Rightarrow> (b, ad')))"

text \<open>
  \<open>static_cast<uint64>\<close> of a non-negative \<open>double\<close> truncates; the argument \<open>rx\<close> is the
  value of \<open>Random::secure_int32()\<close>, shifted arithmetically by the source.
\<close>

definition next_message_id :: "time \<Rightarrow> u32 \<Rightarrow> auth_data \<Rightarrow> u64 \<times> auth_data" where
  "next_message_id now rx ad =
     (let server_time = get_server_time now ad;
          t = (of_int \<lfloor>server_time * 2 ^ 32\<rfloor> :: u64);
          to_xor = rx AND (2 ^ 22 - 1);
          t = t XOR ucast to_xor;
          result = t AND (- 4);
          result = (if ad_last_message_id ad \<ge> result
                    then (let to_mul = (signed_drop_bit 22 rx AND 1023) + 1
                          in ad_last_message_id ad + 8 * ucast to_mul)
                    else result)
      in (result, ad\<lparr>ad_last_message_id := result\<rparr>))"

definition id_time :: "u64 \<Rightarrow> time" where
  "id_time message_id = of_nat (unat message_id) / 2 ^ 32"

definition is_valid_outbound_msg_id :: "u64 \<Rightarrow> time \<Rightarrow> auth_data \<Rightarrow> bool" where
  "is_valid_outbound_msg_id message_id now ad =
     (let server_time = get_server_time now ad
      in server_time - 150 < id_time message_id \<and> id_time message_id < server_time + 30)"

definition is_valid_inbound_msg_id :: "u64 \<Rightarrow> time \<Rightarrow> auth_data \<Rightarrow> bool" where
  "is_valid_inbound_msg_id message_id now ad =
     (let server_time = get_server_time now ad
      in server_time - 300 < id_time message_id \<and> id_time message_id < server_time + 30)"

text \<open>The result also carries \<open>time_difference_was_updated\<close>, an output argument the caller
  initialises with \<open>false\<close>.\<close>

definition check_packet ::
  "u64 \<Rightarrow> u64 \<Rightarrow> time \<Rightarrow> auth_data \<Rightarrow> (status \<times> bool \<times> auth_data) option" where
  "check_packet session_id message_id now ad =
     (case get_session_id ad of None \<Rightarrow> None
      | Some sid \<Rightarrow>
         if sid \<noteq> session_id then Some (Err ''Receive packet from different session '', False, ad)
         else if message_id AND 1 = 0 then Some (Err ''Receive invalid '', False, ad)
         else (case dc_check 1000 message_id (ad_duplicate_checker ad) of (st, dc) \<Rightarrow>
           (let ad1 = ad\<lparr>ad_duplicate_checker := dc\<rparr> in
            if is_error st then Some (st, False, ad1)
            else (case update_server_time_difference
                         (of_nat (unat (drop_bit 32 message_id)) - now) ad1 of
                    (upd, ad2) \<Rightarrow>
                      if ad_server_time_difference_was_updated ad2 \<and>
                         \<not> is_valid_inbound_msg_id message_id now ad2
                      then Some (Err ''Ignore too old or too new '', upd, ad2)
                      else Some (OK, upd, ad2)))))"

definition check_update :: "u64 \<Rightarrow> auth_data \<Rightarrow> status \<times> auth_data" where
  "check_update message_id ad =
     (case dc_check 1000 message_id (ad_updates_duplicate_checker ad) of
        (st, dc) \<Rightarrow> (st, ad\<lparr>ad_updates_duplicate_checker := dc\<rparr>))"

definition recheck_update :: "u64 \<Rightarrow> auth_data \<Rightarrow> status \<times> auth_data" where
  "recheck_update message_id ad =
     (case dc_check 100 message_id (ad_updates_duplicate_rechecker ad) of
        (st, dc) \<Rightarrow> (st, ad\<lparr>ad_updates_duplicate_rechecker := dc\<rparr>))"

definition next_seq_no :: "bool \<Rightarrow> auth_data \<Rightarrow> u32 \<times> auth_data" where
  "next_seq_no is_content_related ad =
     (if is_content_related then (ad_seq_no ad OR 1, ad\<lparr>ad_seq_no := ad_seq_no ad + 2\<rparr>)
      else (ad_seq_no ad, ad))"

section \<open>The duplicate checker refines a sorted window\<close>

text \<open>
  The abstract state is the sorted list of remembered identifiers.  A full window first forgets its
  lower half; then a known identifier is refused with code 1, one below a window of at least
  \<open>max_size\<close> elements with code 2, and any other identifier is inserted in order.
\<close>

definition dc_stored :: "duplicate_checker \<Rightarrow> u64 list" where
  "dc_stored dc = take (dc_end_pos dc) (dc_saved dc)"

definition dc_window :: "nat \<Rightarrow> u64 list \<Rightarrow> u64 list" where
  "dc_window max_size s = (if length s = 2 * max_size then drop max_size s else s)"

definition spec_check :: "nat \<Rightarrow> u64 \<Rightarrow> u64 list \<Rightarrow> status \<times> u64 list" where
  "spec_check max_size message_id s0 =
     (let s = dc_window max_size s0 in
      if message_id \<in> set s then (Error 1 ''Ignore already processed '', s)
      else if max_size \<le> length s \<and> (\<forall>x \<in> set s. message_id < x)
      then (Error 2 ''Ignore very old '', s)
      else (OK, insort message_id s))"

definition dc_inv :: "nat \<Rightarrow> duplicate_checker \<Rightarrow> bool" where
  "dc_inv max_size dc \<longleftrightarrow> length (dc_saved dc) = 2 * max_size \<and> dc_end_pos dc \<le> 2 * max_size
     \<and> sorted_wrt (<) (dc_stored dc)"

lemma sorted_wrt_less_insort:
  "sorted_wrt (<) xs \<Longrightarrow> x \<notin> set xs \<Longrightarrow> sorted_wrt (<) (insort (x::'a::linorder) xs)"
  by (simp add: strict_sorted_iff sorted_insort distinct_insort)

lemma insort_takeWhile:
  "sorted xs \<Longrightarrow> insort x xs = takeWhile (\<lambda>y. y < x) xs @ x # dropWhile (\<lambda>y. y < (x::'a::linorder)) xs"
proof (induction xs)
  case (Cons a xs)
  show ?case
  proof (cases "x \<le> a")
    case True
    then show ?thesis by (simp add: leD)
  next
    case False
    then show ?thesis using Cons by auto
  qed
qed simp

lemma insort_at_end: "(\<And>y. y \<in> set xs \<Longrightarrow> y < x) \<Longrightarrow> insort x xs = xs @ [x :: 'a :: linorder]"
proof (induction xs)
  case (Cons a xs)
  have "\<not> x \<le> a" using Cons.prems by (simp add: not_le)
  then show ?case using Cons by simp
qed simp

lemma sorted_less_last: "sorted_wrt (<) xs \<Longrightarrow> xs \<noteq> [] \<Longrightarrow> y \<in> set xs \<Longrightarrow> y \<le> (last xs :: 'a :: linorder)"
  by (induction xs) (auto simp: less_imp_le)

lemma sorted_less_hd: "sorted_wrt (<) xs \<Longrightarrow> y \<in> set xs \<Longrightarrow> hd xs \<le> (y :: 'a :: linorder)"
  by (cases xs) (auto simp: less_imp_le)

text \<open>The in-place array operations, on the stored prefix.\<close>

lemma copy_n_stored:
  assumes "length saved = 2 * m"
  shows "take m (take m (drop m saved) @ drop m saved) = drop m (take (2 * m) saved)"
  using assms by (simp add: take_drop)

lemma insert_stored:
  assumes "e < length saved" and "i \<le> e"
  shows "take (e + 1) (take i saved @ x # take (e - i) (drop i saved) @ drop (e + 1) saved)
    = take i (take e saved) @ x # drop i (take e saved)"
    "length (take i saved @ x # take (e - i) (drop i saved) @ drop (e + 1) saved) = length saved"
  using assms by (simp_all add: take_drop min_def Suc_diff_le)

lemma check_duplicates_shifted:
  assumes len: "length saved = 2 * m" and e: "e < 2 * m"
    and srt: "sorted_wrt (<) (take e saved)"
  shows "\<exists>saved' e'. check_message_id_duplicates saved m e x =
      (fst (spec_check m x (take e saved)), saved', e') \<and> length saved' = 2 * m \<and> e' \<le> 2 * m \<and>
      take e' saved' = snd (spec_check m x (take e saved))"
proof -
  let ?s = "take e saved"
  have ls: "length ?s = e" using len e by simp
  have w: "dc_window m ?s = ?s" using e ls by (simp add: dc_window_def)
  consider (fast) "e = 0 \<or> x > saved ! (e - 1)"
    | (old) "e \<noteq> 0" "\<not> x > saved ! (e - 1)" "e \<ge> m \<and> x < saved ! 0"
    | (search) "e \<noteq> 0" "\<not> x > saved ! (e - 1)" "\<not> (e \<ge> m \<and> x < saved ! 0)"
    by blast
  then show ?thesis
  proof cases
    case fast
    have all: "y < x" if "y \<in> set ?s" for y
    proof -
      have "e \<noteq> 0" using that by (cases e) auto
      then have "last ?s = saved ! (e - 1)" using len e by (subst last_conv_nth) (auto simp: min_def)
      then show ?thesis using sorted_less_last [OF srt _ that] that fast \<open>e \<noteq> 0\<close> by force
    qed
    then have "insort x ?s = ?s @ [x]" by (rule insort_at_end)
    moreover have "x \<notin> set ?s" using all by blast
    moreover have "\<not> (m \<le> length ?s \<and> (\<forall>y \<in> set ?s. x < y))"
      using all ls e len by (metis less_asym length_greater_0_conv last_in_set mult_0_right
          not_le less_zeroE le_0_eq)
    moreover have "take (e + 1) (saved[e := x]) = ?s @ [x]"
      using e len by (simp add: take_Suc_conv_app_nth)
    ultimately have "spec_check m x ?s = (OK, take (e + 1) (saved[e := x]))"
      using w unfolding spec_check_def Let_def by (simp only: if_False simp_thms)
    then show ?thesis
      using fast e len by (auto simp: check_message_id_duplicates_def)
  next
    case old
    have "saved ! 0 = hd ?s" using old(1) len e by (cases saved) auto
    then have lt: "\<forall>y \<in> set ?s. x < y" using sorted_less_hd [OF srt] old(3) by force
    then have "x \<notin> set ?s" by blast
    then have "spec_check m x ?s = (Error 2 ''Ignore very old '', ?s)"
      using w lt ls old(3) by (simp add: spec_check_def Let_def)
    then show ?thesis
      using old e len by (auto simp: check_message_id_duplicates_def)
  next
    case search
    let ?i = "lower_bound ?s x"
    have hd: "saved ! 0 = hd ?s" using search(1) len e by (cases saved) auto
    have lst: "last ?s = saved ! (e - 1)"
      using search(1) len e by (subst last_conv_nth) (auto simp: min_def)
    have "?s \<noteq> []" using search(1) ls by auto
    then have "last ?s \<in> set ?s" by (rule last_in_set)
    moreover have "\<not> last ?s < x" using search(2) lst by simp
    ultimately have "\<exists>y \<in> set ?s. \<not> y < x" by blast
    then have dw: "dropWhile (\<lambda>y. y < x) ?s \<noteq> []" by (auto simp: dropWhile_eq_Nil_conv)
    have i: "?i < e" using dw ls by (metis lower_bound_def length_dropWhile_le takeWhile_dropWhile_id
          length_append length_greater_0_conv less_add_same_cancel1)
    have at: "saved ! ?i = hd (dropWhile (\<lambda>y. y < x) ?s)"
    proof -
      have "?s ! ?i = hd (dropWhile (\<lambda>y. y < x) ?s)"
        using dw by (metis lower_bound_def hd_conv_nth nth_append_length takeWhile_dropWhile_id
            list.collapse)
      then show ?thesis using i by simp
    qed
    have ge: "\<not> hd (dropWhile (\<lambda>y. y < x) ?s) < x" using hd_dropWhile [OF dw] by simp
    have mem: "x \<in> set ?s \<longleftrightarrow> saved ! ?i = x"
    proof
      assume "saved ! ?i = x"
      then show "x \<in> set ?s" using at dw by (metis hd_in_set set_dropWhileD)
    next
      assume "x \<in> set ?s"
      then have "x \<in> set (dropWhile (\<lambda>y. y < x) ?s)"
        by (metis Un_iff set_append takeWhile_dropWhile_id set_takeWhileD less_irrefl)
      moreover have "sorted_wrt (<) (dropWhile (\<lambda>y. y < x) ?s)"
        using srt by (metis sorted_wrt_append takeWhile_dropWhile_id)
      ultimately have "hd (dropWhile (\<lambda>y. y < x) ?s) \<le> x" by (simp add: sorted_less_hd)
      then show "saved ! ?i = x" using at ge by simp
    qed
    have ins: "insort x ?s = take ?i ?s @ x # drop ?i ?s"
      using insort_takeWhile [OF strict_sorted_imp_sorted [OF srt], of x]
      unfolding lower_bound_def
      by (metis dropWhile_eq_drop takeWhile_eq_take)
    have notold: "\<not> (m \<le> length ?s \<and> (\<forall>y \<in> set ?s. x < y))"
      using search(1,3) hd ls by (metis hd_in_set length_0_conv)
    have sp: "spec_check m x ?s = (if saved ! ?i = x then (Error 1 ''Ignore already processed '', ?s)
        else (OK, take ?i ?s @ x # drop ?i ?s))"
      unfolding spec_check_def Let_def w mem [symmetric] using ins notold by (simp only: if_False)
    have cd: "check_message_id_duplicates saved m e x =
        (if saved ! ?i = x then (Error 1 ''Ignore already processed '', saved, e)
         else (OK, take ?i saved @ x # take (e - ?i) (drop ?i saved) @ drop (e + 1) saved, e + 1))"
      using search e by (auto simp: check_message_id_duplicates_def Let_def)
    show ?thesis
      unfolding sp cd using i e len insert_stored [of e saved ?i x] by auto
  qed
qed

lemma dc_window_idem: "length (dc_window m s) < 2 * m \<Longrightarrow> dc_window m (dc_window m s) = dc_window m s"
  unfolding dc_window_def [of m "dc_window m s"] by simp

lemma dc_check_refines:
  assumes inv: "dc_inv m dc" and m: "0 < m"
  shows "fst (dc_check m x dc) = fst (spec_check m x (dc_stored dc))"
    and "dc_stored (snd (dc_check m x dc)) = snd (spec_check m x (dc_stored dc))"
    and "dc_inv m (snd (dc_check m x dc))"
proof -
  let ?saved = "dc_saved dc" and ?e = "dc_end_pos dc"
  let ?saved' = "if ?e = 2 * m then take m (drop m ?saved) @ drop m ?saved else ?saved"
  let ?e' = "if ?e = 2 * m then m else ?e"
  have len: "length ?saved = 2 * m" and le: "?e \<le> 2 * m" and srt: "sorted_wrt (<) (take ?e ?saved)"
    using inv by (simp_all add: dc_inv_def dc_stored_def)
  have st: "take ?e' ?saved' = dc_window m (dc_stored dc)"
    using len le copy_n_stored [OF len] by (auto simp: dc_window_def dc_stored_def)
  have srt': "sorted_wrt (<) (take ?e' ?saved')"
    unfolding st dc_stored_def using srt by (simp add: dc_window_def sorted_wrt_drop)
  have len': "length ?saved' = 2 * m" using len by simp
  have e': "?e' < 2 * m" using m le by simp
  have cd: "check_message_id_duplicates ?saved m ?e x = check_message_id_duplicates ?saved' m ?e' x"
    using m by (simp add: check_message_id_duplicates_def)
  have lw: "length (dc_window m (dc_stored dc)) < 2 * m" using m len le
    by (auto simp: dc_window_def dc_stored_def)
  then have ww: "spec_check m x (take ?e' ?saved') = spec_check m x (dc_stored dc)"
    unfolding st spec_check_def by (simp only: dc_window_idem)
  from check_duplicates_shifted [OF len' e' srt', of x] obtain saved2 e2 where
    r: "check_message_id_duplicates ?saved m ?e x = (fst (spec_check m x (dc_stored dc)), saved2, e2)"
    "length saved2 = 2 * m" "e2 \<le> 2 * m" "take e2 saved2 = snd (spec_check m x (dc_stored dc))"
    unfolding cd ww by blast
  show "fst (dc_check m x dc) = fst (spec_check m x (dc_stored dc))"
    and st2: "dc_stored (snd (dc_check m x dc)) = snd (spec_check m x (dc_stored dc))"
    using r by (simp_all add: dc_check_def dc_stored_def)
  have "sorted_wrt (<) (snd (spec_check m x (dc_stored dc)))"
    using srt' unfolding st
    by (simp add: spec_check_def Let_def sorted_wrt_less_insort)
  then show "dc_inv m (snd (dc_check m x dc))"
    using r st2 by (simp add: dc_inv_def dc_check_def dc_stored_def)
qed

lemma dc_inv_init [inv_intros]: "dc_inv m (duplicate_checker_init m)"
  by (simp add: dc_inv_def duplicate_checker_init_def dc_stored_def)

section \<open>Replay filters\<close>

text \<open>
  The contract a session relies on: an identifier that was accepted is marked, a marked identifier
  is refused, and no operation unmarks it.  The client lemma is that no identifier is accepted twice.
\<close>

locale replay_filter =
  fixes chk :: "'i \<Rightarrow> 's \<Rightarrow> status \<times> 's"
    and inv :: "'s \<Rightarrow> bool"
    and marked :: "'s \<Rightarrow> 'i \<Rightarrow> bool"
  assumes inv_chk: "inv s \<Longrightarrow> inv (snd (chk x s))"
    and accept_marks: "inv s \<Longrightarrow> fst (chk x s) = OK \<Longrightarrow> marked (snd (chk x s)) x"
    and marked_refused: "inv s \<Longrightarrow> marked s x \<Longrightarrow> fst (chk x s) \<noteq> OK"
    and marked_stays: "inv s \<Longrightarrow> marked s y \<Longrightarrow> marked (snd (chk x s)) y"
begin

primrec run :: "'i list \<Rightarrow> 's \<Rightarrow> status list" where
  "run [] s = []"
| "run (x # xs) s = fst (chk x s) # run xs (snd (chk x s))"

lemma length_run: "length (run xs s) = length xs"
  by (induction xs arbitrary: s) simp_all

lemma run_marked: "inv s \<Longrightarrow> marked s x \<Longrightarrow> i < length xs \<Longrightarrow> xs ! i = x \<Longrightarrow> run xs s ! i \<noteq> OK"
proof (induction xs arbitrary: s i)
  case (Cons y ys)
  then show ?case
    by (cases i) (auto simp: marked_refused inv_chk marked_stays)
qed simp

lemma accepted_once:
  "inv s \<Longrightarrow> i < j \<Longrightarrow> j < length xs \<Longrightarrow> run xs s ! i = OK \<Longrightarrow> run xs s ! j = OK \<Longrightarrow> xs ! i \<noteq> xs ! j"
proof (induction xs arbitrary: s i j)
  case (Cons y ys)
  show ?case
  proof (cases i)
    case 0
    obtain j' where j: "j = Suc j'" using Cons.prems(2) by (cases j) auto
    have "marked (snd (chk y s)) y" using Cons.prems 0 by (simp add: accept_marks)
    then have "ys ! j' = y \<Longrightarrow> run ys (snd (chk y s)) ! j' \<noteq> OK"
      using run_marked [of "snd (chk y s)" y j' ys] Cons.prems j by (simp add: inv_chk)
    then show ?thesis using Cons.prems 0 j by auto
  next
    case (Suc i')
    obtain j' where j: "j = Suc j'" using Cons.prems(2) by (cases j) auto
    show ?thesis
      using Cons.IH [of "snd (chk y s)" i' j'] Cons.prems Suc j by (simp add: inv_chk)
  qed
qed simp

end

definition dc_marked :: "nat \<Rightarrow> duplicate_checker \<Rightarrow> u64 \<Rightarrow> bool" where
  "dc_marked m dc x \<longleftrightarrow> x \<in> set (dc_stored dc) \<or>
     (m \<le> length (dc_stored dc) \<and> (\<forall>y \<in> set (dc_stored dc). x < y))"

lemma window_marked:
  assumes "sorted_wrt (<) s" and "length s \<le> 2 * m" and "0 < m"
    and "x \<in> set s \<or> (m \<le> length s \<and> (\<forall>y \<in> set s. x < y))"
  shows "x \<in> set (dc_window m s) \<or> (m \<le> length (dc_window m s) \<and> (\<forall>y \<in> set (dc_window m s). x < y))"
proof (cases "length s = 2 * m")
  case True
  have s: "s = take m s @ drop m s" by simp
  have lt: "\<forall>a \<in> set (take m s). \<forall>b \<in> set (drop m s). a < b"
    using assms(1) by (subst (asm) s) (simp add: sorted_wrt_append del: append_take_drop_id)
  have "set s = set (take m s) \<union> set (drop m s)" by (metis s set_append)
  then show ?thesis using True assms(4) lt by (auto simp: dc_window_def)
next
  case False
  then show ?thesis using assms by (simp add: dc_window_def)
qed

lemma spec_check_marked:
  assumes "sorted_wrt (<) s" and "length s \<le> 2 * m" and "0 < m"
    and marked: "x \<in> set s \<or> (m \<le> length s \<and> (\<forall>y \<in> set s. x < y))"
  shows "fst (spec_check m x s) \<noteq> OK"
    and "x \<in> set (snd (spec_check m z s)) \<or>
      (m \<le> length (snd (spec_check m z s)) \<and> (\<forall>y \<in> set (snd (spec_check m z s)). x < y))"
proof -
  let ?w = "dc_window m s"
  have w: "x \<in> set ?w \<or> (m \<le> length ?w \<and> (\<forall>y \<in> set ?w. x < y))"
    using window_marked [OF assms] .
  then show "fst (spec_check m x s) \<noteq> OK"
    by (auto simp: spec_check_def Let_def)
  show "x \<in> set (snd (spec_check m z s)) \<or>
      (m \<le> length (snd (spec_check m z s)) \<and> (\<forall>y \<in> set (snd (spec_check m z s)). x < y))"
  proof (cases "fst (spec_check m z s) = OK")
    case True
    then have z: "z \<notin> set ?w" "\<not> (m \<le> length ?w \<and> (\<forall>y \<in> set ?w. z < y))"
      and sn: "snd (spec_check m z s) = insort z ?w"
      by (auto simp: spec_check_def Let_def split: if_splits)
    show ?thesis
    proof (cases "x \<in> set ?w")
      case True
      then show ?thesis unfolding sn by (simp add: set_insort_key)
    next
      case False
      with w have "m \<le> length ?w" and lt: "\<forall>y \<in> set ?w. x < y" by auto
      with z obtain y where "y \<in> set ?w" "\<not> z < y" by blast
      with lt have "x < z" by force
      then show ?thesis unfolding sn using lt \<open>m \<le> length ?w\<close> by (simp add: set_insort_key)
    qed
  next
    case False
    then have "snd (spec_check m z s) = ?w" by (auto simp: spec_check_def Let_def split: if_splits)
    then show ?thesis using w by simp
  qed
qed

lemma spec_check_accept: "fst (spec_check m x s) = OK \<Longrightarrow> x \<in> set (snd (spec_check m x s))"
  by (auto simp: spec_check_def Let_def set_insort_key split: if_splits)

lemma dc_replay_filter: "0 < m \<Longrightarrow> replay_filter (dc_check m) (dc_inv m) (dc_marked m)"
proof
  fix s x y
  assume m: "0 < m" and inv: "dc_inv m s"
  note ref = dc_check_refines [OF inv m]
  have s: "sorted_wrt (<) (dc_stored s)" "length (dc_stored s) \<le> 2 * m"
    using inv by (simp_all add: dc_inv_def dc_stored_def)
  show "dc_inv m (snd (dc_check m x s))" by (rule ref(3))
  show "fst (dc_check m x s) = OK \<Longrightarrow> dc_marked m (snd (dc_check m x s)) x"
    unfolding dc_marked_def ref(1,2) using spec_check_accept by blast
  show "dc_marked m s x \<Longrightarrow> fst (dc_check m x s) \<noteq> OK"
    unfolding dc_marked_def ref(1) using spec_check_marked(1) [OF s m] by blast
  show "dc_marked m s y \<Longrightarrow> dc_marked m (snd (dc_check m x s)) y"
    unfolding dc_marked_def ref(2) using spec_check_marked(2) [OF s m] by blast
qed

interpretation dc1000: replay_filter "dc_check 1000" "dc_inv 1000" "dc_marked 1000"
  by (rule dc_replay_filter) simp

interpretation dc100: replay_filter "dc_check 100" "dc_inv 100" "dc_marked 100"
  by (rule dc_replay_filter) simp

end
