(* ===== verification/AuthRun.thy ===== *)
theory AuthRun
  imports AuthData
begin

text \<open>
  Runs of \<open>AuthData\<close>: every state-changing operation of the class as one step, and the
  properties that hold for arbitrary sequences of them.
\<close>

section \<open>Operations and runs\<close>

datatype ad_op =
    SetMainAuthKey auth_key | BreakMainAuthKey | SetTmpAuthKey auth_key
  | DropMainAuthKey | DropTmpAuthKey | SetAuthFlag bool | OnBind
  | SetHeader bytes | OnApiResponse time | OnConnectionNotInited
  | SetSessionId u64 | SetUsePfs bool
  | UpdateServerTimeDifference time | ResetServerTimeDifference time
  | GetServerSalt time | SetServerSalt u64 time | HasSalt time | NeedFutureSalts time
  | SetFutureSalts "server_salt list" time | IsReady time
  | NextMessageId time u32 | CheckPacket u64 u64 time | CheckUpdate u64 | RecheckUpdate u64
  | NextSeqNo bool | ClearSeqNo

datatype ad_out = Done | OutId u64 | OutSalt u64 | OutStatus status | OutBool bool | OutSeqNo u32

fun ad_step :: "ad_op \<Rightarrow> auth_data \<Rightarrow> (ad_out \<times> auth_data) option" where
  "ad_step (SetMainAuthKey k) ad = Some (Done, ad\<lparr>ad_main_auth_key := k\<rparr>)"
| "ad_step BreakMainAuthKey ad =
     map_option (\<lambda>k. (Done, ad\<lparr>ad_main_auth_key := k\<rparr>)) (break_key (ad_main_auth_key ad))"
| "ad_step (SetTmpAuthKey k) ad = map_option (\<lambda>a. (Done, a)) (set_tmp_auth_key k ad)"
| "ad_step DropMainAuthKey ad = Some (Done, drop_main_auth_key ad)"
| "ad_step DropTmpAuthKey ad = Some (Done, drop_tmp_auth_key ad)"
| "ad_step (SetAuthFlag b) ad = Some (Done, set_auth_flag b ad)"
| "ad_step OnBind ad = map_option (\<lambda>a. (Done, a)) (on_bind ad)"
| "ad_step (SetHeader h) ad = Some (Done, ad\<lparr>ad_header := h\<rparr>)"
| "ad_step (OnApiResponse now) ad = Some (Done, on_api_response now ad)"
| "ad_step OnConnectionNotInited ad = Some (Done, on_connection_not_inited ad)"
| "ad_step (SetSessionId sid) ad = Some (Done, ad\<lparr>ad_session_id := sid\<rparr>)"
| "ad_step (SetUsePfs b) ad = Some (Done, ad\<lparr>ad_use_pfs := b\<rparr>)"
| "ad_step (UpdateServerTimeDifference d) ad =
     (case update_server_time_difference d ad of (b, a) \<Rightarrow> Some (OutBool b, a))"
| "ad_step (ResetServerTimeDifference d) ad = Some (Done, reset_server_time_difference d ad)"
| "ad_step (GetServerSalt now) ad = (case get_server_salt now ad of (x, a) \<Rightarrow> Some (OutSalt x, a))"
| "ad_step (SetServerSalt salt now) ad = Some (Done, set_server_salt salt now ad)"
| "ad_step (HasSalt now) ad = (case has_salt now ad of (b, a) \<Rightarrow> Some (OutBool b, a))"
| "ad_step (NeedFutureSalts now) ad = (case need_future_salts now ad of (b, a) \<Rightarrow> Some (OutBool b, a))"
| "ad_step (SetFutureSalts salts now) ad = Some (Done, set_future_salts salts now ad)"
| "ad_step (IsReady now) ad = (case is_ready now ad of (b, a) \<Rightarrow> Some (OutBool b, a))"
| "ad_step (NextMessageId now rx) ad = (case next_message_id now rx ad of (x, a) \<Rightarrow> Some (OutId x, a))"
| "ad_step (CheckPacket sid mid now) ad =
     (case check_packet sid mid now ad of None \<Rightarrow> None | Some (st, upd, a) \<Rightarrow> Some (OutStatus st, a))"
| "ad_step (CheckUpdate mid) ad = (case check_update mid ad of (st, a) \<Rightarrow> Some (OutStatus st, a))"
| "ad_step (RecheckUpdate mid) ad = (case recheck_update mid ad of (st, a) \<Rightarrow> Some (OutStatus st, a))"
| "ad_step (NextSeqNo b) ad = (case next_seq_no b ad of (x, a) \<Rightarrow> Some (OutSeqNo x, a))"
| "ad_step ClearSeqNo ad = Some (Done, ad\<lparr>ad_seq_no := 0\<rparr>)"

text \<open>The outputs of a sequence of calls; the run stops at a failed \<open>CHECK\<close>.\<close>

primrec ad_run :: "ad_op list \<Rightarrow> auth_data \<Rightarrow> ad_out list" where
  "ad_run [] ad = []"
| "ad_run (op # ops) ad =
     (case ad_step op ad of None \<Rightarrow> [] | Some (out, ad') \<Rightarrow> out # ad_run ops ad')"

section \<open>Frame facts\<close>

text \<open>The part of the state that the properties below speak of.\<close>

definition ad_core :: "auth_data \<Rightarrow> duplicate_checker \<times> u64 \<times> u32" where
  "ad_core ad = (ad_duplicate_checker ad, ad_last_message_id ad, ad_seq_no ad)"

lemma ad_core_upd [simp]:
  "ad_core (ad\<lparr>ad_main_auth_key := k\<rparr>) = ad_core ad"
  "ad_core (ad\<lparr>ad_tmp_auth_key := k\<rparr>) = ad_core ad"
  "ad_core (ad\<lparr>ad_header := h\<rparr>) = ad_core ad"
  "ad_core (ad\<lparr>ad_session_id := i\<rparr>) = ad_core ad"
  "ad_core (ad\<lparr>ad_use_pfs := b\<rparr>) = ad_core ad"
  "ad_core (ad\<lparr>ad_server_time_difference := d\<rparr>) = ad_core ad"
  "ad_core (ad\<lparr>ad_server_time_difference_was_updated := b\<rparr>) = ad_core ad"
  "ad_core (ad\<lparr>ad_server_salt := x\<rparr>) = ad_core ad"
  "ad_core (ad\<lparr>ad_future_salts := y\<rparr>) = ad_core ad"
  "ad_core (ad\<lparr>ad_updates_duplicate_checker := z\<rparr>) = ad_core ad"
  "ad_core (ad\<lparr>ad_updates_duplicate_rechecker := z\<rparr>) = ad_core ad"
  by (simp_all add: ad_core_def)

lemma ad_core_keys [simp]:
  "set_tmp_auth_key k ad = Some ad' \<Longrightarrow> ad_core ad' = ad_core ad"
  "ad_core (drop_main_auth_key ad) = ad_core ad"
  "ad_core (drop_tmp_auth_key ad) = ad_core ad"
  "ad_core (set_auth_flag b ad) = ad_core ad"
  "on_bind ad = Some ad' \<Longrightarrow> ad_core ad' = ad_core ad"
  "ad_core (on_api_response now ad) = ad_core ad"
  "ad_core (on_connection_not_inited ad) = ad_core ad"
  by (auto simp: set_tmp_auth_key_def drop_main_auth_key_def drop_tmp_auth_key_def
      set_auth_flag_def on_bind_def on_api_response_def on_connection_not_inited_def Let_def
      split: if_splits)

lemma ad_core_update_salt [simp]: "ad_core (update_salt now ad) = ad_core ad"
  by (simp add: update_salt_def split: prod.split)

lemma ad_core_time [simp]:
  "ad_core (snd (update_server_time_difference d ad)) = ad_core ad"
  "ad_core (reset_server_time_difference d ad) = ad_core ad"
  "ad_core (snd (get_server_salt now ad)) = ad_core ad"
  "ad_core (set_server_salt x now ad) = ad_core ad"
  "ad_core (snd (has_salt now ad)) = ad_core ad"
  "ad_core (snd (need_future_salts now ad)) = ad_core ad"
  "ad_core (set_future_salts xs now ad) = ad_core ad"
  "ad_core (snd (is_ready now ad)) = ad_core ad"
  "ad_core (snd (check_update mid ad)) = ad_core ad"
  "ad_core (snd (recheck_update mid ad)) = ad_core ad"
  by (simp_all add: update_server_time_difference_def reset_server_time_difference_def
      get_server_salt_def set_server_salt_def has_salt_def need_future_salts_def
      set_future_salts_def is_ready_def check_update_def recheck_update_def Let_def split: prod.split)

lemma check_packet_frame:
  assumes "check_packet sid mid now ad = Some (st, upd, ad')"
  shows "ad_last_message_id ad' = ad_last_message_id ad" "ad_seq_no ad' = ad_seq_no ad"
    "ad_duplicate_checker ad' = ad_duplicate_checker ad \<and> st \<noteq> OK \<or>
     ad_duplicate_checker ad' = snd (dc_check 1000 mid (ad_duplicate_checker ad)) \<and>
     (st = OK \<longrightarrow> fst (dc_check 1000 mid (ad_duplicate_checker ad)) = OK)"
  using assms
  by (auto simp: check_packet_def update_server_time_difference_def is_error_def Let_def
      split: option.splits if_splits prod.splits)


text \<open>No operation but \<open>check_packet\<close>, \<open>next_message_id\<close>, \<open>next_seq_no\<close> and
  \<open>clear_seq_no\<close> touches the core.\<close>

fun core_op :: "ad_op \<Rightarrow> bool" where
  "core_op (CheckPacket s x t) = True"
| "core_op (NextMessageId t r) = True"
| "core_op (NextSeqNo b) = True"
| "core_op ClearSeqNo = True"
| "core_op _ = False"

lemma core_opE:
  assumes "core_op op"
  obtains s x t where "op = CheckPacket s x t" | t r where "op = NextMessageId t r"
    | b where "op = NextSeqNo b" | "op = ClearSeqNo"
  using assms by (cases op) auto

lemma snd_caseD: "(case x of (a, b) \<Rightarrow> Some (f a, b)) = Some (out, c) \<Longrightarrow> c = snd x"
  by (cases x) simp

lemma ad_step_core: "ad_step op ad = Some (out, ad') \<Longrightarrow> \<not> core_op op \<Longrightarrow> ad_core ad' = ad_core ad"
  by (cases op) (auto dest!: snd_caseD)

section \<open>Message identifiers\<close>

lemma and_minus4: "4 dvd unat (x AND (- 4) :: u64)"
proof -
  have "take_bit 2 (x AND (- 4) :: u64) = 0" by simp
  then have "take_bit 2 (unat (x AND (- 4) :: u64)) = 0"
    by (metis unsigned_take_bit_eq unsigned_0)
  then show ?thesis by (simp add: take_bit_eq_mod mod_eq_0_iff_dvd)
qed

lemma to_mul_bounds:
  fixes y :: u32
  shows "1 \<le> unat ((y AND 1023) + 1)" "unat ((y AND 1023) + 1) \<le> 1024"
proof -
  have "unat (y AND 1023) \<le> 1023"
    using word_and_le1 [of y 1023] by (simp add: word_le_nat_alt)
  then have "unat ((y AND 1023) + 1) = unat (y AND 1023) + 1"
    by (subst unat_add_lem [THEN iffD1]) (simp_all)
  then show "1 \<le> unat ((y AND 1023) + 1)" "unat ((y AND 1023) + 1) \<le> 1024"
    using \<open>unat (y AND 1023) \<le> 1023\<close> by simp_all
qed

lemma next_message_id_step:
  assumes "next_message_id now rx ad = (x, ad')"
    and "unat (ad_last_message_id ad) + 8192 < 2 ^ 64" and "4 dvd unat (ad_last_message_id ad)"
  shows "ad_last_message_id ad < x" "4 dvd unat x" "ad_last_message_id ad' = x"
proof -
  let ?l = "ad_last_message_id ad"
  let ?m = "(signed_drop_bit 22 rx AND 1023) + 1 :: u32"
  let ?r = "(of_int \<lfloor>get_server_time now ad * 2 ^ 32\<rfloor> XOR ucast (rx AND (2 ^ 22 - 1))) AND (- 4) :: u64"
  have um: "unat (ucast ?m :: u64) = unat ?m"
  proof -
    have "unat ?m < 2 ^ 64" using to_mul_bounds(2) [of "signed_drop_bit 22 rx"] by simp
    then show ?thesis by (simp add: unsigned_ucast_eq take_bit_nat_eq_self)
  qed
  have u8: "unat (8 * ucast ?m :: u64) = 8 * unat ?m"
    using to_mul_bounds(2) [of "signed_drop_bit 22 rx"] um
    by (subst unat_mult_lem [THEN iffD1]) simp_all
  have ul: "unat (?l + 8 * ucast ?m) = unat ?l + 8 * unat ?m"
    using to_mul_bounds(2) [of "signed_drop_bit 22 rx"] u8 assms(2)
    by (subst unat_add_lem [THEN iffD1]) simp_all
  have x: "x = (if ?l \<ge> ?r then ?l + 8 * ucast ?m else ?r)"
    using assms(1) by (auto simp: next_message_id_def Let_def)
  show "?l < x"
    using x ul to_mul_bounds(1) [of "signed_drop_bit 22 rx"] by (auto simp: word_less_nat_alt not_le)
  show "4 dvd unat x"
    using x ul assms(3) and_minus4 by (auto intro!: dvd_add)
  show "ad_last_message_id ad' = x"
    using assms(1) by (auto simp: next_message_id_def Let_def)
qed

lemma ad_step_OutId: "ad_step op ad = Some (OutId x, ad') \<Longrightarrow> \<exists>t r. op = NextMessageId t r"
  by (cases op) (auto split: prod.splits option.splits)

lemma ad_step_last:
  assumes st: "ad_step op ad = Some (out, ad')"
    and bd: "unat (ad_last_message_id ad) + 8192 < 2 ^ 64" and d4: "4 dvd unat (ad_last_message_id ad)"
  shows "ad_last_message_id ad \<le> ad_last_message_id ad' \<and> 4 dvd unat (ad_last_message_id ad') \<and>
    (out = OutId (ad_last_message_id ad') \<and> ad_last_message_id ad < ad_last_message_id ad' \<or>
     (\<forall>x. out \<noteq> OutId x) \<and> ad_last_message_id ad' = ad_last_message_id ad)"
proof (cases "\<exists>t r. op = NextMessageId t r")
  case True
  then obtain t r x where n: "next_message_id t r ad = (x, ad')" and o: "out = OutId x"
    using st by (auto split: prod.splits)
  show ?thesis using next_message_id_step [OF n bd d4] o by (simp add: less_imp_le)
next
  case False
  have "\<forall>x. out \<noteq> OutId x" using ad_step_OutId st False by blast
  moreover have "ad_last_message_id ad' = ad_last_message_id ad"
  proof (cases "core_op op")
    case True
    then show ?thesis
      using st False by (cases op rule: core_opE) (auto simp: next_seq_no_def dest: check_packet_frame(1)
          split: option.splits if_splits)
  next
    case False
    then show ?thesis using ad_step_core [OF st] by (simp add: ad_core_def)
  qed
  ultimately show ?thesis using d4 by simp
qed

definition ids_bounded :: "ad_out list \<Rightarrow> bool" where
  "ids_bounded outs \<longleftrightarrow> list_all (\<lambda>out. case out of OutId x \<Rightarrow> unat x + 8192 < 2 ^ 64 | _ \<Rightarrow> True) outs"

lemma ids_above_last:
  assumes "ids_bounded (ad_run ops ad)" and "j < length (ad_run ops ad)" and "ad_run ops ad ! j = OutId y"
    and "unat (ad_last_message_id ad) + 8192 < 2 ^ 64" and "4 dvd unat (ad_last_message_id ad)"
  shows "ad_last_message_id ad < y \<and> 4 dvd unat y"
  using assms
proof (induction ops arbitrary: ad j)
  case (Cons op ops)
  obtain out ad' where st: "ad_step op ad = Some (out, ad')"
    using Cons.prems(2) by (cases "ad_step op ad") auto
  note l = ad_step_last [OF st Cons.prems(4,5)]
  show ?case
  proof (cases j)
    case 0
    then show ?thesis using l Cons.prems(3) st by auto
  next
    case (Suc j')
    have "unat (ad_last_message_id ad') + 8192 < 2 ^ 64"
      using l Cons.prems(1,4) st by (auto simp: ids_bounded_def)
    then have "ad_last_message_id ad' < y \<and> 4 dvd unat y"
      using Cons.IH [of ad' j'] l Cons.prems st Suc by (auto simp: ids_bounded_def)
    then show ?thesis using l by auto
  qed
qed simp

lemma ids_increasing:
  assumes "ids_bounded (ad_run ops ad)" and "i < j" and "j < length (ad_run ops ad)"
    and "ad_run ops ad ! i = OutId x" and "ad_run ops ad ! j = OutId y"
    and "unat (ad_last_message_id ad) + 8192 < 2 ^ 64" and "4 dvd unat (ad_last_message_id ad)"
  shows "x < y"
  using assms
proof (induction ops arbitrary: ad i j)
  case (Cons op ops)
  obtain out ad' where st: "ad_step op ad = Some (out, ad')"
    using Cons.prems(3) by (cases "ad_step op ad") auto
  note l = ad_step_last [OF st Cons.prems(6,7)]
  obtain j' where j: "j = Suc j'" using Cons.prems(2) by (cases j) auto
  have bd: "unat (ad_last_message_id ad') + 8192 < 2 ^ 64"
    using l Cons.prems(1,6) st by (auto simp: ids_bounded_def)
  have b: "ids_bounded (ad_run ops ad')" using Cons.prems(1) st by (auto simp: ids_bounded_def)
  show ?case
  proof (cases i)
    case 0
    then have "x = ad_last_message_id ad'" using l Cons.prems(4) st by auto
    then show ?thesis
      using ids_above_last [OF b, of j' y] bd l Cons.prems st j by auto
  next
    case (Suc i')
    then show ?thesis using Cons.IH [OF b, of i' j'] bd l Cons.prems st j by auto
  qed
qed simp

section \<open>Replay protection\<close>

lemma ad_step_dup:
  assumes "ad_step op ad = Some (out, ad')"
  shows "ad_duplicate_checker ad' = ad_duplicate_checker ad \<or>
    (\<exists>s x t. op = CheckPacket s x t \<and> ad_duplicate_checker ad' = snd (dc_check 1000 x (ad_duplicate_checker ad)))"
proof (cases "core_op op")
  case True
  then show ?thesis
    using assms by (cases op rule: core_opE) (auto simp: next_seq_no_def next_message_id_def Let_def
        dest: check_packet_frame(3) split: option.splits if_splits prod.splits)
next
  case False
  then show ?thesis using ad_step_core [OF assms] by (simp add: ad_core_def)
qed

lemma ad_step_accept:
  assumes "ad_step (CheckPacket s x t) ad = Some (OutStatus OK, ad')"
  shows "fst (dc_check 1000 x (ad_duplicate_checker ad)) = OK \<and>
    ad_duplicate_checker ad' = snd (dc_check 1000 x (ad_duplicate_checker ad))"
  using assms by (auto dest: check_packet_frame(3) split: option.splits)

lemma ad_step_dup_inv:
  assumes "ad_step op ad = Some (out, ad')" and "dc_inv 1000 (ad_duplicate_checker ad)"
  shows "dc_inv 1000 (ad_duplicate_checker ad')"
    and "dc_marked 1000 (ad_duplicate_checker ad) y \<Longrightarrow> dc_marked 1000 (ad_duplicate_checker ad') y"
  using ad_step_dup [OF assms(1)] dc1000.inv_chk [OF assms(2)] dc1000.marked_stays [OF assms(2)] assms(2)
  by auto

lemma marked_packet_refused:
  assumes "dc_inv 1000 (ad_duplicate_checker ad)" and "dc_marked 1000 (ad_duplicate_checker ad) x"
    and "j < length (ad_run ops ad)" and "ops ! j = CheckPacket s x t"
  shows "ad_run ops ad ! j \<noteq> OutStatus OK"
  using assms
proof (induction ops arbitrary: ad j)
  case (Cons op ops)
  obtain out ad' where st: "ad_step op ad = Some (out, ad')"
    using Cons.prems(3) by (cases "ad_step op ad") auto
  show ?case
  proof (cases j)
    case 0
    then have "op = CheckPacket s x t" using Cons.prems(4) by simp
    then have "out \<noteq> OutStatus OK"
      using ad_step_accept [of s x t ad ad'] st dc1000.marked_refused [OF Cons.prems(1,2)] by blast
    then show ?thesis using 0 st by simp
  next
    case (Suc j')
    then show ?thesis
      using Cons.IH [of ad' j'] ad_step_dup_inv [OF st Cons.prems(1)] Cons.prems st by simp
  qed
qed simp

lemma packet_accepted_once:
  assumes "dc_inv 1000 (ad_duplicate_checker ad)" and "i < j" and "j < length (ad_run ops ad)"
    and "ops ! i = CheckPacket s x t" and "ad_run ops ad ! i = OutStatus OK"
    and "ops ! j = CheckPacket s' x' t'" and "ad_run ops ad ! j = OutStatus OK"
  shows "x \<noteq> x'"
  using assms
proof (induction ops arbitrary: ad i j)
  case (Cons op ops)
  obtain out ad' where st: "ad_step op ad = Some (out, ad')"
    using Cons.prems(3) by (cases "ad_step op ad") auto
  obtain j' where j: "j = Suc j'" using Cons.prems(2) by (cases j) auto
  note inv' = ad_step_dup_inv(1) [OF st Cons.prems(1)]
  show ?case
  proof (cases i)
    case 0
    then have "op = CheckPacket s x t" "out = OutStatus OK" using Cons.prems(4,5) st by simp_all
    then have "dc_marked 1000 (ad_duplicate_checker ad') x"
      using ad_step_accept [of s x t ad ad'] st dc1000.accept_marks [OF Cons.prems(1), of x] by simp
    then show ?thesis
      using marked_packet_refused [OF inv', of x j' ops s' t'] Cons.prems st j by auto
  next
    case (Suc i')
    then show ?thesis using Cons.IH [OF inv', of i' j'] Cons.prems st j by simp
  qed
qed simp

section \<open>Sequence numbers\<close>

text \<open>How many content-related messages were numbered since the last \<open>clear_seq_no\<close>.\<close>

definition count_step :: "nat \<Rightarrow> ad_op \<Rightarrow> nat" where
  "count_step n op = (case op of NextSeqNo b \<Rightarrow> if b then n + 1 else n | ClearSeqNo \<Rightarrow> 0 | _ \<Rightarrow> n)"

definition content_count :: "nat \<Rightarrow> ad_op list \<Rightarrow> nat" where
  "content_count n ops = foldl count_step n ops"

lemma even_or_one: "even (w :: u32) \<Longrightarrow> w OR 1 = w + 1"
  by (simp add: or_one_eq)

lemma mod_even_succ: "(2 * n + 1) mod 2 ^ 32 = 2 * n mod 2 ^ 32 + (1::nat)"
proof -
  have "Suc (2 * n mod 2 ^ 32) \<noteq> (2::nat) ^ 32"
  proof
    assume "Suc (2 * n mod 2 ^ 32) = (2::nat) ^ 32"
    then have "odd ((2::nat) ^ 32)"
      by (metis even_Suc dvd_mod_iff dvd_triv_left dvd_power zero_less_numeral)
    then show False by simp
  qed
  then show ?thesis by (simp only: mod_Suc Suc_eq_plus1 [symmetric] if_False)
qed

lemma unat_even_or_one: "unat (of_nat (2 * n) OR 1 :: u32) = 2 * n mod 2 ^ 32 + 1"
proof -
  have "even (of_nat (2 * n) :: u32)" by simp
  then have "unat (of_nat (2 * n) OR 1 :: u32) = unat (of_nat (2 * n) + 1 :: u32)"
    by (simp only: even_or_one)
  also have "(of_nat (2 * n) + 1 :: u32) = of_nat (2 * n + 1)" by simp
  also have "unat (of_nat (2 * n + 1) :: u32) = (2 * n + 1) mod 2 ^ 32"
    by (simp only: unat_of_nat) simp
  also have "\<dots> = 2 * n mod 2 ^ 32 + 1" by (rule mod_even_succ)
  finally show ?thesis .
qed

lemma ad_step_seq:
  assumes "ad_step op ad = Some (out, ad')" and "ad_seq_no ad = of_nat (2 * n)"
  shows "ad_seq_no ad' = of_nat (2 * count_step n op)"
proof (cases "core_op op")
  case True
  then show ?thesis
    using assms by (cases op rule: core_opE) (auto simp: next_seq_no_def next_message_id_def count_step_def Let_def
        dest: check_packet_frame(2) split: option.splits if_splits prod.splits)
next
  case False
  then have "count_step n op = n" by (cases op) (auto simp: count_step_def)
  then show ?thesis using False ad_step_core [OF assms(1)] assms(2) by (simp add: ad_core_def)
qed

lemma seq_no_run:
  assumes "ad_seq_no ad = of_nat (2 * n)" and "j < length (ad_run ops ad)"
    and "ops ! j = NextSeqNo b" and "ad_run ops ad ! j = OutSeqNo x"
  shows "unat x = 2 * content_count n (take j ops) mod 2 ^ 32 + (if b then 1 else 0)"
  using assms
proof (induction ops arbitrary: ad j n)
  case (Cons op ops)
  obtain out ad' where st: "ad_step op ad = Some (out, ad')"
    using Cons.prems(2) by (cases "ad_step op ad") auto
  show ?case
  proof (cases j)
    case 0
    then have "op = NextSeqNo b" "out = OutSeqNo x" using Cons.prems(3,4) st by simp_all
    then have "x = (if b then of_nat (2 * n) OR 1 else of_nat (2 * n))"
      using st Cons.prems(1) by (auto simp: next_seq_no_def)
    moreover have "unat (of_nat (2 * n) :: u32) = 2 * n mod 2 ^ 32"
      by (simp only: unat_of_nat) simp
    ultimately show ?thesis using 0 unat_even_or_one [of n] by (simp add: content_count_def del: of_nat_mult)
  next
    case (Suc j')
    then show ?thesis
      using Cons.IH [OF ad_step_seq [OF st Cons.prems(1)], of j'] Cons.prems st
      by (simp add: content_count_def)
  qed
qed simp

end
