(* ===== verification/AuthProps.thy ===== *)
theory AuthProps
  imports AuthRun
begin

text \<open>
  The properties of the authorization state: replay protection, message identifiers, sequence
  numbers, salts, and the storage format of keys.
\<close>

section \<open>Salts\<close>

lemma update_salt_loop_eq:
  "update_salt_loop t salt future =
     (let started = (\<lambda>s. ss_valid_since s < t); rest = dropWhile started (rev future)
      in (if takeWhile started (rev future) = [] then salt else last (takeWhile started (rev future)), rev rest))"
proof (induction future arbitrary: salt rule: rev_induct)
  case Nil
  show ?case by (subst update_salt_loop.simps) simp
next
  case (snoc s future)
  show ?case
    by (subst update_salt_loop.simps) (simp add: snoc.IH Let_def)
qed

lemma sorted_takeWhile_dropWhile:
  assumes "sorted (map f xs)"
  shows "takeWhile (\<lambda>x. f x < (t::'a::linorder)) xs = filter (\<lambda>x. f x < t) xs"
    and "dropWhile (\<lambda>x. f x < t) xs = filter (\<lambda>x. \<not> f x < t) xs"
  using assms by (induction xs) (auto intro!: filter_False[symmetric] filter_True[symmetric]
      dest: le_less_trans)

lemma sorted_rev_sort_neg:
  fixes f :: "'a \<Rightarrow> time"
  shows "sorted (map f (rev (sort_key (\<lambda>s. - f s) xs)))"
proof -
  have "sorted (map (\<lambda>s. - f s) (sort_key (\<lambda>s. - f s) xs))" by simp
  then have "sorted_wrt (\<lambda>a b. f b \<le> f a) (sort_key (\<lambda>s. - f s) xs)"
    by (simp add: sorted_map)
  then show ?thesis by (simp add: sorted_map sorted_wrt_rev)
qed

lemma last_filter_max:
  assumes "sorted (map f xs)" and "filter P xs \<noteq> []"
  shows "last (filter P xs) \<in> set xs" "P (last (filter P xs))"
    "x \<in> set xs \<Longrightarrow> P x \<Longrightarrow> f x \<le> (f (last (filter P xs)) :: 'b :: linorder)"
proof -
  have "last (filter P xs) \<in> set (filter P xs)" using assms(2) by (rule last_in_set)
  then show "last (filter P xs) \<in> set xs" "P (last (filter P xs))" by auto
  assume "x \<in> set xs" "P x"
  then have x: "x \<in> set (filter P xs)" by simp
  have "sorted_wrt (\<lambda>a b. f a \<le> f b) (filter P xs)"
    using assms(1) by (simp add: sorted_map sorted_wrt_filter)
  then show "f x \<le> f (last (filter P xs))"
    using x by (cases "filter P xs" rule: rev_cases) (auto simp: sorted_wrt_append)
qed

text \<open>
  C33. After \<open>set_future_salts\<close> with a nonempty list, in whatever order,
  the kept future salts are exactly those of the list that have not started at the server's time,
  latest first; the current salt is the most recently started one of the list, or the old one when
  none has started.
\<close>

theorem set_future_salts_picks:
  assumes "salts \<noteq> []"
  shows "set (ad_future_salts (set_future_salts salts now ad)) =
      {s \<in> set salts. get_server_time now ad \<le> ss_valid_since s} \<and>
    sorted_wrt (\<lambda>a b. ss_valid_since b \<le> ss_valid_since a) (ad_future_salts (set_future_salts salts now ad)) \<and>
    (let cur = ad_server_salt (set_future_salts salts now ad);
         started = {s \<in> set salts. ss_valid_since s < get_server_time now ad}
     in if started = {} then cur = ad_server_salt ad
        else cur \<in> started \<and> (\<forall>s \<in> started. ss_valid_since s \<le> ss_valid_since cur))"
proof -
  let ?t = "get_server_time now ad"
  let ?P = "\<lambda>s. ss_valid_since s < ?t"
  let ?xs = "rev (sort_key (\<lambda>s. - ss_valid_since s) salts)"
  have so: "sorted (map ss_valid_since ?xs)" by (rule sorted_rev_sort_neg)
  have t: "get_server_time now (ad\<lparr>ad_future_salts := f\<rparr>) = ?t" for f by (simp add: get_server_time_def)
  have eq: "ad_future_salts (set_future_salts salts now ad) = rev (filter (\<lambda>s. \<not> ?P s) ?xs)"
    "ad_server_salt (set_future_salts salts now ad) =
      (if filter ?P ?xs = [] then ad_server_salt ad else last (filter ?P ?xs))"
    using assms by (simp_all add: set_future_salts_def update_salt_def t update_salt_loop_eq
        sorted_takeWhile_dropWhile [OF so] Let_def)
  have "sorted_wrt (\<lambda>a b. ss_valid_since b \<le> ss_valid_since a) (rev (filter (\<lambda>s. \<not> ?P s) ?xs))"
    using so by (simp add: sorted_map sorted_wrt_rev sorted_wrt_filter)
  moreover have "filter ?P ?xs = [] \<longleftrightarrow> {s \<in> set salts. ?P s} = {}" by (auto simp: filter_empty_conv)
  ultimately show ?thesis
    unfolding eq Let_def using last_filter_max [OF so, of ?P] by (auto simp: not_less)
qed

theorem set_future_salts_picks_witness:
  "ad_future_salts (set_future_salts [\<lparr>ss_salt = 1, ss_valid_since = 5, ss_valid_until = 9\<rparr>] 3 (auth_data_init 0))
    \<noteq> [] \<and>
   ad_server_salt (set_future_salts [\<lparr>ss_salt = 1, ss_valid_since = 5, ss_valid_until = 9\<rparr>] 6 (auth_data_init 0))
     = \<lparr>ss_salt = 1, ss_valid_since = 5, ss_valid_until = 9\<rparr>"
  using set_future_salts_picks [of "[\<lparr>ss_salt = 1, ss_valid_since = 5, ss_valid_until = 9\<rparr>]" 3 "auth_data_init 0"]
    set_future_salts_picks [of "[\<lparr>ss_salt = 1, ss_valid_since = 5, ss_valid_until = 9\<rparr>]" 6 "auth_data_init 0"]
  by (auto simp: get_server_time_def auth_data_init_def Let_def split: if_splits)

text \<open>
  A salt set by \<open>set_server_salt\<close> counts as valid for exactly the next
  540 seconds and drops all future salts; after that \<open>has_salt\<close> reports that a new one is needed.
\<close>

lemma server_salt_validity:
  assumes "now \<le> now'"
  shows "fst (has_salt now' (set_server_salt salt now ad)) \<longleftrightarrow> now' < now + 540"
  using assms
  by (simp add: has_salt_def set_server_salt_def update_salt_def update_salt_loop.simps
      is_server_salt_valid_def get_server_time_def Let_def add.commute)

section \<open>Storage of keys\<close>

lemma auth_key_flag_bits:
  "((if a then AUTH_FLAG else 0) OR (if c then HAS_CREATED_AT else 0) OR (if e then HAS_EXPIRES_AT else 0))
     AND AUTH_FLAG \<noteq> 0 \<longleftrightarrow> a"
  "((if a then AUTH_FLAG else 0) OR (if c then HAS_CREATED_AT else 0) OR (if e then HAS_EXPIRES_AT else 0))
     AND HAS_CREATED_AT \<noteq> 0 \<longleftrightarrow> c"
  "((if a then AUTH_FLAG else 0) OR (if c then HAS_CREATED_AT else 0) OR (if e then HAS_EXPIRES_AT else 0))
     AND HAS_EXPIRES_AT \<noteq> 0 \<longleftrightarrow> e"
  by (simp_all add: AUTH_FLAG_def HAS_CREATED_AT_def HAS_EXPIRES_AT_def)

text \<open>What a stored key is when it is parsed again: its remaining lifetime is reduced by the wall
  clock time that passed meanwhile, and the connection header is requested again.\<close>

definition restored_key :: "time \<Rightarrow> time \<Rightarrow> time \<Rightarrow> time \<Rightarrow> auth_key \<Rightarrow> auth_key" where
  "restored_key now system now' system' k = k\<lparr>ak_have_header := True, ak_header_expires_at := 0,
     ak_expires_at := (if ak_expires_at k = 0 then 0
       else now' + max (max (ak_expires_at k - now) 0 - max (system' - system) 0) 0)\<rparr>"

text \<open>
  C34. A key stored at (monotonic, wall) time \<open>(now, system)\<close> and parsed at
  \<open>(now', system')\<close> into a fresh \<open>AuthKey\<close> has the same identifier, key, authorization flag
  and creation time, and expires after what remained of its lifetime minus the elapsed wall time.
  The reading of the memory image of a \<open>double\<close> is only assumed to be exact on the stored times.
\<close>

theorem auth_key_roundtrip:
  assumes "length (ak_key k) < 2 ^ 32" and "serialize (auth_key_store bits now system k) = Some bs"
    and "length bs < size_max"
    and "dval (bits (ak_created_at k)) = ak_created_at k"
    and "dval (bits (max (ak_expires_at k - now) 0)) = max (ak_expires_at k - now) 0"
    and "dval (bits system) = system"
  shows "unserialize (auth_key_parse dval now' system' auth_key_default) bs =
    Some (restored_key now system now' system' k, OK)"
proof -
  let ?flags = "(if ak_auth_flag k then AUTH_FLAG else 0) OR (if ak_created_at k \<noteq> 0 then HAS_CREATED_AT else 0)
     OR (if ak_expires_at k \<noteq> 0 then HAS_EXPIRES_AT else 0)"
  let ?c = "if ak_created_at k \<noteq> 0 then bytes_of_u64 (bits (ak_created_at k)) else []"
  let ?e = "if ak_expires_at k \<noteq> 0 then bytes_of_u64 (bits (max (ak_expires_at k - now) 0)) @
      bytes_of_u64 (bits system) else []"
  obtain sb where sb: "unsafe_store_string (ak_key k) = Some sb"
    using string_codec.st_returns [OF assms(1)] by (auto simp: run_store_str)
  have bs: "bs = bytes_of_u64 (ak_id k) @ bytes_of_u32 ?flags @ sb @ ?c @ ?e"
    using assms(2) sb by (auto simp: serialize_run auth_key_store_def Let_def split: if_splits)
  let ?created = "if ?flags AND HAS_CREATED_AT \<noteq> 0 then fbind fetch_double (\<lambda>d. fret (dval d))
      else fret (ak_created_at auth_key_default)"
  have "parses (fbind fetch_double (\<lambda>d. fret (dval d))) (bytes_of_u64 (bits (ak_created_at k))) (ak_created_at k)"
    using assms(4) by (intro parses_fmap [OF parses_fetch(3)]) simp
  then have c: "parses ?created ?c (ak_created_at k)"
    by (simp only: auth_key_flag_bits) (simp add: parses_fret auth_key_default_def)
  let ?exp = "\<lambda>tl old. now' + max (dval tl - max (system' - dval old) 0) 0"
  have e: "parses (if ?flags AND HAS_EXPIRES_AT \<noteq> 0
      then fbind fetch_double (\<lambda>tl. fbind fetch_double (\<lambda>old. fret (?exp tl old)))
      else fret (ak_expires_at auth_key_default))
      ?e (ak_expires_at (restored_key now system now' system' k))"
  proof (cases "ak_expires_at k = 0")
    case False
    have "parses (fbind fetch_double (\<lambda>tl. fbind fetch_double (\<lambda>old. fret (?exp tl old))))
        (bytes_of_u64 (bits (max (ak_expires_at k - now) 0)) @ bytes_of_u64 (bits system))
        (ak_expires_at (restored_key now system now' system' k))"
      using assms(5,6) False
      by (intro parses_fbind [OF parses_fetch(3)] parses_fmap [OF parses_fetch(3)]) (simp add: restored_key_def)
    then show ?thesis using False by (simp only: auth_key_flag_bits) simp
  qed (simp only: auth_key_flag_bits, simp add: parses_fret restored_key_def auth_key_default_def)
  have "parses (auth_key_parse dval now' system' auth_key_default) bs (restored_key now system now' system' k)"
    unfolding auth_key_parse_def bs Let_def
    apply (rule parses_fbind [OF parses_fetch(2)])
    apply (rule parses_fbind [OF parses_fetch(1)])
    apply (rule parses_fbind [OF parses_fetch(4) [OF sb]])
    apply (rule parses_fbind [OF c])
    apply (rule parses_fmap [OF e])
    apply (simp only: auth_key_flag_bits)
    apply (simp add: restored_key_def auth_key_default_def)
    done
  then show ?thesis by (rule parses_unserialize [OF _ assms(3)])
qed

theorem auth_key_roundtrip_witness:
  "\<exists>bs. serialize (auth_key_store (\<lambda>x. of_int \<lfloor>x\<rfloor>) 50 1000
        ((auth_key_of 5 [1, 2, 3])\<lparr>ak_created_at := 10, ak_expires_at := 100\<rparr>)) = Some bs \<and>
    unserialize (auth_key_parse (\<lambda>w. of_nat (unat w)) 20 1010 auth_key_default) bs =
      Some ((auth_key_of 5 [1, 2, 3])\<lparr>ak_created_at := 10, ak_expires_at := 60\<rparr>, OK)"
proof -
  let ?k = "(auth_key_of 5 [1, 2, 3])\<lparr>ak_created_at := 10, ak_expires_at := 100\<rparr>"
  let ?st = "auth_key_store (\<lambda>x. of_int \<lfloor>x\<rfloor>) 50 1000 ?k"
  have "map_option length (serialize ?st) = Some 40"
    by (simp add: serialize_run auth_key_store_def unsafe_store_string_def store_string_pad_def
        auth_key_of_def auth_key_default_def)
  then obtain bs where bs: "serialize ?st = Some bs" "length bs = 40" by auto
  have "unserialize (auth_key_parse (\<lambda>w. of_nat (unat w)) 20 1010 auth_key_default) bs =
      Some (restored_key 50 1000 20 1010 ?k, OK)"
    by (rule auth_key_roundtrip [OF _ bs(1)])
      (simp_all add: bs(2) size_max_def auth_key_of_def auth_key_default_def)
  moreover have "restored_key 50 1000 20 1010 ?k =
      (auth_key_of 5 [1, 2, 3])\<lparr>ak_created_at := 10, ak_expires_at := 60\<rparr>"
    by (simp add: restored_key_def auth_key_of_def auth_key_default_def)
  ultimately show ?thesis using bs(1) by auto
qed

section \<open>Runs\<close>

text \<open>What the concrete runs below unfold.\<close>

lemmas run_eval = auth_data_init_def check_packet_def get_session_id_def dc_check_def
  check_message_id_duplicates_def duplicate_checker_init_def update_server_time_difference_def
  is_valid_inbound_msg_id_def get_server_time_def id_time_def is_error_def Let_def

lemma packet_run: "ad_run [SetSessionId 7, CheckPacket 7 1 0, CheckPacket 7 1 0, CheckPacket 7 3 0] (auth_data_init 0) =
   [Done, OutStatus OK, OutStatus (Error 1 ''Ignore already processed ''), OutStatus OK]"
  by (simp add: run_eval lower_bound_def take_Suc hd_conv_nth)

lemma id_run: "ad_run [NextMessageId 1 1, NextMessageId 1 1] (auth_data_init 0) =
    [OutId 4294967296, OutId 4294967304]"
  by (simp add: run_eval next_message_id_def)

lemma seq_run: "ad_run [NextSeqNo True, NextSeqNo False, NextSeqNo True] (auth_data_init 0) =
    [OutSeqNo 1, OutSeqNo 2, OutSeqNo 3]"
  by (simp add: run_eval next_seq_no_def)

text \<open>
  C3. Over any sequence of operations on a fresh \<open>AuthData\<close>, two packets
  that \<open>check_packet\<close> both accepted have different message identifiers: a replayed packet is
  never accepted again, however many others came between and although the window forgets.
\<close>

theorem packets_accepted_once:
  assumes "i < j" and "j < length (ad_run ops (auth_data_init r))"
    and "ops ! i = CheckPacket s x t" and "ad_run ops (auth_data_init r) ! i = OutStatus OK"
    and "ops ! j = CheckPacket s' x' t'" and "ad_run ops (auth_data_init r) ! j = OutStatus OK"
  shows "x \<noteq> x'"
  by (rule packet_accepted_once [OF _ assms]) (simp add: auth_data_init_def dc_inv_init)

theorem packets_accepted_once_witness:
  "let ops = [SetSessionId 7, CheckPacket 7 1 0, CheckPacket 7 1 0, CheckPacket 7 3 0] in
   ad_run ops (auth_data_init 0) ! 1 = OutStatus OK \<and> ad_run ops (auth_data_init 0) ! 3 = OutStatus OK \<and>
   (1 :: u64) \<noteq> 3"
  using packets_accepted_once [of 1 3 "[SetSessionId 7, CheckPacket 7 1 0, CheckPacket 7 1 0, CheckPacket 7 3 0]"
      0 7 1 0 7 3 0]
  unfolding Let_def packet_run by simp

text \<open>
  C10. Over any sequence of operations on a fresh \<open>AuthData\<close> in which no
  identifier comes within 8192 of the end of the 64-bit range, the identifiers that
  \<open>next_message_id\<close> hands out increase strictly and are divisible by 4, whatever the clock does.
\<close>

theorem message_ids_increase:
  assumes "ids_bounded (ad_run ops (auth_data_init r))"
    and "i < j" and "j < length (ad_run ops (auth_data_init r))"
    and "ad_run ops (auth_data_init r) ! i = OutId x" and "ad_run ops (auth_data_init r) ! j = OutId y"
  shows "x < y \<and> 4 dvd unat x \<and> 4 dvd unat y"
  using ids_increasing [OF assms] ids_above_last [OF assms(1) _ assms(4)]
    ids_above_last [OF assms(1) _ assms(5)] assms(2,3)
  by (simp add: auth_data_init_def)

theorem message_ids_increase_witness:
  "ids_bounded (ad_run [NextMessageId 1 1, NextMessageId 1 1] (auth_data_init 0)) \<and>
   (4294967296 :: u64) < 4294967304 \<and> 4 dvd unat (4294967296 :: u64) \<and> 4 dvd unat (4294967304 :: u64)"
proof -
  have "ids_bounded [OutId 4294967296, OutId 4294967304]" by (simp add: ids_bounded_def)
  then show ?thesis
    using message_ids_increase [of "[NextMessageId 1 1, NextMessageId 1 1]" 0 0 1] unfolding id_run by simp
qed

text \<open>
  C20. Over any sequence of operations, the sequence number of a message is
  twice the number of content-related messages numbered since the last \<open>clear_seq_no\<close>, modulo
  2^32, plus one exactly when the message is content-related itself.
\<close>

theorem seq_no_counts_content:
  assumes "j < length (ad_run ops (auth_data_init r))"
    and "ops ! j = NextSeqNo b" and "ad_run ops (auth_data_init r) ! j = OutSeqNo x"
  shows "unat x = 2 * content_count 0 (take j ops) mod 2 ^ 32 + (if b then 1 else 0)"
  by (rule seq_no_run [OF _ assms]) (simp add: auth_data_init_def)

theorem seq_no_counts_content_witness:
  "ad_run [NextSeqNo True, NextSeqNo False, NextSeqNo True] (auth_data_init 0) ! 2 = OutSeqNo 3 \<and>
   unat (3 :: u32) = 2 * content_count 0 (take 2 [NextSeqNo True, NextSeqNo False, NextSeqNo True]) mod 2 ^ 32 + 1"
  using seq_no_counts_content [of 2 "[NextSeqNo True, NextSeqNo False, NextSeqNo True]" 0 True 3]
  unfolding seq_run by simp

text \<open>
  C13. The array-based duplicate checker implements the abstract
  window: a full window forgets its lower half, a remembered identifier is refused with code 1, one
  below a window of at least \<open>max_size\<close> with code 2, any other is accepted and inserted in order.
  The invariant (sorted prefix within the array) is kept, so no array access is out of range.
\<close>

theorem duplicate_checker_refines_window:
  assumes "dc_inv m dc" and "0 < m"
  shows "fst (dc_check m x dc) = fst (spec_check m x (dc_stored dc)) \<and>
    dc_stored (snd (dc_check m x dc)) = snd (spec_check m x (dc_stored dc)) \<and>
    dc_inv m (snd (dc_check m x dc))"
  using dc_check_refines [OF assms] by simp

theorem duplicate_checker_refines_window_witness:
  "dc_inv 1 \<lparr>dc_saved = [4, 9], dc_end_pos = 2\<rparr> \<and>
   fst (dc_check 1 7 \<lparr>dc_saved = [4, 9], dc_end_pos = 2\<rparr>) = Error 2 ''Ignore very old '' \<and>
   dc_stored (snd (dc_check 1 7 \<lparr>dc_saved = [4, 9], dc_end_pos = 2\<rparr>)) = [9]"
proof -
  have i: "dc_inv 1 \<lparr>dc_saved = [4, 9], dc_end_pos = 2\<rparr>" by (simp add: dc_inv_def dc_stored_def)
  show ?thesis
    using duplicate_checker_refines_window [OF i, of 7] i
    by (simp add: spec_check_def dc_window_def dc_stored_def)
qed

end
