(* ===== verification/Crypto.thy ===== *)
theory Crypto
  imports Prelude
begin

text \<open>
  The block modes of \<open>tdutils/td/utils/crypto.cpp\<close> and the key derivation of
  \<open>td/mtproto/KDF.cpp\<close>.  OpenSSL is a parameter: the record \<open>crypto_lib\<close> holds the
  functions the sources call, and \<open>crypto_laws\<close> states the documented behaviour that the
  theorems rely on.
\<close>

section \<open>The cryptographic library\<close>

text \<open>
  \<open>lib_cbc_encrypt key iv data\<close> is \<open>EVP_EncryptUpdate\<close> of AES-256-CBC without padding after
  \<open>init_iv\<close>; \<open>lib_ecb_decrypt key data\<close> is \<open>EVP_DecryptUpdate\<close> of AES-256-ECB, and
  \<open>lib_ctr key iv pos data\<close> is \<open>EVP_EncryptUpdate\<close> of AES-256-CTR after \<open>pos\<close> bytes.
\<close>

record crypto_lib =
  lib_sha1 :: "bytes \<Rightarrow> bytes"
  lib_sha256 :: "bytes \<Rightarrow> bytes"
  lib_cbc_encrypt :: "bytes \<Rightarrow> bytes \<Rightarrow> bytes \<Rightarrow> bytes"
  lib_cbc_decrypt :: "bytes \<Rightarrow> bytes \<Rightarrow> bytes \<Rightarrow> bytes"
  lib_ecb_decrypt :: "bytes \<Rightarrow> bytes \<Rightarrow> bytes"
  lib_ctr :: "bytes \<Rightarrow> bytes \<Rightarrow> nat \<Rightarrow> bytes \<Rightarrow> bytes"

definition xorb :: "bytes \<Rightarrow> bytes \<Rightarrow> bytes" where
  "xorb a b = map2 (XOR) a b"

text \<open>
  CBC chains a block cipher \<open>enc\<close>, CBC decryption and ECB decryption undo it, CTR is an
  exclusive or with a key stream, and the digests have their fixed sizes.
\<close>

definition cipher_laws :: "crypto_lib \<Rightarrow> bytes \<Rightarrow> (bytes \<Rightarrow> bytes) \<Rightarrow> (bytes \<Rightarrow> nat \<Rightarrow> byte) \<Rightarrow> bool" where
  "cipher_laws L k enc ks \<longleftrightarrow>
     (\<forall>iv. lib_cbc_encrypt L k iv [] = []) \<and>
     (\<forall>iv b rest. length iv = 16 \<longrightarrow> length b = 16 \<longrightarrow> length rest mod 16 = 0 \<longrightarrow>
        lib_cbc_encrypt L k iv (b @ rest) = enc (xorb b iv) @ lib_cbc_encrypt L k (enc (xorb b iv)) rest) \<and>
     (\<forall>b. length b = 16 \<longrightarrow> length (enc b) = 16 \<and> lib_ecb_decrypt L k (enc b) = b \<and>
        length (lib_ecb_decrypt L k b) = 16) \<and>
     (\<forall>iv d. length iv = 16 \<longrightarrow> length d mod 16 = 0 \<longrightarrow> lib_cbc_decrypt L k iv (lib_cbc_encrypt L k iv d) = d) \<and>
     (\<forall>iv pos d. lib_ctr L k iv pos d = xorb d (map (ks iv) [pos..<pos + length d]))"

definition crypto_laws :: "crypto_lib \<Rightarrow> bool" where
  "crypto_laws L \<longleftrightarrow>
     (\<forall>x. length (lib_sha1 L x) = 20) \<and> (\<forall>x. length (lib_sha256 L x) = 32) \<and>
     (\<forall>k. length k = 32 \<longrightarrow> (\<exists>enc ks. cipher_laws L k enc ks))"

section \<open>IGE mode\<close>

text \<open>\<open>AesIgeStateImpl\<close>: the key of its \<open>Evp\<close> and the two chaining blocks.\<close>

record ige_state =
  ige_key :: bytes
  ige_encrypted_iv :: bytes
  ige_plaintext_iv :: bytes

definition ige_init :: "bytes \<Rightarrow> bytes \<Rightarrow> ige_state option" where
  "ige_init key iv = (if length key \<noteq> 32 \<or> length iv \<noteq> 32 then None
     else Some \<lparr>ige_key = key, ige_encrypted_iv = take 16 iv, ige_plaintext_iv = take 16 (drop 16 iv)\<rparr>)"

definition ige_get_iv :: "ige_state \<Rightarrow> bytes" where
  "ige_get_iv st = ige_encrypted_iv st @ ige_plaintext_iv st"

text \<open>\<open>cnt\<close> blocks of a byte array.\<close>

definition aes_blocks :: "nat \<Rightarrow> bytes \<Rightarrow> bytes list" where
  "aes_blocks cnt bs = map (\<lambda>i. take 16 (drop (16 * i) bs)) [0..<cnt]"

text \<open>One round of the loop of \<open>encrypt\<close>, on \<open>cnt\<close> blocks.\<close>

definition ige_encrypt_chunk :: "crypto_lib \<Rightarrow> nat \<Rightarrow> bytes \<Rightarrow> ige_state \<Rightarrow> bytes \<times> ige_state" where
  "ige_encrypt_chunk L cnt inp st =
     (let data = aes_blocks cnt inp;
          data_xored = map (\<lambda>i. if i = 0 then data ! 0
                                else if i = 1 then xorb (ige_plaintext_iv st) (data ! 1)
                                else xorb (data ! (i - 2)) (data ! i)) [0..<cnt];
          encrypted = aes_blocks cnt (lib_cbc_encrypt L (ige_key st) (ige_encrypted_iv st) (concat data_xored));
          out = map (\<lambda>i. if i = 0 then xorb (encrypted ! 0) (ige_plaintext_iv st)
                         else xorb (encrypted ! i) (data ! (i - 1))) [0..<cnt]
      in (concat out, st\<lparr>ige_plaintext_iv := data ! (cnt - 1), ige_encrypted_iv := out ! (cnt - 1)\<rparr>))"

definition BLOCK_COUNT :: nat where "BLOCK_COUNT = 31"

function ige_encrypt_loop :: "crypto_lib \<Rightarrow> nat \<Rightarrow> bytes \<Rightarrow> ige_state \<Rightarrow> bytes \<times> ige_state" where
  "ige_encrypt_loop L len inp st =
     (if len = 0 then ([], st)
      else (let cnt = min BLOCK_COUNT len;
                (out, st1) = ige_encrypt_chunk L cnt inp st;
                (rest, st2) = ige_encrypt_loop L (len - cnt) (drop (16 * cnt) inp) st1
            in (out @ rest, st2)))"
  by pat_completeness auto
termination
  by (relation "measure (\<lambda>(L, len, inp, st). len)") (auto simp: BLOCK_COUNT_def)

declare ige_encrypt_loop.simps [simp del]

text \<open>The number of blocks comes from the size of the output buffer: with a larger output the
  loop reads past the end of the input.\<close>

definition ige_encrypt :: "crypto_lib \<Rightarrow> bytes \<Rightarrow> nat \<Rightarrow> ige_state \<Rightarrow> (bytes \<times> ige_state) option" where
  "ige_encrypt L from to_size st =
     (if length from mod 16 \<noteq> 0 \<or> to_size < length from \<or> 16 * (to_size div 16) > length from then None
      else Some (ige_encrypt_loop L (to_size div 16) from st))"

primrec ige_decrypt_loop :: "crypto_lib \<Rightarrow> nat \<Rightarrow> bytes \<Rightarrow> ige_state \<Rightarrow> bytes \<times> ige_state" where
  "ige_decrypt_loop L 0 inp st = ([], st)"
| "ige_decrypt_loop L (Suc len) inp st =
     (let encrypted = take 16 inp;
          p = xorb (ige_plaintext_iv st) encrypted;
          p = lib_ecb_decrypt L (ige_key st) p;
          p = xorb p (ige_encrypted_iv st);
          (rest, st2) = ige_decrypt_loop L len (drop 16 inp)
                          (st\<lparr>ige_plaintext_iv := p, ige_encrypted_iv := encrypted\<rparr>)
      in (p @ rest, st2))"

definition ige_decrypt :: "crypto_lib \<Rightarrow> bytes \<Rightarrow> nat \<Rightarrow> ige_state \<Rightarrow> (bytes \<times> ige_state) option" where
  "ige_decrypt L from to_size st =
     (if length from mod 16 \<noteq> 0 \<or> to_size < length from \<or> 16 * (to_size div 16) > length from then None
      else Some (ige_decrypt_loop L (to_size div 16) from st))"

text \<open>The free functions, with the output buffer and the chaining value they leave behind.\<close>

definition aes_ige_encrypt :: "crypto_lib \<Rightarrow> bytes \<Rightarrow> bytes \<Rightarrow> bytes \<Rightarrow> nat \<Rightarrow> (bytes \<times> bytes) option" where
  "aes_ige_encrypt L aes_key aes_iv from to_size =
     (case ige_init aes_key aes_iv of None \<Rightarrow> None
      | Some st \<Rightarrow> (case ige_encrypt L from to_size st of None \<Rightarrow> None
          | Some (out, st') \<Rightarrow> Some (out, ige_get_iv st')))"

definition aes_ige_decrypt :: "crypto_lib \<Rightarrow> bytes \<Rightarrow> bytes \<Rightarrow> bytes \<Rightarrow> nat \<Rightarrow> (bytes \<times> bytes) option" where
  "aes_ige_decrypt L aes_key aes_iv from to_size =
     (case ige_init aes_key aes_iv of None \<Rightarrow> None
      | Some st \<Rightarrow> (case ige_decrypt L from to_size st of None \<Rightarrow> None
          | Some (out, st') \<Rightarrow> Some (out, ige_get_iv st')))"

section \<open>CBC and CTR modes\<close>

text \<open>
  \<open>aes_iv\<close> receives the last ciphertext block; for empty input \<open>from.size() - 16\<close> wraps and
  the \<open>CHECK\<close> of \<open>substr\<close> fails.  \<open>narrow_cast<int>\<close> fails from 2^31 bytes on.
\<close>

definition aes_cbc_encrypt :: "crypto_lib \<Rightarrow> bytes \<Rightarrow> bytes \<Rightarrow> bytes \<Rightarrow> (bytes \<times> bytes) option" where
  "aes_cbc_encrypt L aes_key aes_iv from =
     (if length from mod 16 \<noteq> 0 \<or> length from \<ge> 2 ^ 31 \<or> length from < 16 then None
      else (let out = lib_cbc_encrypt L aes_key aes_iv from in Some (out, drop (length from - 16) out)))"

definition aes_cbc_decrypt :: "crypto_lib \<Rightarrow> bytes \<Rightarrow> bytes \<Rightarrow> bytes \<Rightarrow> (bytes \<times> bytes) option" where
  "aes_cbc_decrypt L aes_key aes_iv from =
     (if length from mod 16 \<noteq> 0 \<or> length from \<ge> 2 ^ 31 \<or> length from < 16 then None
      else Some (lib_cbc_decrypt L aes_key aes_iv from, drop (length from - 16) from))"

record ctr_state =
  ctr_key :: bytes
  ctr_iv :: bytes
  ctr_pos :: nat

definition ctr_init :: "bytes \<Rightarrow> bytes \<Rightarrow> ctr_state option" where
  "ctr_init key iv = (if length key \<noteq> 32 \<or> length iv \<noteq> 16 then None
     else Some \<lparr>ctr_key = key, ctr_iv = iv, ctr_pos = 0\<rparr>)"

definition ctr_encrypt :: "crypto_lib \<Rightarrow> bytes \<Rightarrow> ctr_state \<Rightarrow> (bytes \<times> ctr_state) option" where
  "ctr_encrypt L from st = (if length from \<ge> 2 ^ 31 then None
     else Some (lib_ctr L (ctr_key st) (ctr_iv st) (ctr_pos st) from,
                st\<lparr>ctr_pos := ctr_pos st + length from\<rparr>))"

definition ctr_decrypt :: "crypto_lib \<Rightarrow> bytes \<Rightarrow> ctr_state \<Rightarrow> (bytes \<times> ctr_state) option" where
  "ctr_decrypt L from st = ctr_encrypt L from st"

section \<open>Key derivation\<close>

definition bytes_at :: "nat \<Rightarrow> nat \<Rightarrow> bytes \<Rightarrow> bytes" where
  "bytes_at pos len bs = take len (drop pos bs)"

definition KDF :: "crypto_lib \<Rightarrow> bytes \<Rightarrow> bytes \<Rightarrow> nat \<Rightarrow> (bytes \<times> bytes) option" where
  "KDF L auth_key msg_key X = (if length auth_key \<noteq> 2048 div 8 then None else
     (let sha1_a = lib_sha1 L (msg_key @ bytes_at X 32 auth_key);
          sha1_b = lib_sha1 L (bytes_at (X + 32) 16 auth_key @ msg_key @ bytes_at (X + 48) 16 auth_key);
          sha1_c = lib_sha1 L (bytes_at (64 + X) 32 auth_key @ msg_key);
          sha1_d = lib_sha1 L (msg_key @ bytes_at (96 + X) 32 auth_key);
          aes_key = bytes_at 0 8 sha1_a @ bytes_at 8 12 sha1_b @ bytes_at 4 12 sha1_c;
          aes_iv = bytes_at 8 12 sha1_a @ bytes_at 0 8 sha1_b @ bytes_at 16 4 sha1_c @ bytes_at 0 8 sha1_d
      in Some (aes_key, aes_iv)))"

definition tmp_KDF :: "crypto_lib \<Rightarrow> bytes \<Rightarrow> bytes \<Rightarrow> bytes \<times> bytes" where
  "tmp_KDF L server_nonce new_nonce =
     (let key0 = lib_sha1 L (new_nonce @ server_nonce);
          sha1_server_new = lib_sha1 L (server_nonce @ new_nonce);
          tmp_aes_key = key0 @ bytes_at 0 12 sha1_server_new;
          tmp_aes_iv = bytes_at 12 8 sha1_server_new @ lib_sha1 L (new_nonce @ new_nonce)
                       @ bytes_at 0 4 new_nonce
      in (tmp_aes_key, tmp_aes_iv))"

text \<open>\<open>Slice::substr\<close> and \<open>MutableSlice::copy_from\<close> on a prefix.\<close>

definition substr :: "bytes \<Rightarrow> nat \<Rightarrow> nat \<Rightarrow> bytes option" where
  "substr s from len = (if from \<le> length s then Some (take len (drop from s)) else None)"

definition copy_from :: "bytes \<Rightarrow> bytes \<Rightarrow> bytes" where
  "copy_from dst src = src @ drop (length src) dst"

text \<open>With fewer than 36 bytes of key at \<open>X\<close>, uninitialised bytes of the buffer would be hashed.\<close>

definition KDF2 :: "crypto_lib \<Rightarrow> bytes \<Rightarrow> bytes \<Rightarrow> nat \<Rightarrow> (bytes \<times> bytes) option" where
  "KDF2 L auth_key msg_key X =
     (case (substr auth_key X 36, substr auth_key (40 + X) 36) of
        (Some a, Some b) \<Rightarrow>
          if length a < 36 then None
          else (let buf1 = msg_key @ a;
                    sha256_a = lib_sha256 L buf1;
                    buf2 = take 36 (copy_from buf1 b) @ msg_key;
                    sha256_b = lib_sha256 L buf2;
                    aes_key = bytes_at 0 8 sha256_a @ bytes_at 8 16 sha256_b @ bytes_at 24 8 sha256_a;
                    aes_iv = bytes_at 0 8 sha256_b @ bytes_at 8 16 sha256_a @ bytes_at 24 8 sha256_b
                in Some (aes_key, aes_iv))
      | _ \<Rightarrow> None)"

section \<open>Exclusive or\<close>

lemma length_xorb [simp]: "length (xorb a b) = min (length a) (length b)"
  by (simp add: xorb_def)

lemma nth_xorb: "i < length a \<Longrightarrow> i < length b \<Longrightarrow> xorb a b ! i = a ! i XOR b ! i"
  by (simp add: xorb_def)

lemma xorb_commute: "xorb a b = xorb b a"
  by (rule nth_equalityI) (auto simp: nth_xorb xor.commute)

lemma xorb_assoc: "xorb (xorb a b) c = xorb a (xorb b c)"
  by (rule nth_equalityI) (auto simp: nth_xorb xor.assoc)

lemma xorb_cancel: "length a \<le> length b \<Longrightarrow> xorb (xorb a b) b = a"
  by (rule nth_equalityI) (auto simp: nth_xorb xor.assoc)

lemma xorb_cancel_left: "length a = length b \<Longrightarrow> xorb a (xorb a b) = b"
  by (rule nth_equalityI) (auto simp: nth_xorb xor.assoc [symmetric])

section \<open>IGE against its definition\<close>

text \<open>
  Infinite Garble Extension: each ciphertext block is the encryption of the plaintext block xored
  with the previous ciphertext block, xored with the previous plaintext block.
\<close>

fun ige_spec :: "(bytes \<Rightarrow> bytes) \<Rightarrow> bytes \<Rightarrow> bytes \<Rightarrow> bytes list \<Rightarrow> bytes list" where
  "ige_spec enc c_prev p_prev [] = []"
| "ige_spec enc c_prev p_prev (p # ps) =
     (let c = xorb (enc (xorb p c_prev)) p_prev in c # ige_spec enc c p ps)"

fun cbc_spec :: "(bytes \<Rightarrow> bytes) \<Rightarrow> bytes \<Rightarrow> bytes list \<Rightarrow> bytes list" where
  "cbc_spec enc iv [] = []"
| "cbc_spec enc iv (p # ps) = (let c = enc (xorb p iv) in c # cbc_spec enc c ps)"

definition block16 :: "bytes list \<Rightarrow> bool" where
  "block16 bs \<longleftrightarrow> list_all (\<lambda>b. length b = 16) bs"

lemma block16_simps [simp]: "block16 []" "block16 (b # bs) \<longleftrightarrow> length b = 16 \<and> block16 bs"
  by (simp_all add: block16_def)

lemma length_concat_block16: "block16 bs \<Longrightarrow> length (concat bs) = 16 * length bs"
  by (induction bs) auto

lemma aes_blocks_0 [simp]: "aes_blocks 0 bs = []"
  by (simp add: aes_blocks_def)

lemma aes_blocks_Suc: "aes_blocks (Suc n) bs = take 16 bs # aes_blocks n (drop 16 bs)"
  by (simp add: aes_blocks_def upt_conv_Cons map_Suc_upt [symmetric] add.commute del: upt_Suc)

lemma length_aes_blocks [simp]: "length (aes_blocks n bs) = n"
  by (simp add: aes_blocks_def)

lemma nth_aes_blocks: "i < n \<Longrightarrow> aes_blocks n bs ! i = take 16 (drop (16 * i) bs)"
  by (simp add: aes_blocks_def)

lemma aes_blocks_concat: "block16 bs \<Longrightarrow> aes_blocks (length bs) (concat bs @ rest) = bs"
  by (induction bs) (simp_all add: aes_blocks_Suc)

lemma concat_aes_blocks: "length bs = 16 * n \<Longrightarrow> concat (aes_blocks n bs) = bs"
  by (induction n arbitrary: bs) (simp_all add: aes_blocks_Suc)

lemma block16_aes_blocks: "16 * n \<le> length bs \<Longrightarrow> block16 (aes_blocks n bs)"
  by (induction n arbitrary: bs) (simp_all add: aes_blocks_Suc)

lemma aes_blocks_add: "aes_blocks (m + n) bs = aes_blocks m bs @ aes_blocks n (drop (16 * m) bs)"
  by (induction m arbitrary: bs) (simp_all add: aes_blocks_Suc add.commute)

text \<open>The block cipher behind the library's CBC mode.\<close>

definition aes_block :: "crypto_lib \<Rightarrow> bytes \<Rightarrow> bytes \<Rightarrow> bytes" where
  "aes_block L k b = lib_cbc_encrypt L k (replicate 16 0) b"

lemma xorb_zero: "length b = 16 \<Longrightarrow> xorb b (replicate 16 0) = b"
  by (rule nth_equalityI) (auto simp: nth_xorb)

lemma crypto_lawsD:
  assumes "crypto_laws L" and k: "length k = 32"
  shows "lib_cbc_encrypt L k iv [] = []"
    and "length iv = 16 \<Longrightarrow> length b = 16 \<Longrightarrow> length rest mod 16 = 0 \<Longrightarrow>
      lib_cbc_encrypt L k iv (b @ rest) =
        aes_block L k (xorb b iv) @ lib_cbc_encrypt L k (aes_block L k (xorb b iv)) rest"
    and "length b = 16 \<Longrightarrow> length (aes_block L k b) = 16"
    and "length b = 16 \<Longrightarrow> lib_ecb_decrypt L k (aes_block L k b) = b"
    and "length iv = 16 \<Longrightarrow> length d mod 16 = 0 \<Longrightarrow> lib_cbc_decrypt L k iv (lib_cbc_encrypt L k iv d) = d"
    and "length b = 16 \<Longrightarrow> length (lib_ecb_decrypt L k b) = 16"
proof -
  from assms obtain enc ks where "cipher_laws L k enc ks" by (auto simp: crypto_laws_def)
  then have e: "\<And>iv. lib_cbc_encrypt L k iv [] = []"
    "\<And>iv b rest. length iv = 16 \<Longrightarrow> length b = 16 \<Longrightarrow> length rest mod 16 = 0 \<Longrightarrow>
       lib_cbc_encrypt L k iv (b @ rest) = enc (xorb b iv) @ lib_cbc_encrypt L k (enc (xorb b iv)) rest"
    "\<And>b. length b = 16 \<Longrightarrow> length (enc b) = 16 \<and> lib_ecb_decrypt L k (enc b) = b \<and>
       length (lib_ecb_decrypt L k b) = 16"
    "\<And>iv d. length iv = 16 \<Longrightarrow> length d mod 16 = 0 \<Longrightarrow> lib_cbc_decrypt L k iv (lib_cbc_encrypt L k iv d) = d"
    by (simp_all add: cipher_laws_def)
  have ab: "aes_block L k b = enc b" if "length b = 16" for b
    using that e(1) e(2) [of "replicate 16 0" b "[]"] by (simp add: aes_block_def xorb_zero)
  show "lib_cbc_encrypt L k iv [] = []" by (rule e(1))
  show "length iv = 16 \<Longrightarrow> length b = 16 \<Longrightarrow> length rest mod 16 = 0 \<Longrightarrow>
      lib_cbc_encrypt L k iv (b @ rest) =
        aes_block L k (xorb b iv) @ lib_cbc_encrypt L k (aes_block L k (xorb b iv)) rest"
    using e(2) ab by simp
  show "length b = 16 \<Longrightarrow> length (aes_block L k b) = 16" using ab e(3) by simp
  show "length b = 16 \<Longrightarrow> lib_ecb_decrypt L k (aes_block L k b) = b" using ab e(3) by simp
  show "length iv = 16 \<Longrightarrow> length d mod 16 = 0 \<Longrightarrow> lib_cbc_decrypt L k iv (lib_cbc_encrypt L k iv d) = d"
    by (rule e(4))
  show "length b = 16 \<Longrightarrow> length (lib_ecb_decrypt L k b) = 16" using e(3) by simp
qed

lemma cbc_encrypt_spec:
  assumes "crypto_laws L" and "length k = 32" and "length iv = 16" and "block16 bs"
  shows "lib_cbc_encrypt L k iv (concat bs) = concat (cbc_spec (aes_block L k) iv bs)"
    and "block16 (cbc_spec (aes_block L k) iv bs)"
  using assms(3,4)
proof (induction bs arbitrary: iv)
  case (Cons b bs)
  {
    case 1
    then show ?case
      using Cons.IH(1) crypto_lawsD(2,3) [OF assms(1,2)] length_concat_block16 by (simp add: Let_def)
  next
    case 2
    then show ?case using Cons.IH(2) crypto_lawsD(3) [OF assms(1,2)] by (simp add: Let_def)
  }
qed (use crypto_lawsD(1) [OF assms(1,2)] in simp_all)

lemma length_cbc_spec [simp]: "length (cbc_spec enc iv bs) = length bs"
  by (induction bs arbitrary: iv) (simp_all add: Let_def)

lemma length_ige_spec [simp]: "length (ige_spec enc c p bs) = length bs"
  by (induction bs arbitrary: c p) (simp_all add: Let_def)

lemma block16_ige_spec:
  assumes "\<And>b. length b = 16 \<Longrightarrow> length (enc b) = 16" and "length c = 16" and "length p = 16" and "block16 bs"
  shows "block16 (ige_spec enc c p bs)"
  using assms(2-4) by (induction bs arbitrary: c p) (simp_all add: Let_def assms(1))

lemma ige_spec_append:
  "ige_spec enc c p (xs @ ys) =
     ige_spec enc c p xs @ ige_spec enc (last (c # ige_spec enc c p xs)) (last (p # xs)) ys"
  by (induction xs arbitrary: c p) (simp_all add: Let_def)

text \<open>What the chunk feeds to CBC: every block xored with the plaintext block before the previous.\<close>

fun ige_dx :: "bytes \<Rightarrow> bytes \<Rightarrow> bytes list \<Rightarrow> bytes list" where
  "ige_dx q pp [] = []"
| "ige_dx q pp (p # ps) = xorb p q # ige_dx pp p ps"

lemma length_ige_dx [simp]: "length (ige_dx q pp ps) = length ps"
  by (induction ps arbitrary: q pp) simp_all

lemma nth_ige_dx:
  "i < length ps \<Longrightarrow>
     ige_dx q pp ps ! i = xorb (ps ! i) (if i = 0 then q else if i = 1 then pp else ps ! (i - 2))"
proof (induction ps arbitrary: q pp i)
  case (Cons p ps)
  show ?case
  proof (cases i)
    case (Suc j)
    then show ?thesis using Cons.IH [of j pp p] Cons.prems by (auto simp: nth_Cons' numeral_2_eq_2)
  qed simp
qed simp

lemma ige_dx_spec:
  "map2 xorb (cbc_spec enc y (ige_dx q pp ps)) (pp # ps) = ige_spec enc (xorb y q) pp ps"
proof (induction ps arbitrary: y q pp)
  case (Cons p ps)
  have "xorb (xorb p q) y = xorb p (xorb y q)" by (metis xorb_assoc xorb_commute)
  then show ?case using Cons.IH [of _ pp p] by (simp add: Let_def)
qed simp

lemma block16_ige_dx:
  "block16 ps \<Longrightarrow> length q = 16 \<Longrightarrow> length pp = 16 \<Longrightarrow> block16 (ige_dx q pp ps)"
  by (induction ps arbitrary: q pp) simp_all

definition ige_ok :: "ige_state \<Rightarrow> bool" where
  "ige_ok st \<longleftrightarrow> length (ige_key st) = 32 \<and> length (ige_encrypted_iv st) = 16 \<and> length (ige_plaintext_iv st) = 16"

definition ige_after :: "crypto_lib \<Rightarrow> bytes list \<Rightarrow> ige_state \<Rightarrow> bytes list \<times> ige_state" where
  "ige_after L ps st =
     (let cs = ige_spec (aes_block L (ige_key st)) (ige_encrypted_iv st) (ige_plaintext_iv st) ps
      in (cs, st\<lparr>ige_plaintext_iv := last (ige_plaintext_iv st # ps),
                 ige_encrypted_iv := last (ige_encrypted_iv st # cs)\<rparr>))"

lemma ige_after_append:
  "ige_after L (xs @ ys) st =
     (case ige_after L xs st of (cs, st1) \<Rightarrow> (case ige_after L ys st1 of (ds, st2) \<Rightarrow> (cs @ ds, st2)))"
proof -
  have "last (a # b @ c) = last (last (a # b) # c)" for a :: bytes and b c by (cases c) auto
  then show ?thesis by (simp only: ige_after_def Let_def ige_spec_append) simp
qed

lemma ige_after_ok:
  assumes "crypto_laws L" and "ige_ok st" and "block16 ps"
  shows "ige_ok (snd (ige_after L ps st))" and "block16 (fst (ige_after L ps st))"
proof -
  show "block16 (fst (ige_after L ps st))"
    using assms crypto_lawsD(3) [OF assms(1)] by (auto simp: ige_after_def ige_ok_def Let_def intro: block16_ige_spec)
  moreover have "length (last (x # bs)) = 16" if "length x = 16" "block16 bs" for x :: bytes and bs
    using that by (auto simp: block16_def list_all_iff)
  ultimately show "ige_ok (snd (ige_after L ps st))"
    using assms by (simp add: ige_after_def ige_ok_def Let_def del: last.simps)
qed

lemma ige_encrypt_chunk_spec:
  assumes laws: "crypto_laws L" and ok: "ige_ok st" and n: "0 < n" and len: "16 * n \<le> length inp"
  shows "ige_encrypt_chunk L n inp st =
    (case ige_after L (aes_blocks n inp) st of (cs, st') \<Rightarrow> (concat cs, st'))"
proof -
  let ?data = "aes_blocks n inp" and ?pp = "ige_plaintext_iv st" and ?y = "ige_encrypted_iv st"
  let ?enc = "aes_block L (ige_key st)"
  let ?dx = "map (\<lambda>i. if i = 0 then ?data ! 0 else if i = 1 then xorb ?pp (?data ! 1)
      else xorb (?data ! (i - 2)) (?data ! i)) [0..<n]"
  have bd: "block16 ?data" using len by (rule block16_aes_blocks)
  have l16: "length (?data ! i) = 16" if "i < n" for i
    using bd that by (auto simp: block16_def list_all_iff)
  have dx: "?dx = ige_dx (replicate 16 0) ?pp ?data"
  proof (rule nth_equalityI)
    fix i assume i: "i < length ?dx"
    then have "?dx ! i = (if i = 0 then ?data ! 0 else if i = 1 then xorb ?pp (?data ! 1)
      else xorb (?data ! (i - 2)) (?data ! i))" by simp
    then show "?dx ! i = ige_dx (replicate 16 0) ?pp ?data ! i"
      using i nth_ige_dx [of i ?data] l16 xorb_zero xorb_commute [of ?pp] xorb_commute [of "?data ! (i - 2)"] by auto
  qed simp
  have bdx: "block16 (ige_dx (replicate 16 0) ?pp ?data)"
    using bd ok by (intro block16_ige_dx) (simp_all add: ige_ok_def)
  let ?ys = "cbc_spec ?enc ?y (ige_dx (replicate 16 0) ?pp ?data)"
  have "lib_cbc_encrypt L (ige_key st) ?y (concat ?dx) = concat ?ys" "block16 ?ys"
    unfolding dx using cbc_encrypt_spec [OF laws _ _ bdx] ok by (simp_all add: ige_ok_def)
  then have ys: "aes_blocks n (lib_cbc_encrypt L (ige_key st) ?y (concat ?dx)) = ?ys"
    using aes_blocks_concat [of ?ys "[]"] by simp
  have "map (\<lambda>i. if i = 0 then xorb (?ys ! 0) ?pp else xorb (?ys ! i) (?data ! (i - 1))) [0..<n] =
      map2 xorb ?ys (?pp # ?data)"
    by (rule nth_equalityI) (auto simp: nth_Cons')
  also have "\<dots> = ige_spec ?enc ?y ?pp ?data"
    using ige_dx_spec [of ?enc ?y "replicate 16 0" ?pp ?data] ok by (simp add: xorb_zero ige_ok_def)
  finally have out: "map (\<lambda>i. if i = 0 then xorb (?ys ! 0) ?pp else xorb (?ys ! i) (?data ! (i - 1))) [0..<n] =
    ige_spec ?enc ?y ?pp ?data" .
  have "last (x # bs) = bs ! (n - 1)" if "length bs = n" for x :: bytes and bs
    using that n by (cases bs) (auto simp: last_conv_nth)
  then show ?thesis
    unfolding ige_encrypt_chunk_def Let_def ys out ige_after_def by simp
qed

lemma ige_encrypt_loop_spec:
  assumes laws: "crypto_laws L" and "ige_ok st" and "16 * len \<le> length inp"
  shows "ige_encrypt_loop L len inp st =
    (case ige_after L (aes_blocks len inp) st of (cs, st') \<Rightarrow> (concat cs, st'))"
  using assms(2,3)
proof (induction len arbitrary: inp st rule: less_induct)
  case (less len)
  show ?case
  proof (cases "len = 0")
    case True
    then show ?thesis by (subst ige_encrypt_loop.simps) (simp add: ige_after_def)
  next
    case False
    let ?n = "min BLOCK_COUNT len"
    have n: "0 < ?n" "?n \<le> len" using False by (simp_all add: BLOCK_COUNT_def)
    have c: "ige_encrypt_chunk L ?n inp st =
        (case ige_after L (aes_blocks ?n inp) st of (cs, st') \<Rightarrow> (concat cs, st'))"
      using n less.prems by (intro ige_encrypt_chunk_spec [OF laws]) auto
    obtain cs st1 where a1: "ige_after L (aes_blocks ?n inp) st = (cs, st1)" by force
    have ok1: "ige_ok st1"
      using ige_after_ok(1) [OF laws less.prems(1) block16_aes_blocks, of ?n inp] n less.prems(2) a1 by simp
    have ih: "ige_encrypt_loop L (len - ?n) (drop (16 * ?n) inp) st1 =
        (case ige_after L (aes_blocks (len - ?n) (drop (16 * ?n) inp)) st1 of (ds, st2) \<Rightarrow> (concat ds, st2))"
      using n less.prems(2) by (intro less.IH ok1) auto
    have ab: "aes_blocks len inp = aes_blocks ?n inp @ aes_blocks (len - ?n) (drop (16 * ?n) inp)"
      using aes_blocks_add [of ?n "len - ?n" inp] n by simp
    show ?thesis
      using False c a1 ih
      by (subst ige_encrypt_loop.simps) (simp add: ab ige_after_append Let_def split: prod.splits)
  qed
qed

lemma ige_decrypt_loop_spec:
  assumes laws: "crypto_laws L" and "ige_ok st" and "block16 ps"
  shows "ige_decrypt_loop L (length ps) (concat (fst (ige_after L ps st)) @ rest) st =
    (concat ps, snd (ige_after L ps st))"
  using assms(2,3)
proof (induction ps arbitrary: st)
  case (Cons p ps)
  let ?c = "xorb (aes_block L (ige_key st) (xorb p (ige_encrypted_iv st))) (ige_plaintext_iv st)"
  let ?st1 = "st\<lparr>ige_plaintext_iv := p, ige_encrypted_iv := ?c\<rparr>"
  have l: "length (aes_block L (ige_key st) (xorb p (ige_encrypted_iv st))) = 16"
    using Cons.prems crypto_lawsD(3) [OF laws] by (simp add: ige_ok_def)
  have a: "ige_after L (p # ps) st = (?c # fst (ige_after L ps ?st1), snd (ige_after L ps ?st1))"
    by (simp add: ige_after_def Let_def)
  have "xorb (ige_plaintext_iv st) ?c = aes_block L (ige_key st) (xorb p (ige_encrypted_iv st))"
    using l Cons.prems xorb_cancel [of "aes_block L (ige_key st) (xorb p (ige_encrypted_iv st))" "ige_plaintext_iv st"]
    by (simp add: ige_ok_def xorb_commute [of "ige_plaintext_iv st"])
  then have p: "xorb (lib_ecb_decrypt L (ige_key st) (xorb (ige_plaintext_iv st) ?c)) (ige_encrypted_iv st) = p"
    using Cons.prems crypto_lawsD(4) [OF laws] by (simp add: ige_ok_def xorb_cancel)
  have lc: "length ?c = 16" using l Cons.prems by (simp add: ige_ok_def)
  then have ok1: "ige_ok ?st1" using Cons.prems by (simp add: ige_ok_def)
  have t: "take 16 (concat (?c # bs) @ rest) = ?c" "drop 16 (concat (?c # bs) @ rest) = concat bs @ rest" for bs
    using lc by simp_all
  show ?case
    using Cons.IH [OF ok1] Cons.prems(2) unfolding a
    by (simp only: length_Cons ige_decrypt_loop.simps fst_conv snd_conv t Let_def p) simp
qed (simp add: ige_after_def)

lemma ige_decrypt_loop_length:
  assumes laws: "crypto_laws L" and "ige_ok st" and "16 * n \<le> length inp"
  shows "length (fst (ige_decrypt_loop L n inp st)) = 16 * n"
  using assms(2,3)
proof (induction n arbitrary: inp st)
  case (Suc n)
  let ?p = "xorb (lib_ecb_decrypt L (ige_key st) (xorb (ige_plaintext_iv st) (take 16 inp))) (ige_encrypted_iv st)"
  have "length ?p = 16" using Suc.prems crypto_lawsD(6) [OF laws] by (simp add: ige_ok_def)
  then show ?case
    using Suc.IH [of "st\<lparr>ige_plaintext_iv := ?p, ige_encrypted_iv := take 16 inp\<rparr>" "drop 16 inp"] Suc.prems
    by (simp add: ige_ok_def Let_def case_prod_beta)
qed simp

lemma ige_init_ok: "ige_init key iv = Some st \<Longrightarrow> ige_ok st \<and> ige_key st = key \<and>
    ige_encrypted_iv st = take 16 iv \<and> ige_plaintext_iv st = drop 16 iv"
  by (auto simp: ige_init_def ige_ok_def split: if_splits)

lemma aes_ige_encrypt_eq:
  assumes "crypto_laws L" and "length key = 32" and "length iv = 32" and "length from = 16 * n"
  shows "\<exists>iv'. aes_ige_encrypt L key iv from (length from) =
    Some (concat (ige_spec (aes_block L key) (take 16 iv) (drop 16 iv) (aes_blocks n from)), iv')"
proof -
  obtain st where st: "ige_init key iv = Some st" using assms by (simp add: ige_init_def)
  show ?thesis
    using ige_encrypt_loop_spec [OF assms(1), of st n "from"] ige_init_ok [OF st] assms(4) st
    by (simp add: aes_ige_encrypt_def ige_encrypt_def ige_after_def Let_def)
qed

lemma aes_ige_decrypt_encrypt:
  assumes "crypto_laws L" and "length key = 32" and "length iv = 32" and "length from mod 16 = 0"
    and "aes_ige_encrypt L key iv from (length from) = Some (out, iv')"
  shows "length out = length from" and "aes_ige_decrypt L key iv out (length out) = Some (from, iv')"
proof -
  obtain st where st: "ige_init key iv = Some st" using assms by (simp add: ige_init_def)
  define n where "n = length from div 16"
  have n: "length from = 16 * n" using assms(4) by (auto simp: n_def)
  note ok = ige_init_ok [OF st]
  have b: "block16 (aes_blocks n from)" by (rule block16_aes_blocks) (simp add: n)
  obtain cs st' where a: "ige_after L (aes_blocks n from) st = (cs, st')" by force
  have out: "out = concat cs" "iv' = ige_get_iv st'"
    using assms(5) ige_encrypt_loop_spec [OF assms(1), of st n "from"] ok n st a
    by (auto simp: aes_ige_encrypt_def ige_encrypt_def)
  have cs: "block16 cs" "length cs = n"
    using ige_after_ok(2) [OF assms(1) _ b, of st] ok a by (auto simp: ige_after_def Let_def)
  then show l: "length out = length from" using out n by (simp add: length_concat_block16)
  have "ige_decrypt_loop L n out st = (from, st')"
    using ige_decrypt_loop_spec [OF assms(1) _ b, of st "[]"] ok a out concat_aes_blocks [OF n] by simp
  then show "aes_ige_decrypt L key iv out (length out) = Some (from, iv')"
    using st l n out by (simp add: aes_ige_decrypt_def ige_decrypt_def)
qed

lemma aes_ige_decrypt_length:
  assumes "crypto_laws L" and "aes_ige_decrypt L key iv inp (length inp) = Some (out, iv')"
  shows "length out = length inp"
proof -
  obtain st where st: "ige_init key iv = Some st" using assms(2) by (auto simp: aes_ige_decrypt_def split: option.splits)
  have m: "length inp mod 16 = 0" using assms(2) st by (auto simp: aes_ige_decrypt_def ige_decrypt_def split: if_splits)
  then have "fst (ige_decrypt_loop L (length inp div 16) inp st) = out"
    using assms(2) st by (auto simp: aes_ige_decrypt_def ige_decrypt_def split: prod.splits)
  then show ?thesis
    using ige_decrypt_loop_length [OF assms(1), of st "length inp div 16" inp] ige_init_ok [OF st] m by auto
qed

section \<open>CTR streams and key lengths\<close>

lemma ctr_law:
  assumes "crypto_laws L" and "length k = 32"
  obtains ks where "\<And>iv pos d. lib_ctr L k iv pos d = xorb d (map (ks iv) [pos..<pos + length d])"
  using assms by (auto simp: crypto_laws_def cipher_laws_def)

lemma xorb_append: "length a = length c \<Longrightarrow> xorb (a @ b) (c @ d) = xorb a c @ xorb b d"
  by (simp add: xorb_def)

lemma ctr_append:
  assumes "crypto_laws L" and "length k = 32"
  shows "lib_ctr L k iv pos (a @ b) = lib_ctr L k iv pos a @ lib_ctr L k iv (pos + length a) b"
proof -
  obtain ks where ks: "\<And>iv pos d. lib_ctr L k iv pos d = xorb d (map (ks iv) [pos..<pos + length d])"
    using ctr_law [OF assms] by blast
  have "[pos..<pos + length (a @ b)] = [pos..<pos + length a] @ [pos + length a..<pos + length a + length b]"
    using upt_add_eq_append [of pos "pos + length a" "length b"] by (simp add: add.assoc)
  then show ?thesis unfolding ks by (simp add: xorb_append)
qed

lemma ctr_self_inverse:
  assumes "crypto_laws L" and "length k = 32"
  shows "lib_ctr L k iv pos (lib_ctr L k iv pos d) = d" and "length (lib_ctr L k iv pos d) = length d"
proof -
  obtain ks where ks: "\<And>iv pos d. lib_ctr L k iv pos d = xorb d (map (ks iv) [pos..<pos + length d])"
    using ctr_law [OF assms] by blast
  show "length (lib_ctr L k iv pos d) = length d" unfolding ks by simp
  show "lib_ctr L k iv pos (lib_ctr L k iv pos d) = d" unfolding ks by (simp add: xorb_cancel)
qed

lemma KDF_returns:
  assumes "crypto_laws L" and "length auth_key = 256" and "X \<le> 128"
  shows "\<exists>k iv. KDF L auth_key msg_key X = Some (k, iv) \<and> length k = 32 \<and> length iv = 32"
  using assms by (simp add: KDF_def Let_def bytes_at_def crypto_laws_def)

lemma KDF2_returns:
  assumes "crypto_laws L" and "length auth_key = 256" and "X \<le> 128"
  shows "\<exists>k iv. KDF2 L auth_key msg_key X = Some (k, iv) \<and> length k = 32 \<and> length iv = 32"
  using assms by (simp add: KDF2_def substr_def Let_def bytes_at_def crypto_laws_def)

lemma tmp_KDF_lengths:
  assumes "crypto_laws L" and "length new_nonce = 32"
  shows "length (fst (tmp_KDF L server_nonce new_nonce)) = 32" "length (snd (tmp_KDF L server_nonce new_nonce)) = 32"
  using assms by (simp_all add: tmp_KDF_def Let_def bytes_at_def crypto_laws_def)

section \<open>A library that satisfies the laws\<close>

text \<open>The identity as block cipher, a constant key stream and digests that keep the first bytes:
  an instance for concrete evaluations, not a secure one.\<close>

function toy_cbc :: "bytes \<Rightarrow> bytes \<Rightarrow> bytes" where
  "toy_cbc iv d = (if length d < 16 then []
     else (let c = xorb (take 16 d) iv in c @ toy_cbc c (drop 16 d)))"
  by pat_completeness auto
termination
  by (relation "measure (\<lambda>(iv, d). length d)") auto

function toy_cbc_inv :: "bytes \<Rightarrow> bytes \<Rightarrow> bytes" where
  "toy_cbc_inv iv d = (if length d < 16 then []
     else xorb (take 16 d) iv @ toy_cbc_inv (take 16 d) (drop 16 d))"
  by pat_completeness auto
termination
  by (relation "measure (\<lambda>(iv, d). length d)") auto

declare toy_cbc.simps [simp del] toy_cbc_inv.simps [simp del]

definition toy_lib :: crypto_lib where
  "toy_lib = \<lparr>lib_sha1 = (\<lambda>x. take 20 (x @ replicate 20 0)), lib_sha256 = (\<lambda>x. take 32 (x @ replicate 32 0)),
     lib_cbc_encrypt = (\<lambda>k. toy_cbc), lib_cbc_decrypt = (\<lambda>k. toy_cbc_inv), lib_ecb_decrypt = (\<lambda>k b. b),
     lib_ctr = (\<lambda>k iv pos d. xorb d (map (\<lambda>i. of_nat i) [pos..<pos + length d]))\<rparr>"

lemma toy_cbc_inverse:
  "length d mod 16 = 0 \<Longrightarrow> length iv = 16 \<Longrightarrow> toy_cbc_inv iv (toy_cbc iv d) = d"
proof (induction iv d rule: toy_cbc.induct)
  case (1 iv d)
  show ?case
  proof (cases "length d < 16")
    case True
    then have "d = []" using 1(2) by simp
    then show ?thesis by (simp add: toy_cbc.simps [of iv] toy_cbc_inv.simps [of iv])
  next
    case False
    have m: "length (drop 16 d) mod 16 = 0" using 1(2) False by (simp add: mod_diff_left_eq le_mod_geq [symmetric])
    let ?c = "xorb (take 16 d) iv"
    have "toy_cbc iv d = ?c @ toy_cbc ?c (drop 16 d)" using False by (subst toy_cbc.simps) (simp add: Let_def)
    moreover have "toy_cbc_inv iv (?c @ toy_cbc ?c (drop 16 d)) = take 16 d @ toy_cbc_inv ?c (toy_cbc ?c (drop 16 d))"
      using False 1(3) by (subst toy_cbc_inv.simps) (simp add: xorb_cancel)
    ultimately show ?thesis using 1(1) [OF False _ m] False 1(3) by simp
  qed
qed

lemma toy_laws: "crypto_laws toy_lib"
  unfolding crypto_laws_def
proof (intro conjI allI impI)
  fix k :: bytes
  have "toy_cbc iv [] = []" for iv by (subst toy_cbc.simps) simp
  moreover have "toy_cbc iv (b @ rest) = xorb b iv @ toy_cbc (xorb b iv) rest" if "length b = 16" for iv b rest
    using that by (subst toy_cbc.simps) (simp add: Let_def)
  ultimately have "cipher_laws toy_lib k (\<lambda>b. b) (\<lambda>iv i. of_nat i)"
    by (simp add: cipher_laws_def toy_lib_def toy_cbc_inverse)
  then show "\<exists>enc ks. cipher_laws toy_lib k enc ks" by blast
qed (simp_all add: toy_lib_def)

section \<open>Properties\<close>

text \<open>
  C30. Encrypting in groups of 31 blocks through CBC mode, as \<open>AesIgeStateImpl::encrypt\<close>
  does for speed, gives exactly the Infinite Garble Extension of the block cipher, for inputs of any
  number of blocks.
\<close>

theorem ige_is_ige:
  assumes "crypto_laws L" and "length key = 32" and "length iv = 32" and "length inp = 16 * n"
  shows "map_option fst (aes_ige_encrypt L key iv inp (length inp)) =
    Some (concat (ige_spec (aes_block L key) (take 16 iv) (drop 16 iv) (aes_blocks n inp)))"
  using aes_ige_encrypt_eq [OF assms] by auto

theorem ige_is_ige_witness:
  "crypto_laws toy_lib \<and>
   map_option fst (aes_ige_encrypt toy_lib (replicate 32 1) (replicate 32 2) (replicate 1600 3) 1600) =
     Some (concat (ige_spec (aes_block toy_lib (replicate 32 1)) (replicate 16 2) (replicate 16 2)
       (aes_blocks 100 (replicate 1600 3))))"
  using ige_is_ige [OF toy_laws, of "replicate 32 1" "replicate 32 2" "replicate 1600 3" 100] toy_laws
  by (simp add: take_replicate drop_replicate)

text \<open>
  C31. \<open>aes_ige_decrypt\<close> with the same key and initial vector undoes
  \<open>aes_ige_encrypt\<close> on every whole number of blocks, and both leave the same chaining value.
\<close>

theorem ige_roundtrip:
  assumes "crypto_laws L" and "length key = 32" and "length iv = 32" and "length inp mod 16 = 0"
  shows "\<exists>out iv'. aes_ige_encrypt L key iv inp (length inp) = Some (out, iv') \<and> length out = length inp \<and>
    aes_ige_decrypt L key iv out (length out) = Some (inp, iv')"
proof -
  have "length inp = 16 * (length inp div 16)" using assms(4) by auto
  then obtain out iv' where "aes_ige_encrypt L key iv inp (length inp) = Some (out, iv')"
    using aes_ige_encrypt_eq [OF assms(1-3)] by blast
  then show ?thesis using aes_ige_decrypt_encrypt [OF assms] by blast
qed

theorem ige_roundtrip_witness:
  "\<exists>out iv'. aes_ige_encrypt toy_lib (replicate 32 1) (replicate 32 2) (replicate 48 3) 48 = Some (out, iv') \<and>
    length out = 48 \<and> aes_ige_decrypt toy_lib (replicate 32 1) (replicate 32 2) out (length out) =
      Some (replicate 48 3, iv')"
  using ige_roundtrip [OF toy_laws, of "replicate 32 1" "replicate 32 2" "replicate 48 3"] by simp



end
