(* ===== verification/MtTransport.thy ===== *)
theory MtTransport
  imports Crypto AuthData
begin

text \<open>
  Packets of \<open>td/mtproto/Transport.cpp\<close>: their sizes, encryption, decryption and validation,
  for both header types and both protocol versions.
\<close>

section \<open>Packet information\<close>

datatype packet_type = Common | EndToEnd

record packet_info =
  pi_type :: packet_type
  pi_message_ack :: u32
  pi_salt :: u64
  pi_session_id :: u64
  pi_message_id :: u64
  pi_seq_no :: u32
  pi_version :: int
  pi_no_crypto_flag :: bool
  pi_is_creator :: bool
  pi_check_mod4 :: bool
  pi_use_random_padding :: bool

definition packet_info_init :: packet_info where
  "packet_info_init = \<lparr>pi_type = Common, pi_message_ack = 0, pi_salt = 0, pi_session_id = 0,
     pi_message_id = 0, pi_seq_no = 0, pi_version = 1, pi_no_crypto_flag = False,
     pi_is_creator = False, pi_check_mod4 = True, pi_use_random_padding = False\<rparr>"

text \<open>
  The two instances of the templates: \<open>CryptoHeader\<close> with \<open>CryptoPrefix\<close> and
  \<open>EndToEndHeader\<close> with \<open>EndToEndPrefix\<close>.  Both start with \<open>auth_key_id\<close> and
  \<open>message_key\<close>, so the encrypted part starts at byte 24.
\<close>

datatype header_type = CryptoHeader | EndToEndHeader

fun header_size :: "header_type \<Rightarrow> nat" where
  "header_size CryptoHeader = 40"
| "header_size EndToEndHeader = 24"

fun encrypted_header_size :: "header_type \<Rightarrow> nat" where
  "encrypted_header_size CryptoHeader = 16"
| "encrypted_header_size EndToEndHeader = 0"

fun prefix_size :: "header_type \<Rightarrow> nat" where
  "prefix_size CryptoHeader = 16"
| "prefix_size EndToEndHeader = 4"

fun message_data_length :: "header_type \<Rightarrow> bytes \<Rightarrow> u32" where
  "message_data_length CryptoHeader data = u32_of_bytes (bytes_at 12 4 data)"
| "message_data_length EndToEndHeader data = u32_of_bytes (bytes_at 0 4 data)"

section \<open>Message keys and sizes\<close>

definition calc_message_ack_and_key :: "crypto_lib \<Rightarrow> bytes \<Rightarrow> u32 \<times> bytes" where
  "calc_message_ack_and_key L part =
     (let message_sha1 = lib_sha1 L part
      in (u32_of_bytes (bytes_at 0 4 message_sha1) OR push_bit 31 1, bytes_at 4 16 message_sha1))"

definition calc_crypto_size :: "header_type \<Rightarrow> nat \<Rightarrow> nat" where
  "calc_crypto_size h data_size =
     (let enc_size = encrypted_header_size h; raw_size = header_size h - enc_size
      in raw_size + (enc_size + data_size + 15) div 16 * 16)"

definition calc_message_key2 :: "crypto_lib \<Rightarrow> auth_key \<Rightarrow> nat \<Rightarrow> bytes \<Rightarrow> (u32 \<times> bytes) option" where
  "calc_message_key2 L auth_key X to_encrypt =
     (case substr (ak_key auth_key) (88 + X) 32 of None \<Rightarrow> None
      | Some part \<Rightarrow> (let msg_key_large = lib_sha256 L (part @ to_encrypt)
          in Some (u32_of_bytes (bytes_at 0 4 msg_key_large) OR push_bit 31 1, bytes_at 8 16 msg_key_large)))"

text \<open>The array has ten elements and nine initialisers: the last element is zero.\<close>

definition crypto_sizes :: "nat list" where
  "crypto_sizes = [64, 128, 192, 256, 384, 512, 768, 1024, 1280, 0]"

definition do_calc_crypto_size2_basic :: "nat \<Rightarrow> nat \<Rightarrow> nat \<Rightarrow> nat" where
  "do_calc_crypto_size2_basic data_size enc_size raw_size =
     (let encrypted_size = (enc_size + data_size + 12 + 15) div 16 * 16
      in case find (\<lambda>sz. encrypted_size \<le> sz) crypto_sizes of
           Some sz \<Rightarrow> raw_size + sz
         | None \<Rightarrow> raw_size + ((encrypted_size - 1280 + 447) div 448 * 448 + 1280))"

definition do_calc_crypto_size2_rand :: "u32 \<Rightarrow> nat \<Rightarrow> nat \<Rightarrow> nat \<Rightarrow> nat" where
  "do_calc_crypto_size2_rand rnd data_size enc_size raw_size =
     (let rand_data_size = unat (rnd AND 0xff);
          encrypted_size = (enc_size + data_size + rand_data_size + 12 + 15) div 16 * 16
      in raw_size + encrypted_size)"

definition calc_crypto_size2 :: "header_type \<Rightarrow> u32 \<Rightarrow> nat \<Rightarrow> packet_info \<Rightarrow> nat" where
  "calc_crypto_size2 h rnd data_size info =
     (let enc_size = encrypted_header_size h; raw_size = header_size h - enc_size
      in if pi_use_random_padding info then do_calc_crypto_size2_rand rnd data_size enc_size raw_size
         else do_calc_crypto_size2_basic data_size enc_size raw_size)"

definition calc_no_crypto_size :: "nat \<Rightarrow> nat" where
  "calc_no_crypto_size data_size = 8 + data_size"

section \<open>Reading\<close>

definition read_no_crypto :: "bytes \<Rightarrow> (bytes result) option" where
  "read_no_crypto message =
     (if length message < 8 then Some (Inl (Err ''Invalid MTProto message: too small ''))
      else (let data_size = length message - 8
            in if length message \<noteq> calc_no_crypto_size data_size then None
               else Some (Inr (take data_size (drop 8 message)))))"

text \<open>The comparison of the message keys, without early exit.\<close>

definition is_key_bad :: "bytes \<Rightarrow> bytes \<Rightarrow> bool" where
  "is_key_bad a b \<longleftrightarrow> foldl (\<lambda>acc i. acc OR (a ! i XOR b ! i)) 0 [0..<16] \<noteq> 0"

text \<open>
  The checks of \<open>read_crypto_impl\<close> that follow the decryption, on the decrypted message.
\<close>

definition check_decrypted ::
  "crypto_lib \<Rightarrow> header_type \<Rightarrow> nat \<Rightarrow> bytes \<Rightarrow> bytes \<Rightarrow> auth_key \<Rightarrow> packet_info
     \<Rightarrow> (bytes result \<times> packet_info) option" where
  "check_decrypted L h X message decrypted auth_key info =
     (let data = drop (header_size h) message;
          tail_size = length data;
          mdl = unat (message_data_length h data);
          data_size = mdl + prefix_size h;
          bad1 = (pi_version info = 1 \<and>
                  (pi_check_mod4 info \<and> mdl mod 4 \<noteq> 0 \<or> calc_crypto_size h data_size \<noteq> length message))
      in if tail_size < prefix_size h then Some (Inl (Err ''Too small encrypted part''), info)
         else (case (if pi_version info = 1
                     then (let check_size = (if bad1 then tail_size else data_size)
                           in Some (calc_message_ack_and_key L
                                      (take (encrypted_header_size h + check_size) (drop 24 message))))
                     else calc_message_key2 L auth_key X decrypted) of
             None \<Rightarrow> None
           | Some (ack, real_message_key) \<Rightarrow>
               (let info' = info\<lparr>pi_message_ack := ack\<rparr> in
                if is_key_bad real_message_key (bytes_at 8 16 message)
                then Some (Inl (Err ''Invalid MTProto message: message_key mismatch ''), info')
                else if pi_version info = 2 \<and> pi_check_mod4 info \<and> mdl mod 4 \<noteq> 0
                then Some (Inl (Err ''Invalid MTProto message: invalid length (not divisible by four)''), info')
                else if pi_version info = 2 \<and> tail_size - prefix_size h < mdl
                then Some (Inl (Err ''Invalid MTProto message: invalid length (message_data_length is too big)''), info')
                else if pi_version info = 2 \<and> (tail_size - data_size < 12 \<or> tail_size - data_size > 1024)
                then Some (Inl (Err ''Invalid MTProto message: invalid length (invalid padding length)''), info')
                else if pi_version info \<noteq> 2 \<and> bad1
                then Some (Inl (Err ''Invalid MTProto message: invalid length ''), info')
                else if tail_size < data_size then None
                else Some (Inr (take data_size data), info'))))"

text \<open>The second component is the message after the decryption in place.\<close>

definition read_crypto_impl ::
  "crypto_lib \<Rightarrow> header_type \<Rightarrow> nat \<Rightarrow> bytes \<Rightarrow> auth_key \<Rightarrow> packet_info
     \<Rightarrow> (bytes result \<times> bytes \<times> packet_info) option" where
  "read_crypto_impl L h X message auth_key info =
     (if length message < header_size h
      then Some (Inl (Err ''Invalid MTProto message: too small ''), message, info)
      else (let to_decrypt = drop 24 message;
                to_decrypt = take (length to_decrypt - length to_decrypt mod 16) to_decrypt;
                message_key = bytes_at 8 16 message
            in if u64_of_bytes (take 8 message) \<noteq> ak_id auth_key
               then Some (Inl (Err ''Invalid MTProto message: auth_key_id mismatch ''), message, info)
               else (case (if pi_version info = 1 then KDF L (ak_key auth_key) message_key X
                           else KDF2 L (ak_key auth_key) message_key X) of
                   None \<Rightarrow> None
                 | Some (aes_key, aes_iv) \<Rightarrow>
                   (case aes_ige_decrypt L aes_key aes_iv to_decrypt (length to_decrypt) of
                      None \<Rightarrow> None
                    | Some (decrypted, _) \<Rightarrow>
                      (let message' = take 24 message @ decrypted @ drop (24 + length to_decrypt) message
                       in case check_decrypted L h X message' decrypted auth_key info of
                            None \<Rightarrow> None | Some (r, info') \<Rightarrow> Some (r, message', info'))))))"

definition read_crypto ::
  "crypto_lib \<Rightarrow> bytes \<Rightarrow> auth_key \<Rightarrow> packet_info \<Rightarrow> (bytes result \<times> packet_info) option" where
  "read_crypto L message auth_key info =
     (case read_crypto_impl L CryptoHeader 8 message auth_key info of
        None \<Rightarrow> None
      | Some (Inl st, message', info') \<Rightarrow> Some (Inl st, info')
      | Some (Inr data, message', info') \<Rightarrow>
          Some (Inr data, info'\<lparr>pi_type := Common,
            pi_salt := u64_of_bytes (bytes_at 24 8 message'),
            pi_session_id := u64_of_bytes (bytes_at 32 8 message'),
            pi_message_id := u64_of_bytes (bytes_at 40 8 message'),
            pi_seq_no := u32_of_bytes (bytes_at 48 4 message')\<rparr>))"

definition read_e2e_crypto ::
  "crypto_lib \<Rightarrow> bytes \<Rightarrow> auth_key \<Rightarrow> packet_info \<Rightarrow> (bytes result \<times> packet_info) option" where
  "read_e2e_crypto L message auth_key info =
     (case read_crypto_impl L EndToEndHeader (if pi_is_creator info \<and> pi_version info \<noteq> 1 then 8 else 0)
             message auth_key info of
        None \<Rightarrow> None
      | Some (Inl st, message', info') \<Rightarrow> Some (Inl st, info')
      | Some (Inr data, message', info') \<Rightarrow> Some (Inr data, info'\<lparr>pi_type := EndToEnd\<rparr>))"

datatype read_result = RPacket bytes | RNop | RError u32 | RQuickack u32

definition make_packet :: "bytes \<Rightarrow> read_result option" where
  "make_packet packet = (if packet = [] then None else Some (RPacket packet))"

definition read_auth_key_id :: "bytes \<Rightarrow> u64 result" where
  "read_auth_key_id message =
     (if length message < 8 then Inl (Err ''Invalid MTProto message: smaller than 8 bytes '')
      else Inr (u64_of_bytes (take 8 message)))"

definition transport_read ::
  "crypto_lib \<Rightarrow> bytes \<Rightarrow> auth_key \<Rightarrow> packet_info \<Rightarrow> (read_result result \<times> packet_info) option" where
  "transport_read L message auth_key info0 =
     (if length message < 16
      then (if length message < 4
            then Some (Inl (Err ''Invalid MTProto message: smaller than 4 bytes ''), info0)
            else (let code = u32_of_bytes (take 4 message)
                  in if code = 0 then Some (Inr RNop, info0)
                     else if code = - 1 \<and> length message \<ge> 8
                     then Some (Inr (RQuickack (u32_of_bytes (bytes_at 4 4 message))), info0)
                     else Some (Inr (RError code), info0)))
      else (let info = info0\<lparr>pi_no_crypto_flag := (u64_of_bytes (take 8 message) = 0)\<rparr>;
                r = (if pi_type info = EndToEnd then read_e2e_crypto L message auth_key info
                     else if pi_no_crypto_flag info
                     then map_option (\<lambda>r. (r, info)) (read_no_crypto message)
                     else if ak_empty auth_key
                     then Some (Inl (Err ''Failed to decrypt MTProto message: auth key is empty''), info)
                     else read_crypto L message auth_key info)
            in case r of None \<Rightarrow> None
               | Some (Inl st, info') \<Rightarrow> Some (Inl st, info')
               | Some (Inr data, info') \<Rightarrow> map_option (\<lambda>p. (Inr p, info')) (make_packet data)))"

section \<open>Writing\<close>

text \<open>
  A \<open>Storer\<close> is the list of its store calls; \<open>rnd\<close> is \<open>Random::secure_uint32()\<close> and
  \<open>pad n\<close> the \<open>n\<close> bytes that \<open>Random::secure_bytes\<close> fills in.
\<close>

definition write_no_crypto :: "store_call list \<Rightarrow> bytes option" where
  "write_no_crypto storer =
     (case (run_calc storer 0, run_unsafe storer []) of
        (Some sz, Some data) \<Rightarrow> if length data = sz then Some (bytes_of_u64 0 @ data) else None
      | _ \<Rightarrow> None)"

definition write_crypto_impl ::
  "crypto_lib \<Rightarrow> header_type \<Rightarrow> nat \<Rightarrow> store_call list \<Rightarrow> auth_key \<Rightarrow> packet_info \<Rightarrow> bytes \<Rightarrow> (nat \<Rightarrow> bytes)
     \<Rightarrow> nat \<Rightarrow> nat \<Rightarrow> (bytes \<times> packet_info) option" where
  "write_crypto_impl L h X storer auth_key info enc_header pad data_size padded_size =
     (case run_unsafe storer [] of None \<Rightarrow> None
      | Some data \<Rightarrow>
        if length data \<noteq> data_size then None
        else (let pad_size = padded_size - (header_size h + data_size);
                  to_encrypt = enc_header @ data @ pad pad_size
              in case (if pi_version info = 1
                       then Some (calc_message_ack_and_key L (enc_header @ data))
                       else calc_message_key2 L auth_key X to_encrypt) of
                   None \<Rightarrow> None
                 | Some (ack, message_key) \<Rightarrow>
                   (case (if pi_version info = 1 then KDF L (ak_key auth_key) message_key X
                          else KDF2 L (ak_key auth_key) message_key X) of
                      None \<Rightarrow> None
                    | Some (aes_key, aes_iv) \<Rightarrow>
                      (case aes_ige_encrypt L aes_key aes_iv to_encrypt (length to_encrypt) of
                         None \<Rightarrow> None
                       | Some (encrypted, _) \<Rightarrow>
                         Some (bytes_of_u64 (ak_id auth_key) @ message_key @ encrypted,
                               info\<lparr>pi_message_ack := ack\<rparr>)))))"

definition padded_packet_size :: "header_type \<Rightarrow> u32 \<Rightarrow> nat \<Rightarrow> packet_info \<Rightarrow> nat" where
  "padded_packet_size h rnd data_size info =
     (if pi_version info = 1 then calc_crypto_size h data_size else calc_crypto_size2 h rnd data_size info)"

definition write_crypto ::
  "crypto_lib \<Rightarrow> u32 \<Rightarrow> (nat \<Rightarrow> bytes) \<Rightarrow> store_call list \<Rightarrow> auth_key \<Rightarrow> packet_info \<Rightarrow> (bytes \<times> packet_info) option" where
  "write_crypto L rnd pad storer auth_key info =
     (case run_calc storer 0 of None \<Rightarrow> None
      | Some data_size \<Rightarrow>
        write_crypto_impl L CryptoHeader 0 storer auth_key info
          (bytes_of_u64 (pi_salt info) @ bytes_of_u64 (pi_session_id info)) pad
          data_size (padded_packet_size CryptoHeader rnd data_size info))"

definition write_e2e_crypto ::
  "crypto_lib \<Rightarrow> u32 \<Rightarrow> (nat \<Rightarrow> bytes) \<Rightarrow> store_call list \<Rightarrow> auth_key \<Rightarrow> packet_info \<Rightarrow> (bytes \<times> packet_info) option" where
  "write_e2e_crypto L rnd pad storer auth_key info =
     (case run_calc storer 0 of None \<Rightarrow> None
      | Some data_size \<Rightarrow>
        write_crypto_impl L EndToEndHeader (if pi_is_creator info \<or> pi_version info = 1 then 0 else 8)
          storer auth_key info [] pad data_size (padded_packet_size EndToEndHeader rnd data_size info))"

definition transport_write ::
  "crypto_lib \<Rightarrow> u32 \<Rightarrow> (nat \<Rightarrow> bytes) \<Rightarrow> store_call list \<Rightarrow> auth_key \<Rightarrow> packet_info \<Rightarrow> (bytes \<times> packet_info) option" where
  "transport_write L rnd pad storer auth_key info =
     (if pi_type info = EndToEnd then write_e2e_crypto L rnd pad storer auth_key info
      else if pi_no_crypto_flag info then map_option (\<lambda>p. (p, info)) (write_no_crypto storer)
      else if ak_empty auth_key then None
      else write_crypto L rnd pad storer auth_key info)"

section \<open>Sizes\<close>

lemma div16_bounds: "n \<le> (n + 15) div 16 * (16 :: nat)" "(n + 15) div 16 * (16 :: nat) \<le> n + 15"
  by presburger+

lemma calc_crypto_size_bounds:
  "header_size h + n \<le> calc_crypto_size h n" "calc_crypto_size h n \<le> header_size h + n + 15"
  "(calc_crypto_size h n - 24) mod 16 = 0"
  using div16_bounds [of "encrypted_header_size h + n"] by (cases h; simp add: calc_crypto_size_def)+

lemma calc_crypto_size2_rand_bounds:
  "12 \<le> do_calc_crypto_size2_rand rnd n e r - (r + e + n)"
  "do_calc_crypto_size2_rand rnd n e r - (r + e + n) \<le> 282"
  "(do_calc_crypto_size2_rand rnd n e r - r) mod 16 = 0"
proof -
  have "unat (rnd AND 0xff) \<le> 255" using word_and_le1 [of rnd 255] by (simp add: word_le_nat_alt)
  then show "12 \<le> do_calc_crypto_size2_rand rnd n e r - (r + e + n)"
    "do_calc_crypto_size2_rand rnd n e r - (r + e + n) \<le> 282"
    "(do_calc_crypto_size2_rand rnd n e r - r) mod 16 = 0"
    using div16_bounds [of "e + n + unat (rnd AND 0xff) + 12"]
    by (simp_all add: do_calc_crypto_size2_rand_def)
qed

lemma div448_bounds: "n \<le> (n + 447) div 448 * (448 :: nat)" "(n + 447) div 448 * (448 :: nat) \<le> n + 447"
  using div_mult_mod_eq [of "n + 447" 448] mod_less_divisor [of 448 "n + 447"] by linarith+

lemma crypto_sizes_find:
  fixes s :: nat
  defines "R \<equiv> (case find (\<lambda>sz. s \<le> sz) crypto_sizes of Some sz \<Rightarrow> sz
     | None \<Rightarrow> (s - 1280 + 447) div 448 * 448 + 1280)"
  assumes "12 \<le> s"
  shows "s \<le> R" "R \<le> s + 447" "R mod 16 = 0"
proof -
  have m: "(448 * k + 1280) mod 16 = (0 :: nat)" for k
    using mod_mult_self1_is_0 [of 16 "28 * k + 80"] by (simp add: algebra_simps)
  have "s \<le> 64 \<or> 64 < s \<and> s \<le> 128 \<or> 128 < s \<and> s \<le> 192 \<or> 192 < s \<and> s \<le> 256 \<or> 256 < s \<and> s \<le> 384 \<or>
    384 < s \<and> s \<le> 512 \<or> 512 < s \<and> s \<le> 768 \<or> 768 < s \<and> s \<le> 1024 \<or> 1024 < s \<and> s \<le> 1280 \<or> 1280 < s"
    by linarith
  then have "s \<le> R \<and> R \<le> s + 447 \<and> R mod 16 = 0"
  proof (elim disjE)
    assume g: "1280 < s"
    then have R: "R = (s - 1280 + 447) div 448 * 448 + 1280" by (simp add: R_def crypto_sizes_def)
    have "R mod 16 = 0" unfolding R using m [of "(s - 1280 + 447) div 448"] by (simp only: mult.commute)
    then show ?thesis using div448_bounds [of "s - 1280"] g R by linarith
  qed (simp_all add: R_def crypto_sizes_def)
  then show "s \<le> R" "R \<le> s + 447" "R mod 16 = 0" by simp_all
qed

lemma calc_crypto_size2_basic_bounds:
  "12 \<le> do_calc_crypto_size2_basic n e r - (r + e + n)"
  "do_calc_crypto_size2_basic n e r - (r + e + n) \<le> 474"
  "(do_calc_crypto_size2_basic n e r - r) mod 16 = 0"
proof -
  let ?s = "(e + n + 12 + 15) div 16 * 16"
  let ?R = "case find (\<lambda>sz. ?s \<le> sz) crypto_sizes of Some sz \<Rightarrow> sz
     | None \<Rightarrow> (?s - 1280 + 447) div 448 * 448 + 1280"
  have s: "e + n + 12 \<le> ?s" "?s \<le> e + n + 27"
    using div16_bounds [of "e + n + 12"] by simp_all
  have R: "?s \<le> ?R" "?R \<le> ?s + 447" "?R mod 16 = 0"
    using s(1) by (intro crypto_sizes_find; linarith)+
  have "do_calc_crypto_size2_basic n e r = r + ?R"
    by (simp add: do_calc_crypto_size2_basic_def Let_def split: option.split)
  then show "12 \<le> do_calc_crypto_size2_basic n e r - (r + e + n)"
    "do_calc_crypto_size2_basic n e r - (r + e + n) \<le> 474"
    "(do_calc_crypto_size2_basic n e r - r) mod 16 = 0"
    using s R by (linarith, linarith, simp)
qed

lemma padded_packet_size_bounds:
  "header_size h + n \<le> padded_packet_size h rnd n info"
  "(padded_packet_size h rnd n info - 24) mod 16 = 0"
  "pi_version info \<noteq> 1 \<Longrightarrow> 12 \<le> padded_packet_size h rnd n info - (header_size h + n)"
  "padded_packet_size h rnd n info - (header_size h + n) \<le> 1024"
proof -
  have rs: "header_size h - encrypted_header_size h = 24" "header_size h = 24 + encrypted_header_size h"
    by (cases h; simp)+
  show "(padded_packet_size h rnd n info - 24) mod 16 = 0"
    using calc_crypto_size_bounds(3) [of h n] calc_crypto_size2_basic_bounds(3) [of n "encrypted_header_size h" 24]
      calc_crypto_size2_rand_bounds(3) [of rnd n "encrypted_header_size h" 24]
    by (simp add: padded_packet_size_def calc_crypto_size2_def Let_def rs(1))
  show p: "12 \<le> padded_packet_size h rnd n info - (header_size h + n)" if "pi_version info \<noteq> 1"
    using that calc_crypto_size2_basic_bounds(1) [of n "encrypted_header_size h" 24]
      calc_crypto_size2_rand_bounds(1) [of rnd n "encrypted_header_size h" 24]
    by (simp add: padded_packet_size_def calc_crypto_size2_def Let_def rs(1)) (simp add: rs(2))
  show "header_size h + n \<le> padded_packet_size h rnd n info"
    using p calc_crypto_size_bounds(1) [of h n] by (cases "pi_version info = 1") (simp_all add: padded_packet_size_def)
  have "calc_crypto_size h n - (header_size h + n) \<le> 1024"
    using calc_crypto_size_bounds(2) [of h n] by linarith
  then show "padded_packet_size h rnd n info - (header_size h + n) \<le> 1024"
    using calc_crypto_size2_basic_bounds(2) [of n "encrypted_header_size h" 24]
      calc_crypto_size2_rand_bounds(2) [of rnd n "encrypted_header_size h" 24]
    by (simp add: padded_packet_size_def calc_crypto_size2_def Let_def rs(1)) (simp add: rs(2))
qed

section \<open>What is written is read back\<close>

lemma foldl_or_eq_0: "foldl (\<lambda>acc i. acc OR f i) z xs = (0 :: byte) \<longleftrightarrow> z = 0 \<and> (\<forall>i \<in> set xs. f i = 0)"
  by (induction xs arbitrary: z) (auto simp: or_eq_0_iff)

lemma xor_eq_0: "(a :: byte) XOR b = 0 \<longleftrightarrow> a = b"
proof
  assume "a XOR b = 0"
  then have "(a XOR b) XOR b = b" by simp
  then show "a = b" by (simp add: xor.assoc)
qed simp

lemma is_key_bad_iff: "length a = 16 \<Longrightarrow> length b = 16 \<Longrightarrow> is_key_bad a b \<longleftrightarrow> a \<noteq> b"
  by (auto simp: is_key_bad_def foldl_or_eq_0 list_eq_iff_nth_eq xor_eq_0)

lemma bytes_at_append_left: "pos + len \<le> length a \<Longrightarrow> bytes_at pos len (a @ b) = bytes_at pos len a"
  by (simp add: bytes_at_def)

lemma bytes_at_append_right: "length a \<le> pos \<Longrightarrow> bytes_at pos len (a @ b) = bytes_at (pos - length a) len b"
  by (simp add: bytes_at_def)

lemma message_data_length_append:
  "prefix_size h \<le> length data \<Longrightarrow> message_data_length h (data @ rest) = message_data_length h data"
  by (cases h) (simp_all add: bytes_at_append_left)

lemma message_key_length:
  assumes "crypto_laws L"
  shows "calc_message_ack_and_key L part = (ack, mk) \<Longrightarrow> length mk = 16"
    and "calc_message_key2 L k X d = Some (ack, mk) \<Longrightarrow> length mk = 16"
  using assms
  by (auto simp: calc_message_ack_and_key_def calc_message_key2_def bytes_at_def crypto_laws_def Let_def
      split: option.splits)

text \<open>The message key and the key schedule of a packet, as the writer computes them.\<close>

definition packet_key :: "crypto_lib \<Rightarrow> auth_key \<Rightarrow> packet_info \<Rightarrow> nat \<Rightarrow> bytes \<Rightarrow> bytes \<Rightarrow> (u32 \<times> bytes) option" where
  "packet_key L auth_key info X plain to_encrypt =
     (if pi_version info = 1 then Some (calc_message_ack_and_key L plain)
      else calc_message_key2 L auth_key X to_encrypt)"

definition packet_kdf :: "crypto_lib \<Rightarrow> auth_key \<Rightarrow> packet_info \<Rightarrow> nat \<Rightarrow> bytes \<Rightarrow> (bytes \<times> bytes) option" where
  "packet_kdf L auth_key info X message_key =
     (if pi_version info = 1 then KDF L (ak_key auth_key) message_key X
      else KDF2 L (ak_key auth_key) message_key X)"

lemma packet_kdf_returns:
  assumes "crypto_laws L" and "length (ak_key k) = 256" and "X \<le> 8"
  shows "\<exists>key iv. packet_kdf L k info X mk = Some (key, iv) \<and> length key = 32 \<and> length iv = 32"
  using KDF_returns [OF assms(1,2), of X mk] KDF2_returns [OF assms(1,2), of X mk] assms(3)
  by (simp add: packet_kdf_def)

lemma packet_key_returns:
  assumes "crypto_laws L" and "length (ak_key k) = 256" and "X \<le> 8"
  shows "\<exists>ack mk. packet_key L k info X plain te = Some (ack, mk) \<and> length mk = 16"
proof -
  have "\<exists>ack mk. packet_key L k info X plain te = Some (ack, mk)"
    using assms by (simp add: packet_key_def calc_message_key2_def calc_message_ack_and_key_def substr_def Let_def)
  then show ?thesis
    using message_key_length [OF assms(1)] by (fastforce simp: packet_key_def split: if_splits)
qed

lemma write_crypto_impl_returns:
  fixes rnd :: u32 and info :: packet_info
  assumes laws: "crypto_laws L" and key: "length (ak_key k) = 256" and X: "X \<le> 8"
    and data: "run_unsafe storer [] = Some data"
    and eh: "length eh = encrypted_header_size h" and pad: "\<And>n. length (pad n) = n"
  defines "P \<equiv> padded_packet_size h rnd (length data) info"
  defines "te \<equiv> eh @ data @ pad (P - (header_size h + length data))"
  shows "\<exists>ack mk ek iv enc iv'. packet_key L k info X (eh @ data) te = Some (ack, mk) \<and> length mk = 16 \<and>
    packet_kdf L k info X mk = Some (ek, iv) \<and> length ek = 32 \<and> length iv = 32 \<and>
    aes_ige_encrypt L ek iv te (length te) = Some (enc, iv') \<and>
    write_crypto_impl L h X storer k info eh pad (length data) P =
      Some (bytes_of_u64 (ak_id k) @ mk @ enc, info\<lparr>pi_message_ack := ack\<rparr>)"
proof -
  obtain ack mk where mk: "packet_key L k info X (eh @ data) te = Some (ack, mk)" "length mk = 16"
    using packet_key_returns [OF laws key X] by blast
  obtain ek iv where kdf: "packet_kdf L k info X mk = Some (ek, iv)" "length ek = 32" "length iv = 32"
    using packet_kdf_returns [OF laws key X] by blast
  have hs: "header_size h = 24 + encrypted_header_size h" by (cases h) simp_all
  have len: "length te = P - 24"
    using padded_packet_size_bounds(1) [of h "length data" rnd info] by (simp add: te_def pad eh P_def hs)
  then obtain n where n: "length te = 16 * n"
    using padded_packet_size_bounds(2) [of h rnd "length data" info] by (auto simp: P_def)
  obtain enc iv' where enc: "aes_ige_encrypt L ek iv te (length te) = Some (enc, iv')"
    using aes_ige_encrypt_eq [OF laws kdf(2,3) n] by blast
  have "write_crypto_impl L h X storer k info eh pad (length data) P =
      Some (bytes_of_u64 (ak_id k) @ mk @ enc, info\<lparr>pi_message_ack := ack\<rparr>)"
    using data mk(1) kdf(1) enc unfolding packet_key_def packet_kdf_def te_def
    by (simp add: write_crypto_impl_def Let_def)
  then show ?thesis using mk kdf enc by blast
qed

text \<open>Data that starts with a prefix whose length field is right.\<close>

definition good_prefix :: "header_type \<Rightarrow> bytes \<Rightarrow> bool" where
  "good_prefix h data \<longleftrightarrow> prefix_size h \<le> length data \<and>
     unat (message_data_length h data) = length data - prefix_size h"

lemma check_decrypted_ok:
  assumes laws: "crypto_laws L" and v: "pi_version info = 1 \<or> pi_version info = 2"
    and hd24: "length hdr = 24" "bytes_at 8 16 hdr = mk" and eh: "length eh = encrypted_header_size h"
    and gp: "good_prefix h data" and m4: "pi_check_mod4 info \<Longrightarrow> (length data - prefix_size h) mod 4 = 0"
    and pd: "length pd = padded_packet_size h rnd (length data) info - (header_size h + length data)"
    and key: "packet_key L k info X (eh @ data) (eh @ data @ pd) = Some (ack, mk)"
  shows "check_decrypted L h X (hdr @ eh @ data @ pd) (eh @ data @ pd) k info =
    Some (Inr data, info\<lparr>pi_message_ack := ack\<rparr>)"
proof -
  let ?msg = "hdr @ eh @ data @ pd"
  have hs: "header_size h = 24 + encrypted_header_size h" by (cases h) simp_all
  have dr: "drop (header_size h) ?msg = data @ pd" using hd24 eh hs by simp
  have lp: "length ?msg = padded_packet_size h rnd (length data) info"
    using hd24 eh hs pd padded_packet_size_bounds(1) [of h "length data" rnd info] by simp
  have mdl: "unat (message_data_length h (data @ pd)) = length data - prefix_size h"
    and ps: "prefix_size h \<le> length data"
    using gp message_data_length_append [of h data pd] by (simp_all add: good_prefix_def)
  have sz: "length data - prefix_size h + prefix_size h = length data" using ps by simp
  have mk: "bytes_at 8 16 ?msg = mk" using hd24 by (simp add: bytes_at_append_left)
  have "length mk = 16" using hd24 by (auto simp: bytes_at_def)
  then have nb: "\<not> is_key_bad mk mk" by (simp add: is_key_bad_iff)
  show ?thesis
  proof (cases "pi_version info = 1")
    case True
    have cs: "calc_crypto_size h (length data) = length ?msg" using lp True by (simp add: padded_packet_size_def)
    have ck: "calc_message_ack_and_key L (eh @ data) = (ack, mk)" using key True by (simp add: packet_key_def)
    have tk: "take (encrypted_header_size h + length data) (drop 24 ?msg) = eh @ data"
      using hd24 eh by simp
    have nb1: "\<not> (pi_version info = 1 \<and> (pi_check_mod4 info \<and> (length data - prefix_size h) mod 4 \<noteq> 0 \<or>
        length ?msg \<noteq> length ?msg))"
      using m4 by auto
    show ?thesis
      unfolding check_decrypted_def dr Let_def mdl sz cs if_not_P [OF nb1] tk ck mk
      using True m4 ps nb by simp
  next
    case False
    have ck: "calc_message_key2 L k X (eh @ data @ pd) = Some (ack, mk)" using key False by (simp add: packet_key_def)
    show ?thesis
      unfolding check_decrypted_def dr Let_def mdl sz ck mk
      using False v m4 ps nb pd padded_packet_size_bounds(3) [of info h rnd "length data"]
        padded_packet_size_bounds(4) [of h rnd "length data" info]
      by auto
  qed
qed

lemma read_write_impl:
  assumes laws: "crypto_laws L" and key: "length (ak_key k) = 256" and X: "X \<le> 8"
    and data: "run_unsafe storer [] = Some data"
    and eh: "length eh = encrypted_header_size h" and pad: "\<And>n. length (pad n) = n"
    and v: "pi_version info = 1 \<or> pi_version info = 2"
    and gp: "good_prefix h data" and m4: "pi_check_mod4 rinfo \<Longrightarrow> (length data - prefix_size h) mod 4 = 0"
    and rv: "pi_version rinfo = pi_version info" and rp: "pi_use_random_padding rinfo = pi_use_random_padding info"
  shows "\<exists>packet message' ack. write_crypto_impl L h X storer k info eh pad (length data)
        (padded_packet_size h rnd (length data) info) = Some (packet, info\<lparr>pi_message_ack := ack\<rparr>) \<and>
      header_size h + length data \<le> length packet \<and> take 8 packet = bytes_of_u64 (ak_id k) \<and>
      read_crypto_impl L h X packet k rinfo = Some (Inr data, message', rinfo\<lparr>pi_message_ack := ack\<rparr>) \<and>
      (\<exists>hdr rest. length hdr = 24 \<and> message' = hdr @ eh @ data @ rest)"
proof -
  let ?P = "padded_packet_size h rnd (length data) info"
  let ?pd = "pad (?P - (header_size h + length data))"
  let ?te = "eh @ data @ ?pd"
  obtain ack mk ek iv enc iv' where w: "packet_key L k info X (eh @ data) ?te = Some (ack, mk)" "length mk = 16"
    "packet_kdf L k info X mk = Some (ek, iv)" "length ek = 32" "length iv = 32"
    "aes_ige_encrypt L ek iv ?te (length ?te) = Some (enc, iv')"
    "write_crypto_impl L h X storer k info eh pad (length data) ?P =
      Some (bytes_of_u64 (ak_id k) @ mk @ enc, info\<lparr>pi_message_ack := ack\<rparr>)"
    using write_crypto_impl_returns [OF laws key X data eh pad] by blast
  let ?hdr = "bytes_of_u64 (ak_id k) @ mk"
  let ?msg = "?hdr @ enc"
  have hs: "header_size h = 24 + encrypted_header_size h" by (cases h) simp_all
  have len: "length ?te = ?P - 24"
    using padded_packet_size_bounds(1) [of h "length data" rnd info] by (simp add: pad eh hs)
  have m16: "length ?te mod 16 = 0" unfolding len by (rule padded_packet_size_bounds(2))
  note dec = aes_ige_decrypt_encrypt [OF laws w(4,5) m16 w(6)]
  have l: "length ?hdr = 24" using w(2) by simp
  have mk: "bytes_at 8 16 ?hdr = mk" using w(2) by (simp add: bytes_at_def)
  have mk': "bytes_at 8 16 ?msg = mk" using w(2) by (simp add: bytes_at_def)
  have td: "drop 24 ?msg = enc" using l by simp
  have tt: "take (length enc - length enc mod 16) enc = enc" using m16 dec(1) by simp
  have pv: "packet_key L k rinfo X (eh @ data) ?te = Some (ack, mk)" "packet_kdf L k rinfo X mk = Some (ek, iv)"
    "length ?pd = padded_packet_size h rnd (length data) rinfo - (header_size h + length data)"
    using w(1,3) rv rp by (simp_all add: packet_key_def packet_kdf_def padded_packet_size_def calc_crypto_size2_def pad)
  have chk: "check_decrypted L h X (?hdr @ ?te) ?te k rinfo = Some (Inr data, rinfo\<lparr>pi_message_ack := ack\<rparr>)"
    using v rv by (intro check_decrypted_ok [OF laws _ l mk eh gp m4 pv(3) pv(1)]) auto
  have big: "header_size h + length data \<le> length ?msg"
    using l len dec(1) padded_packet_size_bounds(1) [of h "length data" rnd info] by simp
  have id: "take 8 ?msg = bytes_of_u64 (ak_id k)" by simp
  have t24: "take 24 ?msg = ?hdr" "drop (24 + length enc) ?msg = []" using l by simp_all
  have kdf: "(if pi_version rinfo = 1 then KDF L (ak_key k) mk X else KDF2 L (ak_key k) mk X) = Some (ek, iv)"
    using pv(2) by (simp add: packet_kdf_def)
  have nl: "\<not> length ?msg < header_size h" using big by linarith
  have "read_crypto_impl L h X ?msg k rinfo = Some (Inr data, ?hdr @ ?te, rinfo\<lparr>pi_message_ack := ack\<rparr>)"
    unfolding read_crypto_impl_def Let_def td tt mk' id kdf option.case prod.case dec(2) t24 append_Nil2
    using nl chk by simp
  moreover have "write_crypto_impl L h X storer k info eh pad (length data) ?P =
      Some (?msg, info\<lparr>pi_message_ack := ack\<rparr>)"
    using w(7) by simp
  ultimately show ?thesis using l big id by blast
qed

section \<open>Reading never aborts\<close>

lemma ige_decrypt_length:
  assumes "crypto_laws L" and "length key = 32" and "length iv = 32" and "length inp mod 16 = 0"
  shows "\<exists>out iv'. aes_ige_decrypt L key iv inp (length inp) = Some (out, iv')"
  using assms by (auto simp: aes_ige_decrypt_def ige_init_def ige_decrypt_def split: prod.splits)

lemma ex_if_Some:
  assumes "c \<Longrightarrow> \<exists>r i. x = Some (r, i) \<and> P r i" and "\<not> c \<Longrightarrow> \<exists>r i. y = Some (r, i) \<and> P r i"
  shows "\<exists>r i. (if c then x else y) = Some (r, i) \<and> P r i"
  using assms by (cases c) simp_all

lemma check_decrypted_returns:
  assumes "length (ak_key k) = 256" and "X \<le> 8" and v: "pi_version info = 1 \<or> pi_version info = 2"
  shows "\<exists>r info'. check_decrypted L h X message dec k info = Some (r, info') \<and>
    ((\<forall>d. r = Inr d \<longrightarrow> d \<noteq> []) \<and> pi_type info' = pi_type info)"
proof -
  let ?data = "drop (header_size h) message"
  define n where "n = unat (message_data_length h ?data)"
  define bad where "bad \<longleftrightarrow> pi_version info = 1 \<and> (pi_check_mod4 info \<and> n mod 4 \<noteq> 0 \<or>
    calc_crypto_size h (n + prefix_size h) \<noteq> length message)"
  have sz: "n + prefix_size h \<le> length ?data" if "pi_version info = 1" "\<not> bad"
    using calc_crypto_size_bounds(1) [of h "n + prefix_size h"] that by (simp add: bad_def)
  have ps: "0 < prefix_size h" by (cases h) simp_all
  obtain ack mk where key: "(if pi_version info = 1
      then Some (calc_message_ack_and_key L (take (encrypted_header_size h +
        (if bad then length ?data else n + prefix_size h)) (drop 24 message)))
      else calc_message_key2 L k X dec) = Some (ack, mk)"
    using assms(1,2) by (cases "pi_version info = 1")
      (auto simp: calc_message_key2_def substr_def Let_def calc_message_ack_and_key_def)
  show ?thesis
    unfolding check_decrypted_def Let_def n_def [symmetric] bad_def [symmetric] key option.case prod.case
    apply (rule ex_if_Some, simp)
    apply (rule ex_if_Some, simp)
    apply (rule ex_if_Some, simp)
    apply (rule ex_if_Some, simp)
    apply (rule ex_if_Some, simp)
    apply (rule ex_if_Some, simp)
    apply (rule ex_if_Some)
    subgoal using v sz by auto
    subgoal using ps by auto
    done
qed

lemma round_down16: "length (take (length xs - length xs mod 16) xs) mod 16 = 0"
proof -
  have "length (take (length xs - length xs mod 16) xs) = length xs - length xs mod 16" by simp
  also have "\<dots> = 16 * (length xs div 16)" by (rule minus_mod_eq_mult_div)
  finally show ?thesis by simp
qed

lemma read_crypto_impl_returns:
  assumes laws: "crypto_laws L" and key: "length (ak_key k) = 256" and X: "X \<le> 8"
    and v: "pi_version info = 1 \<or> pi_version info = 2"
  shows "\<exists>r m info'. read_crypto_impl L h X message k info = Some (r, m, info') \<and>
    (\<forall>d. r = Inr d \<longrightarrow> d \<noteq> [])"
proof (cases "length message < header_size h \<or> u64_of_bytes (take 8 message) \<noteq> ak_id k")
  case False
  let ?td = "take (length (drop 24 message) - length (drop 24 message) mod 16) (drop 24 message)"
  obtain ek iv where kdf: "packet_kdf L k info X (bytes_at 8 16 message) = Some (ek, iv)"
    "length ek = 32" "length iv = 32"
    using packet_kdf_returns [OF laws key X] by blast
  obtain dec iv' where dec: "aes_ige_decrypt L ek iv ?td (length ?td) = Some (dec, iv')"
    using ige_decrypt_length [OF laws kdf(2,3) round_down16 [of "drop 24 message"]] by (elim exE)
  obtain r info' where c: "check_decrypted L h X (take 24 message @ dec @ drop (24 + length ?td) message) dec k info =
      Some (r, info')" "\<forall>d. r = Inr d \<longrightarrow> d \<noteq> []"
    using check_decrypted_returns [OF key X v] by blast
  show ?thesis
    using False kdf(1) dec c unfolding read_crypto_impl_def packet_kdf_def Let_def by simp
qed (auto simp: read_crypto_impl_def Let_def)

section \<open>What an accepted packet satisfies\<close>

lemma if_Inl_D:
  "(if c then Some (Inl e, i) else y) = Some (Inr d, i') \<Longrightarrow> \<not> c \<and> y = Some (Inr d, i')"
  by (simp split: if_splits)

lemma check_decrypted_v2_D:
  assumes acc: "check_decrypted L h X message dec k info = Some (Inr d, info')" and v: "pi_version info = 2"
  defines "n \<equiv> unat (message_data_length h (drop (header_size h) message))"
    and "tail \<equiv> length (drop (header_size h) message)"
  shows "\<exists>ack rk. calc_message_key2 L k X dec = Some (ack, rk) \<and> \<not> is_key_bad rk (bytes_at 8 16 message) \<and>
    (pi_check_mod4 info \<longrightarrow> n mod 4 = 0) \<and> prefix_size h \<le> tail \<and> n \<le> tail - prefix_size h \<and>
    12 \<le> tail - (n + prefix_size h) \<and> tail - (n + prefix_size h) \<le> 1024 \<and>
    d = take (n + prefix_size h) (drop (header_size h) message)"
proof -
  have v1: "(pi_version info = 1) = False" "(pi_version info = 2) = True" using v by simp_all
  note e = acc [unfolded check_decrypted_def Let_def n_def [symmetric] tail_def [symmetric] v1 if_False simp_thms]
  from if_Inl_D [OF e] have e1: "\<not> tail < prefix_size h" and e2: "(case calc_message_key2 L k X dec of
      None \<Rightarrow> None
    | Some (ack, rk) \<Rightarrow>
        if is_key_bad rk (bytes_at 8 16 message)
        then Some (Inl (Err ''Invalid MTProto message: message_key mismatch ''), info\<lparr>pi_message_ack := ack\<rparr>)
        else if pi_check_mod4 info \<and> n mod 4 \<noteq> 0
        then Some (Inl (Err ''Invalid MTProto message: invalid length (not divisible by four)''), info\<lparr>pi_message_ack := ack\<rparr>)
        else if tail - prefix_size h < n
        then Some (Inl (Err ''Invalid MTProto message: invalid length (message_data_length is too big)''), info\<lparr>pi_message_ack := ack\<rparr>)
        else if tail - (n + prefix_size h) < 12 \<or> 1024 < tail - (n + prefix_size h)
        then Some (Inl (Err ''Invalid MTProto message: invalid length (invalid padding length)''), info\<lparr>pi_message_ack := ack\<rparr>)
        else if tail < n + prefix_size h then None
        else Some (Inr (take (n + prefix_size h) (drop (header_size h) message)), info\<lparr>pi_message_ack := ack\<rparr>)) =
      Some (Inr d, info')"
    by blast+
  from e2 obtain ack rk where k: "calc_message_key2 L k X dec = Some (ack, rk)" by (auto split: option.splits)
  note f1 = if_Inl_D [OF e2 [unfolded k option.case prod.case]]
  note f2 = if_Inl_D [OF f1 [THEN conjunct2]]
  note f3 = if_Inl_D [OF f2 [THEN conjunct2]]
  note f4 = if_Inl_D [OF f3 [THEN conjunct2]]
  have "d = take (n + prefix_size h) (drop (header_size h) message)"
    using f4 [THEN conjunct2] by (simp split: if_splits)
  then show ?thesis
    using e1 k f1 [THEN conjunct1] f2 [THEN conjunct1] f3 [THEN conjunct1] f4 [THEN conjunct1]
    by (intro exI [of _ ack] exI [of _ rk]) (simp add: not_less)
qed

lemma check_decrypted_v2_accept:
  assumes acc: "check_decrypted L CryptoHeader X (hdr @ dec @ sfx) dec k info = Some (Inr d, info')"
    and hdr: "length hdr = 24" and dec: "16 \<le> length dec" "length dec mod 16 = 0" and sfx: "length sfx < 16"
    and v: "pi_version info = 2" "pi_check_mod4 info" and laws: "crypto_laws L"
  shows "\<exists>ack rest. calc_message_key2 L k X dec = Some (ack, bytes_at 8 16 hdr) \<and>
    dec = take 16 dec @ d @ rest \<and> 16 \<le> length d"
proof -
  define n where "n = unat (message_data_length CryptoHeader (drop 16 dec @ sfx))"
  have da: "drop 40 (hdr @ dec @ sfx) = drop 16 dec @ sfx" using hdr dec by simp
  have ta: "length (drop 16 dec @ sfx) = length dec - 16 + length sfx" by simp
  obtain ack rk where k2: "calc_message_key2 L k X dec = Some (ack, rk)"
    and kb: "\<not> is_key_bad rk (bytes_at 8 16 (hdr @ dec @ sfx))" and m4: "n mod 4 = 0"
    and sz: "16 \<le> length dec - 16 + length sfx" "n \<le> length dec - 16 + length sfx - 16"
      "12 \<le> length dec - 16 + length sfx - (n + 16)"
    and d: "d = take (n + 16) (drop 16 dec @ sfx)"
    using check_decrypted_v2_D [OF acc v(1)] v(2)
    unfolding header_size.simps prefix_size.simps da n_def [symmetric] ta by auto
  have hk: "bytes_at 8 16 (hdr @ dec @ sfx) = bytes_at 8 16 hdr" "length (bytes_at 8 16 hdr) = 16"
    using hdr by (simp add: bytes_at_append_left) (simp add: bytes_at_def hdr)
  have rk: "rk = bytes_at 8 16 hdr"
    using kb hk message_key_length(2) [OF laws k2] by (simp add: is_key_bad_iff)
  have ld: "length dec mod 4 = 0" using dec(2) by presburger
  have nd: "n + 16 \<le> length dec - 16"
  proof (rule ccontr)
    assume "\<not> ?thesis"
    then have "length dec < n + 32" using dec(1) by linarith
    moreover have "n + 29 \<le> length dec" using sz sfx dec(1) by linarith
    ultimately show False using ld m4 by presburger
  qed
  then have d': "d = take (n + 16) (drop 16 dec)" using d by simp
  then have "dec = take 16 dec @ d @ drop (n + 16) (drop 16 dec)" by (simp only: append_take_drop_id)
  moreover have "16 \<le> length d" using d' nd by simp
  ultimately show ?thesis using k2 rk by blast
qed

section \<open>Reading returns\<close>

lemma transport_read_returns [abort_free]:
  assumes "crypto_laws L" and "pi_version info = 1 \<or> pi_version info = 2"
    and "length (ak_key k) = 256 \<or> ak_key k = [] \<and> pi_type info = Common"
  shows "\<exists>r info'. transport_read L message k info = Some (r, info')"
proof (cases "length message < 16")
  case False
  let ?info = "info\<lparr>pi_no_crypto_flag := (u64_of_bytes (take 8 message) = 0)\<rparr>"
  have impl: "\<exists>r m info'. read_crypto_impl L h X message k ?info = Some (r, m, info') \<and> (\<forall>d. r = Inr d \<longrightarrow> d \<noteq> [])"
    if "length (ak_key k) = 256" "X \<le> 8" for h X
    using read_crypto_impl_returns [OF assms(1) that, of ?info h message] assms(2) by simp
  have e2e: "\<exists>r i. read_e2e_crypto L message k ?info = Some (r, i) \<and> (\<forall>d. r = Inr d \<longrightarrow> d \<noteq> [])"
    if "length (ak_key k) = 256"
    using impl [OF that, of "if pi_is_creator ?info \<and> pi_version ?info \<noteq> 1 then 8 else 0" EndToEndHeader]
    by (auto simp: read_e2e_crypto_def split: sum.splits)
  have com: "\<exists>r i. read_crypto L message k ?info = Some (r, i) \<and> (\<forall>d. r = Inr d \<longrightarrow> d \<noteq> [])"
    if "length (ak_key k) = 256"
    using impl [OF that, of 8 CryptoHeader] by (auto simp: read_crypto_def split: sum.splits)
  have no: "\<exists>r. read_no_crypto message = Some r \<and> (\<forall>d. r = Inr d \<longrightarrow> d \<noteq> [])"
    using False by (auto simp: read_no_crypto_def calc_no_crypto_size_def)
  have fin: "\<exists>r i. (case x of None \<Rightarrow> None | Some (Inl st, info') \<Rightarrow> Some (Inl st, info')
      | Some (Inr data, info') \<Rightarrow> map_option (\<lambda>p. (Inr p, info')) (make_packet data)) = Some (r, i)"
    if "\<exists>r i. x = Some (r, i) \<and> (\<forall>d. r = Inr d \<longrightarrow> d \<noteq> [])" for x :: "(bytes result \<times> packet_info) option"
    using that by (auto simp: make_packet_def split: sum.splits)
  show ?thesis
    unfolding transport_read_def Let_def if_not_P [OF False]
    by (rule fin) (use e2e com no assms(3) in \<open>auto simp: ak_empty_def\<close>)
qed (auto simp: transport_read_def Let_def)

end
