(* ===== verification/MtProps.thy ===== *)
theory MtProps
  imports MtTransport
begin

text \<open>
  The properties of packets: reading never aborts, what one side writes the other reads, padding
  stays within the limits, and everything that is delivered was authenticated.
\<close>

section \<open>Properties\<close>



text \<open>
  C23. The padding a writer adds always satisfies the reader's checks: the packet
  holds header and data, its encrypted part is a whole number of cipher blocks, the padding is at
  most 1024 bytes, and in version 2 at least 12.
\<close>

theorem padding_accepted:
  "header_size h + n \<le> padded_packet_size h rnd n info \<and>
   (padded_packet_size h rnd n info - 24) mod 16 = 0 \<and>
   padded_packet_size h rnd n info - (header_size h + n) \<le> 1024 \<and>
   (if pi_version info = 1 then True else 12 \<le> padded_packet_size h rnd n info - (header_size h + n))"
  using padded_packet_size_bounds by simp

text \<open>
  C22. What one side of an end-to-end chat writes, in protocol version 1 or 2, the other
  side reads back as the same data with the same acknowledgement word: creator and participant use
  matching halves of the key, and the padding, the lengths and the message key pass all checks.
\<close>

theorem e2e_roundtrip:
  assumes "crypto_laws L" and "length (ak_key k) = 256"
    and "run_unsafe storer [] = Some (bytes_of_u32 (of_nat (length body)) @ body)"
    and "length body < 2 ^ 32" and "length body mod 4 = 0" and "\<forall>n. length (pad n) = n"
    and "pi_version info = 1 \<or> pi_version info = 2" and "pi_type info = EndToEnd"
  shows "\<exists>packet ack. transport_write L rnd pad storer k info = Some (packet, info\<lparr>pi_message_ack := ack\<rparr>) \<and>
    transport_read L packet k (info\<lparr>pi_is_creator := \<not> pi_is_creator info\<rparr>) =
      Some (Inr (RPacket (bytes_of_u32 (of_nat (length body)) @ body)),
        info\<lparr>pi_is_creator := \<not> pi_is_creator info, pi_no_crypto_flag := (ak_id k = 0), pi_message_ack := ack\<rparr>)"
proof -
  let ?data = "bytes_of_u32 (of_nat (length body)) @ body"
  let ?X = "if pi_is_creator info \<or> pi_version info = 1 then 0 else 8 :: nat"
  let ?r = "info\<lparr>pi_is_creator := \<not> pi_is_creator info, pi_no_crypto_flag := (ak_id k = 0)\<rparr>"
  have u: "unat (of_nat (length body) :: u32) = length body" using assms(4) by (simp add: unat_of_nat)
  have gp: "good_prefix EndToEndHeader ?data"
    using u by (simp add: good_prefix_def bytes_at_def)
  have Xle: "?X \<le> 8" and eh: "length [] = encrypted_header_size EndToEndHeader" and pad: "\<And>n. length (pad n) = n"
    and rv: "pi_version ?r = pi_version info" and rp: "pi_use_random_padding ?r = pi_use_random_padding info"
    using assms(6) by simp_all
  have m4: "(length ?data - prefix_size EndToEndHeader) mod 4 = 0" using assms(5) by simp
  obtain packet message' ack where w: "write_crypto_impl L EndToEndHeader ?X storer k info [] pad (length ?data)
        (padded_packet_size EndToEndHeader rnd (length ?data) info) = Some (packet, info\<lparr>pi_message_ack := ack\<rparr>)"
      "header_size EndToEndHeader + length ?data \<le> length packet" "take 8 packet = bytes_of_u64 (ak_id k)"
      "read_crypto_impl L EndToEndHeader ?X packet k ?r = Some (Inr ?data, message', ?r\<lparr>pi_message_ack := ack\<rparr>)"
    using read_write_impl [OF assms(1,2) Xle assms(3) eh pad assms(7) gp m4 rv rp, of rnd] by blast
  have cs: "run_calc storer 0 = Some (length ?data)" using run_calc_unsafe(2) [OF assms(3)] by simp
  have X: "(if pi_is_creator ?r \<and> pi_version ?r \<noteq> 1 then 8 else 0) = ?X" by simp
  have "transport_write L rnd pad storer k info = Some (packet, info\<lparr>pi_message_ack := ack\<rparr>)"
    using assms(8) w(1) cs by (simp add: transport_write_def write_e2e_crypto_def)
  moreover have "read_e2e_crypto L packet k ?r = Some (Inr ?data, ?r\<lparr>pi_message_ack := ack\<rparr>)"
    unfolding read_e2e_crypto_def X w(4) using assms(8) by simp
  then have "transport_read L packet k (info\<lparr>pi_is_creator := \<not> pi_is_creator info\<rparr>) =
      Some (Inr (RPacket ?data), ?r\<lparr>pi_message_ack := ack\<rparr>)"
    using w(2,3) assms(8) by (simp add: transport_read_def make_packet_def)
  ultimately show ?thesis by auto
qed

theorem e2e_roundtrip_witness:
  "\<exists>packet ack. transport_write toy_lib 0 (\<lambda>n. replicate n 7) [StoreBinary (bytes_of_u32 4), StoreSlice [1, 2, 3, 4]]
      (auth_key_of 1 (replicate 256 3)) (packet_info_init\<lparr>pi_type := EndToEnd, pi_version := 2\<rparr>) =
      Some (packet, packet_info_init\<lparr>pi_type := EndToEnd, pi_version := 2, pi_message_ack := ack\<rparr>) \<and>
    transport_read toy_lib packet (auth_key_of 1 (replicate 256 3))
      (packet_info_init\<lparr>pi_type := EndToEnd, pi_version := 2, pi_is_creator := True\<rparr>) =
      Some (Inr (RPacket (bytes_of_u32 4 @ [1, 2, 3, 4])),
        packet_info_init\<lparr>pi_type := EndToEnd, pi_version := 2, pi_is_creator := True, pi_message_ack := ack\<rparr>)"
  using e2e_roundtrip [OF toy_laws, of "auth_key_of 1 (replicate 256 3)"
      "[StoreBinary (bytes_of_u32 4), StoreSlice [1, 2, 3, 4]]" "[1, 2, 3, 4]" "\<lambda>n. replicate n 7"
      "packet_info_init\<lparr>pi_type := EndToEnd, pi_version := 2\<rparr>" 0]
  by (simp add: auth_key_of_def packet_info_init_def)

lemma server_packet_read_impl:
  assumes "crypto_laws L" and "length (ak_key k) = 256" and "ak_id k \<noteq> 0"
    and "data = bytes_of_u64 msg_id @ bytes_of_u32 seq_no @ bytes_of_u32 (of_nat (length body)) @ body"
    and "length body < 2 ^ 32" and "length body mod 4 = 0" and "\<forall>n. length (pad n) = n"
    and "pi_version info = 1 \<or> pi_version info = 2" and "pi_type info = Common"
  shows "\<exists>packet ack. write_crypto_impl L CryptoHeader 8 [StoreSlice data] k info (bytes_of_u64 salt @ bytes_of_u64 session)
      pad (length data) (padded_packet_size CryptoHeader rnd (length data) info) =
        Some (packet, info\<lparr>pi_message_ack := ack\<rparr>) \<and> take 8 packet = bytes_of_u64 (ak_id k) \<and>
    transport_read L packet k info = Some (Inr (RPacket data),
      info\<lparr>pi_no_crypto_flag := False, pi_message_ack := ack, pi_salt := salt, pi_session_id := session,
           pi_message_id := msg_id, pi_seq_no := seq_no\<rparr>)"
proof -
  let ?eh = "bytes_of_u64 salt @ bytes_of_u64 session"
  let ?r = "info\<lparr>pi_no_crypto_flag := False\<rparr>"
  have st: "run_unsafe [StoreSlice data] [] = Some data" by simp
  have u: "unat (of_nat (length body) :: u32) = length body" using assms(5) by (simp add: unat_of_nat)
  have gp: "good_prefix CryptoHeader data"
    unfolding assms(4) using u by (simp add: good_prefix_def bytes_at_def)
  have X: "(8 :: nat) \<le> 8" and eh: "length ?eh = encrypted_header_size CryptoHeader"
    and pad: "\<And>n. length (pad n) = n" and rv: "pi_version ?r = pi_version info"
    and rp: "pi_use_random_padding ?r = pi_use_random_padding info"
    using assms(7) by simp_all
  have m4: "(length data - prefix_size CryptoHeader) mod 4 = 0" using assms(4,6) by simp
  obtain packet message' ack hdr rest where w: "write_crypto_impl L CryptoHeader 8 [StoreSlice data] k info ?eh pad
      (length data) (padded_packet_size CryptoHeader rnd (length data) info) = Some (packet, info\<lparr>pi_message_ack := ack\<rparr>)"
    "header_size CryptoHeader + length data \<le> length packet" "take 8 packet = bytes_of_u64 (ak_id k)"
    "read_crypto_impl L CryptoHeader 8 packet k ?r = Some (Inr data, message', ?r\<lparr>pi_message_ack := ack\<rparr>)"
    "length hdr = 24" "message' = hdr @ ?eh @ data @ rest"
    using read_write_impl [OF assms(1,2) X st eh pad assms(8) gp m4 rv rp, of rnd] by blast
  have f: "u64_of_bytes (bytes_at 24 8 message') = salt" "u64_of_bytes (bytes_at 32 8 message') = session"
    "u64_of_bytes (bytes_at 40 8 message') = msg_id" "u32_of_bytes (bytes_at 48 4 message') = seq_no"
    unfolding w(6) assms(4) using w(5) by (simp_all add: bytes_at_def)
  have "read_crypto L packet k ?r = Some (Inr data, ?r\<lparr>pi_message_ack := ack, pi_salt := salt,
      pi_session_id := session, pi_message_id := msg_id, pi_seq_no := seq_no\<rparr>)"
    unfolding read_crypto_def w(4) option.case prod.case sum.case f using assms(9) by simp
  moreover have "data \<noteq> []" using assms(4) by simp
  moreover have "\<not> length packet < 16" "\<not> ak_empty k" using w(2) assms(2) by (auto simp: ak_empty_def)
  ultimately have "transport_read L packet k info = Some (Inr (RPacket data),
      info\<lparr>pi_no_crypto_flag := False, pi_message_ack := ack, pi_salt := salt, pi_session_id := session,
           pi_message_id := msg_id, pi_seq_no := seq_no\<rparr>)"
    using w(3) assms(3,9) by (simp add: transport_read_def make_packet_def)
  then show ?thesis using w(1,3) by blast
qed

text \<open>
  C21. A packet built as the server builds it (key half at offset 8, salt and session
  in the encrypted header, message id, sequence number and length in front of the body) is delivered
  by \<open>Transport::read\<close> with its data, and the packet information carries exactly its salt,
  session, message id and sequence number.
\<close>

theorem server_packet_read:
  assumes "crypto_laws L" and "length (ak_key k) = 256" and "ak_id k \<noteq> 0"
    and "data = bytes_of_u64 msg_id @ bytes_of_u32 seq_no @ bytes_of_u32 (of_nat (length body)) @ body"
    and "length body < 2 ^ 32" and "length body mod 4 = 0" and "\<forall>n. length (pad n) = n"
    and "pi_version info = 1 \<or> pi_version info = 2" and "pi_type info = Common"
  shows "\<exists>packet ack. write_crypto_impl L CryptoHeader 8 [StoreSlice data] k info (bytes_of_u64 salt @ bytes_of_u64 session)
      pad (length data) (padded_packet_size CryptoHeader rnd (length data) info) =
        Some (packet, info\<lparr>pi_message_ack := ack\<rparr>) \<and>
    transport_read L packet k info = Some (Inr (RPacket data),
      info\<lparr>pi_no_crypto_flag := False, pi_message_ack := ack, pi_salt := salt, pi_session_id := session,
           pi_message_id := msg_id, pi_seq_no := seq_no\<rparr>)"
  using server_packet_read_impl [OF assms] by blast

theorem server_packet_read_witness:
  "let data = bytes_of_u64 5 @ bytes_of_u32 1 @ bytes_of_u32 4 @ [1, 2, 3, 4];
       info = packet_info_init\<lparr>pi_version := 2\<rparr>; k = auth_key_of 1 (replicate 256 3) in
   \<exists>packet ack. write_crypto_impl toy_lib CryptoHeader 8 [StoreSlice data] k info (bytes_of_u64 11 @ bytes_of_u64 22)
      (\<lambda>n. replicate n 0) (length data) (padded_packet_size CryptoHeader 0 (length data) info) =
        Some (packet, info\<lparr>pi_message_ack := ack\<rparr>) \<and>
    transport_read toy_lib packet k info = Some (Inr (RPacket data),
      info\<lparr>pi_no_crypto_flag := False, pi_message_ack := ack, pi_salt := 11, pi_session_id := 22,
           pi_message_id := 5, pi_seq_no := 1\<rparr>)"
  unfolding Let_def
  by (rule server_packet_read [OF toy_laws, of _ _ 5 1 "[1, 2, 3, 4]"])
    (simp_all add: auth_key_of_def packet_info_init_def)



end
