(* ===== verification/Tcp.thy ===== *)
theory Tcp
  imports Crypto
begin

text \<open>
  Stream framing: \<open>td/mtproto/TcpTransport.h\<close>, \<open>TcpTransport.cpp\<close>,
  \<open>TlsReaderByteFlow.cpp\<close>, the part of \<open>ProxySecret.h\<close> they use, and the byte flow loop of
  \<open>tdutils/td/utils/ByteFlow.h\<close> that drives the readers.  Buffers are byte lists.
\<close>

section \<open>Proxy secrets\<close>

definition get_proxy_secret :: "bytes \<Rightarrow> bytes" where
  "get_proxy_secret secret = (if length secret \<ge> 17 then take 16 (drop 1 secret) else secret)"

definition use_random_padding :: "bytes \<Rightarrow> bool" where
  "use_random_padding secret \<longleftrightarrow> length secret \<ge> 17"

definition emulate_tls :: "bytes \<Rightarrow> bool" where
  "emulate_tls secret \<longleftrightarrow> length secret \<ge> 17 \<and> secret ! 0 = 0xee"

definition MAX_DOMAIN_LENGTH :: nat where "MAX_DOMAIN_LENGTH = 182"

definition get_domain :: "bytes \<Rightarrow> bytes option" where
  "get_domain secret = (if emulate_tls secret then Some (drop 17 secret) else None)"

definition from_binary :: "bytes \<Rightarrow> bool \<Rightarrow> bytes result" where
  "from_binary raw0 truncate_if_needed =
     (if length raw0 > 17 + MAX_DOMAIN_LENGTH \<and> \<not> truncate_if_needed then Inl (Error 400 ''Too long secret'')
      else (let raw = (if length raw0 > 17 + MAX_DOMAIN_LENGTH then take (17 + MAX_DOMAIN_LENGTH) raw0 else raw0)
            in if length raw = 16 \<or> (length raw = 17 \<and> raw ! 0 = 0xdd) \<or> (length raw \<ge> 18 \<and> raw ! 0 = 0xee)
               then Inr raw
               else if length raw < 16 then Inl (Error 400 ''Wrong proxy secret'')
               else Inl (Error 400 ''Unsupported proxy secret'')))"

section \<open>Intermediate transport\<close>

text \<open>
  The result of \<open>read_from_stream\<close>: the number of bytes it waits for (0 when it consumed a
  frame), the message and the quick acknowledgement it stored, and the rest of the stream.
\<close>

definition read_from_stream :: "bytes \<Rightarrow> nat \<times> bytes option \<times> u32 option \<times> bytes" where
  "read_from_stream stream =
     (if length stream < 4 then (4, None, None, stream)
      else (let data_size = u32_of_bytes (take 4 stream) in
            if bit data_size 31 then (0, None, Some data_size, drop 4 stream)
            else (let total_size = unat data_size + 4 in
                  if length stream < total_size then (total_size, None, None, stream)
                  else (0, Some (take (unat data_size) (drop 4 stream)), None, drop (unat data_size) (drop 4 stream)))))"

text \<open>
  \<open>prepend_room\<close> and \<open>append_room\<close> are the free bytes around the message in its buffer;
  \<open>rnd\<close> is \<open>Random::secure_uint32()\<close> and \<open>pad\<close> the source of \<open>Random::secure_bytes\<close>.
\<close>

definition write_prepare_inplace ::
  "bool \<Rightarrow> u32 \<Rightarrow> (nat \<Rightarrow> bytes) \<Rightarrow> nat \<Rightarrow> nat \<Rightarrow> bytes \<Rightarrow> bool \<Rightarrow> bytes option" where
  "write_prepare_inplace with_padding rnd pad prepend_room append_room message quick_ack =
     (let sz = length message in
      if sz mod 4 \<noteq> 0 \<or> sz \<ge> 2 ^ 24 \<or> prepend_room < 4 then None
      else (let size_word = (of_nat sz :: u64) OR (if quick_ack then push_bit 31 1 else 0);
                append_size = (if with_padding then unat (rnd mod 16) else 0)
            in if append_room < append_size then None
               else Some (bytes_of_u32 (ucast (size_word + of_nat append_size)) @ message @ pad append_size)))"

definition intermediate_magic :: "bool \<Rightarrow> u32" where
  "intermediate_magic with_padding = (if with_padding then 0xdddddddd else 0xeeeeeeee)"

definition init_output_stream :: "bool \<Rightarrow> bytes" where
  "init_output_stream with_padding = bytes_of_u32 (intermediate_magic with_padding)"

section \<open>Emulated TLS records\<close>

text \<open>A byte flow with the default options: it reads when \<open>need_size\<close> bytes are there.\<close>

record tls_flow =
  tf_input :: bytes
  tf_output :: bytes
  tf_need_size :: nat
  tf_stop :: bool
  tf_status :: status

definition tls_flow_init :: tls_flow where
  "tls_flow_init = \<lparr>tf_input = [], tf_output = [], tf_need_size = 0, tf_stop = False, tf_status = OK\<rparr>"

definition tls_loop :: "tls_flow \<Rightarrow> bool \<times> tls_flow" where
  "tls_loop f =
     (if length (tf_input f) < 5 then (False, f\<lparr>tf_need_size := 5\<rparr>)
      else (let buf = take 5 (tf_input f); it = drop 5 (tf_input f) in
            if take 3 buf \<noteq> [0x17, 0x03, 0x03]
            then (False, f\<lparr>tf_stop := True, tf_need_size := 0,
                    tf_status := Err ''Invalid bytes at the beginning of a packet (emulated tls)''\<rparr>)
            else (let len = unat (buf ! 3) * 256 + unat (buf ! 4) in
                  if length it < len then (False, f\<lparr>tf_need_size := 5 + len\<rparr>)
                  else (True, f\<lparr>tf_output := tf_output f @ take len it, tf_input := drop len it\<rparr>))))"

text \<open>The loop of \<open>ByteFlowBaseCommon::wakeup\<close>.\<close>

function tls_wakeup :: "tls_flow \<Rightarrow> tls_flow" where
  "tls_wakeup f =
     (if tf_stop f \<or> length (tf_input f) < tf_need_size f then f
      else (case tls_loop (f\<lparr>tf_need_size := 0\<rparr>) of
              (True, f') \<Rightarrow> tls_wakeup f'
            | (False, f') \<Rightarrow>
                tls_wakeup (if tf_need_size f' \<le> length (tf_input f')
                            then f'\<lparr>tf_need_size := length (tf_input f') + 1\<rparr> else f')))"
  by pat_completeness auto
termination
proof (relation "measure (\<lambda>f. 2 * length (tf_input f) +
    (if tf_stop f \<or> length (tf_input f) < tf_need_size f then 0 else 1))")
qed (auto simp: tls_loop_def Let_def split: if_splits)

declare tls_wakeup.simps [simp del]

section \<open>Obfuscated transport\<close>

record obfuscated =
  ot_dc_id :: u16
  ot_is_first_tls_packet :: bool
  ot_secret :: bytes
  ot_header :: bytes
  ot_tls :: tls_flow
  ot_input :: bytes
  ot_input_state :: ctr_state
  ot_sink :: bytes
  ot_output_state :: ctr_state
  ot_output :: bytes

definition header_allowed :: "bool \<Rightarrow> bytes \<Rightarrow> bool" where
  "header_allowed tls header \<longleftrightarrow> tls \<or>
     (header ! 0 \<noteq> 0xef \<and>
      u32_of_bytes (take 4 header) \<notin> {0x44414548, 0x54534f50, 0x20544547, 0x4954504f,
         0xdddddddd, 0xeeeeeeee, 0x02010316} \<and>
      u32_of_bytes (take 4 (drop 4 header)) \<noteq> 0)"

text \<open>The successive results of \<open>Random::secure_bytes\<close>; the \<open>CHECK\<close> fails at the tenth try.\<close>

fun pick_header :: "bool \<Rightarrow> nat \<Rightarrow> bytes list \<Rightarrow> bytes option" where
  "pick_header tls try_cnt [] = None"
| "pick_header tls try_cnt (h # hs) =
     (if \<not> try_cnt + 1 < 10 then None
      else if header_allowed tls h then Some h
      else pick_header tls (try_cnt + 1) hs)"

definition fix_key :: "crypto_lib \<Rightarrow> bytes \<Rightarrow> bytes \<Rightarrow> bytes" where
  "fix_key L proxy_secret key = (if proxy_secret = [] then key else lib_sha256 L (key @ proxy_secret))"

definition bytes_of_u16 :: "u16 \<Rightarrow> bytes" where
  "bytes_of_u16 x = le_bytes 2 (unat x)"

definition tagged_header :: "bool \<Rightarrow> u16 \<Rightarrow> bytes \<Rightarrow> bytes" where
  "tagged_header with_padding dc_id h =
     take 56 h @ bytes_of_u32 (intermediate_magic with_padding)
       @ (if dc_id \<noteq> 0 then bytes_of_u16 dc_id else take 2 (drop 60 h)) @ drop 62 h"

definition obfuscated_init :: "crypto_lib \<Rightarrow> u16 \<Rightarrow> bytes \<Rightarrow> bytes list \<Rightarrow> obfuscated option" where
  "obfuscated_init L dc_id secret rnds =
     (case pick_header (emulate_tls secret) 0 rnds of None \<Rightarrow> None
      | Some h \<Rightarrow>
        (let header = tagged_header (use_random_padding secret) dc_id h;
             rheader = rev header;
             proxy_secret = get_proxy_secret secret
         in case ctr_init (fix_key L proxy_secret (bytes_at 8 32 rheader)) (bytes_at 40 16 rheader) of
              None \<Rightarrow> None
            | Some input_state \<Rightarrow>
              (case ctr_init (fix_key L proxy_secret (bytes_at 8 32 header)) (bytes_at 40 16 header) of
                 None \<Rightarrow> None
               | Some output_state \<Rightarrow>
                 (case ctr_encrypt L header output_state of
                    None \<Rightarrow> None
                  | Some (encrypted, output_state') \<Rightarrow>
                    Some \<lparr>ot_dc_id = dc_id, ot_is_first_tls_packet = True, ot_secret = secret,
                          ot_header = take 56 header @ drop 56 encrypted, ot_tls = tls_flow_init,
                          ot_input = [], ot_input_state = input_state, ot_sink = [],
                          ot_output_state = output_state', ot_output = []\<rparr>))))"

definition MAX_TLS_PACKET_LENGTH :: nat where "MAX_TLS_PACKET_LENGTH = 2878"

definition do_write :: "bytes \<Rightarrow> obfuscated \<Rightarrow> obfuscated" where
  "do_write message st = st\<lparr>ot_output := ot_output st @ message\<rparr>"

definition do_write_main :: "bytes \<Rightarrow> obfuscated \<Rightarrow> obfuscated" where
  "do_write_main message st = do_write (ot_header st @ message) (st\<lparr>ot_header := []\<rparr>)"

definition do_write_tls_builder :: "bytes \<Rightarrow> obfuscated \<Rightarrow> obfuscated option" where
  "do_write_tls_builder message st =
     (let builder = ot_header st @ message; sz = length builder in
      if sz > MAX_TLS_PACKET_LENGTH then None
      else (let builder = [0x17, 0x03, 0x03, of_nat (sz div 256 mod 256), of_nat (sz mod 256)] @ builder;
                builder = (if ot_is_first_tls_packet st then [0x14, 0x03, 0x03, 0x00, 0x01, 0x01] @ builder else builder)
            in Some (do_write builder (st\<lparr>ot_header := [], ot_is_first_tls_packet := False\<rparr>))))"

text \<open>With an empty chunk the loop would not make progress; a header of at least
  \<open>MAX_TLS_PACKET_LENGTH\<close> bytes does not occur (it has 64).\<close>

function do_write_tls_chunks :: "bytes \<Rightarrow> obfuscated \<Rightarrow> obfuscated option" where
  "do_write_tls_chunks sl st =
     (if sl = [] then Some st
      else if length (ot_header st) \<ge> MAX_TLS_PACKET_LENGTH then None
      else (let n = MAX_TLS_PACKET_LENGTH - length (ot_header st) in
            case do_write_tls_builder (take n sl) st of
              None \<Rightarrow> None | Some st' \<Rightarrow> do_write_tls_chunks (drop n sl) st'))"
  by pat_completeness auto
termination
proof (relation "measure (\<lambda>(sl, st). length sl)")
qed (auto simp flip: length_greater_0_conv)

declare do_write_tls_chunks.simps [simp del]

definition do_write_tls :: "bytes \<Rightarrow> obfuscated \<Rightarrow> obfuscated option" where
  "do_write_tls message st =
     (if length (ot_header st) > MAX_TLS_PACKET_LENGTH then None
      else if length message + length (ot_header st) > MAX_TLS_PACKET_LENGTH
      then do_write_tls_chunks message st
      else do_write_tls_builder message st)"

definition max_prepend_size :: "obfuscated \<Rightarrow> nat" where
  "max_prepend_size st =
     (let res = 4 + (if emulate_tls (ot_secret st) then 5 + (if ot_is_first_tls_packet st then 6 else 0) else 0)
                + length (ot_header st)
      in if res mod 4 \<noteq> 0 then res + (4 - res mod 4) else res)"

definition max_append_size :: nat where "max_append_size = 15"

definition obfuscated_write ::
  "crypto_lib \<Rightarrow> u32 \<Rightarrow> (nat \<Rightarrow> bytes) \<Rightarrow> bytes \<Rightarrow> bool \<Rightarrow> obfuscated \<Rightarrow> obfuscated option" where
  "obfuscated_write L rnd pad message quick_ack st =
     (case write_prepare_inplace (use_random_padding (ot_secret st)) rnd pad (max_prepend_size st) max_append_size
             message quick_ack of
        None \<Rightarrow> None
      | Some frame \<Rightarrow>
        (case ctr_encrypt L frame (ot_output_state st) of
           None \<Rightarrow> None
         | Some (encrypted, state') \<Rightarrow>
           (let st' = st\<lparr>ot_output_state := state'\<rparr>
            in if emulate_tls (ot_secret st') then do_write_tls encrypted st'
               else Some (do_write_main encrypted st'))))"

text \<open>
  \<open>AesCtrByteFlow::loop\<close> decrypts in place whatever has arrived; how the input is cut into
  buffers does not matter for a stream cipher.
\<close>

definition aes_ctr_flow :: "crypto_lib \<Rightarrow> bytes \<Rightarrow> obfuscated \<Rightarrow> obfuscated option" where
  "aes_ctr_flow L ready st =
     (if ready = [] then Some st
      else (case ctr_encrypt L ready (ot_input_state st) of
              None \<Rightarrow> None
            | Some (plain, state') \<Rightarrow> Some (st\<lparr>ot_input_state := state', ot_sink := ot_sink st @ plain\<rparr>)))"

text \<open>When the reader closes its input with an error, \<open>finish\<close> also stops the cipher flow behind
  it, which then never sees the records accepted in the same call.\<close>

definition obfuscated_wakeup :: "crypto_lib \<Rightarrow> obfuscated \<Rightarrow> obfuscated option" where
  "obfuscated_wakeup L st =
     (if emulate_tls (ot_secret st)
      then (let f = tls_wakeup (ot_tls st)
            in if tf_stop f then Some (st\<lparr>ot_tls := f\<rparr>)
               else aes_ctr_flow L (tf_output f) (st\<lparr>ot_tls := f\<lparr>tf_output := []\<rparr>\<rparr>))
      else aes_ctr_flow L (ot_input st) (st\<lparr>ot_input := []\<rparr>))"

text \<open>Bytes from the socket become visible to the flow.\<close>

definition receive_bytes :: "bytes \<Rightarrow> obfuscated \<Rightarrow> obfuscated" where
  "receive_bytes bs st =
     (if emulate_tls (ot_secret st) then st\<lparr>ot_tls := (ot_tls st)\<lparr>tf_input := tf_input (ot_tls st) @ bs\<rparr>\<rparr>
      else st\<lparr>ot_input := ot_input st @ bs\<rparr>)"

definition obfuscated_read_next ::
  "crypto_lib \<Rightarrow> obfuscated \<Rightarrow> (nat \<times> bytes option \<times> u32 option \<times> obfuscated) option" where
  "obfuscated_read_next L st =
     (case obfuscated_wakeup L st of None \<Rightarrow> None
      | Some st' \<Rightarrow> (case read_from_stream (ot_sink st') of
          (wait_size, message, quick_ack, rest) \<Rightarrow> Some (wait_size, message, quick_ack, st'\<lparr>ot_sink := rest\<rparr>)))"

end
