(* ===== verification/RawConn.thy ===== *)
theory RawConn
  imports MtTransport Tcp
begin

text \<open>
  \<open>td/mtproto/RawConnection.cpp\<close> (\<open>RawConnectionDefault\<close>) over the two stream
  transports of \<open>td/mtproto/TcpTransport.h\<close>.  The socket is the sequence of byte strings it
  delivers; the statistics callback and the packet callback are modelled by their effects.
\<close>

section \<open>Stream transports\<close>

record old_transport =
  old_input :: bytes
  old_output :: bytes

definition old_init :: old_transport where
  "old_init = \<lparr>old_input = [], old_output = init_output_stream False\<rparr>"

definition old_read_next :: "old_transport \<Rightarrow> nat \<times> bytes option \<times> u32 option \<times> old_transport" where
  "old_read_next t = (case read_from_stream (old_input t) of
     (w, message, quick_ack, rest) \<Rightarrow> (w, message, quick_ack, t\<lparr>old_input := rest\<rparr>))"

definition old_write :: "u32 \<Rightarrow> (nat \<Rightarrow> bytes) \<Rightarrow> bytes \<Rightarrow> bool \<Rightarrow> old_transport \<Rightarrow> old_transport option" where
  "old_write rnd pad message quick_ack t =
     map_option (\<lambda>frame. t\<lparr>old_output := old_output t @ frame\<rparr>)
       (write_prepare_inplace False rnd pad 4 15 message quick_ack)"

text \<open>\<open>IStreamTransport\<close>: the calls are dispatched on the implementation.\<close>

datatype stream_transport = OldTransport old_transport | ObfuscatedTransport obfuscated

fun tr_read_next ::
  "crypto_lib \<Rightarrow> stream_transport \<Rightarrow> (nat \<times> bytes option \<times> u32 option \<times> stream_transport) option" where
  "tr_read_next L (OldTransport t) =
     (case old_read_next t of (w, m, q, t') \<Rightarrow> Some (w, m, q, OldTransport t'))"
| "tr_read_next L (ObfuscatedTransport t) =
     map_option (\<lambda>(w, m, q, t'). (w, m, q, ObfuscatedTransport t')) (obfuscated_read_next L t)"

fun tr_write ::
  "crypto_lib \<Rightarrow> u32 \<Rightarrow> (nat \<Rightarrow> bytes) \<Rightarrow> bytes \<Rightarrow> bool \<Rightarrow> stream_transport \<Rightarrow> stream_transport option" where
  "tr_write L rnd pad message q (OldTransport t) = map_option OldTransport (old_write rnd pad message q t)"
| "tr_write L rnd pad message q (ObfuscatedTransport t) =
     map_option ObfuscatedTransport (obfuscated_write L rnd pad message q t)"

fun tr_use_random_padding :: "stream_transport \<Rightarrow> bool" where
  "tr_use_random_padding (OldTransport t) = False"
| "tr_use_random_padding (ObfuscatedTransport t) = use_random_padding (ot_secret t)"

fun tr_receive :: "bytes \<Rightarrow> stream_transport \<Rightarrow> stream_transport" where
  "tr_receive bs (OldTransport t) = OldTransport (t\<lparr>old_input := old_input t @ bs\<rparr>)"
| "tr_receive bs (ObfuscatedTransport t) = ObfuscatedTransport (receive_bytes bs t)"

section \<open>Raw connection\<close>

datatype stats_event = StatRead nat | StatWrite nat | StatPong | StatError | StatMtprotoError

record raw_connection =
  rc_transport :: stream_transport
  rc_quick_ack_to_token :: "u32 \<rightharpoonup> u64"
  rc_has_error :: bool
  rc_stats :: "stats_event list"

text \<open>\<open>RawConnection::Callback\<close>, acting on a client state; \<open>before_write\<close> may send.\<close>

record 'c rc_callback =
  cb_on_raw_packet :: "packet_info \<Rightarrow> bytes \<Rightarrow> 'c \<Rightarrow> status \<times> 'c"
  cb_on_quick_ack :: "u64 \<Rightarrow> 'c \<Rightarrow> 'c"
  cb_before_write :: "'c \<Rightarrow> raw_connection \<Rightarrow> status \<times> 'c \<times> raw_connection"
  cb_on_read :: "nat \<Rightarrow> 'c \<Rightarrow> 'c"

definition stat :: "stats_event \<Rightarrow> raw_connection \<Rightarrow> raw_connection" where
  "stat e c = c\<lparr>rc_stats := rc_stats c @ [e]\<rparr>"

definition send_crypto ::
  "crypto_lib \<Rightarrow> u32 \<Rightarrow> (nat \<Rightarrow> bytes) \<Rightarrow> u32 \<Rightarrow> (nat \<Rightarrow> bytes) \<Rightarrow> store_call list \<Rightarrow> u64 \<Rightarrow> u64 \<Rightarrow> auth_key \<Rightarrow> u64
    \<Rightarrow> raw_connection \<Rightarrow> (nat \<times> raw_connection) option" where
  "send_crypto L rnd pad frnd fpad storer session_id salt auth_key quick_ack_token c =
     (let info = packet_info_init\<lparr>pi_version := 2, pi_no_crypto_flag := False, pi_salt := salt,
             pi_session_id := session_id, pi_use_random_padding := tr_use_random_padding (rc_transport c)\<rparr>
      in case transport_write L rnd pad storer auth_key info of
           None \<Rightarrow> None
         | Some (packet, info') \<Rightarrow>
           (let ack = pi_message_ack info' in
            if quick_ack_token \<noteq> 0 \<and> \<not> bit ack 31 then None
            else (let fresh = rc_quick_ack_to_token c ack = None;
                      use_quick_ack = (quick_ack_token \<noteq> 0 \<and> fresh);
                      c' = (if use_quick_ack
                            then c\<lparr>rc_quick_ack_to_token := (rc_quick_ack_to_token c)(ack \<mapsto> quick_ack_token)\<rparr> else c)
                  in map_option (\<lambda>t. (length packet, c'\<lparr>rc_transport := t\<rparr>))
                       (tr_write L frnd fpad packet use_quick_ack (rc_transport c')))))"

definition send_no_crypto ::
  "crypto_lib \<Rightarrow> u32 \<Rightarrow> (nat \<Rightarrow> bytes) \<Rightarrow> u32 \<Rightarrow> (nat \<Rightarrow> bytes) \<Rightarrow> store_call list
    \<Rightarrow> raw_connection \<Rightarrow> raw_connection option" where
  "send_no_crypto L rnd pad frnd fpad storer c =
     (case transport_write L rnd pad storer auth_key_default (packet_info_init\<lparr>pi_no_crypto_flag := True\<rparr>) of
        None \<Rightarrow> None
      | Some (packet, _) \<Rightarrow>
        map_option (\<lambda>t. c\<lparr>rc_transport := t\<rparr>) (tr_write L frnd fpad packet False (rc_transport c)))"

definition on_read_mtproto_error :: "u32 \<Rightarrow> raw_connection \<Rightarrow> status \<times> raw_connection" where
  "on_read_mtproto_error error_code c =
     (if sint error_code = - 429 then (Error 500 ''MTProto error: '', stat StatMtprotoError c)
      else if sint error_code = - 404 then (Error (- 404) ''MTProto error: '', c)
      else (Err ''MTProto error: '', c))"

definition rc_on_quick_ack :: "'c rc_callback \<Rightarrow> u32 \<Rightarrow> 'c \<times> raw_connection \<Rightarrow> 'c \<times> raw_connection" where
  "rc_on_quick_ack cb quick_ack s =
     (case s of (u, c) \<Rightarrow>
        if \<not> bit quick_ack 31 then (u, c)
        else (case rc_quick_ack_to_token c quick_ack of
                None \<Rightarrow> (u, c)
              | Some token \<Rightarrow>
                (cb_on_quick_ack cb token u,
                 c\<lparr>rc_quick_ack_to_token := (rc_quick_ack_to_token c)(quick_ack := None)\<rparr>)))"

definition MAX_PACKET_SIZE :: nat where "MAX_PACKET_SIZE = 2 ^ 22 + 1024"

text \<open>The part of the loop that handles one packet of the stream.\<close>

definition process_packet ::
  "crypto_lib \<Rightarrow> 'c rc_callback \<Rightarrow> auth_key \<Rightarrow> bytes \<Rightarrow> 'c \<times> raw_connection \<Rightarrow> (status \<times> 'c \<times> raw_connection) option" where
  "process_packet L cb auth_key packet s =
     (case transport_read L packet auth_key (packet_info_init\<lparr>pi_version := 2\<rparr>) of
        None \<Rightarrow> None
      | Some (Inl e, _) \<Rightarrow> Some (e, s)
      | Some (Inr (RQuickack q), _) \<Rightarrow> Some (OK, rc_on_quick_ack cb q s)
      | Some (Inr (RError code), _) \<Rightarrow>
          (case on_read_mtproto_error code (snd s) of (e, c) \<Rightarrow> Some (e, fst s, c))
      | Some (Inr (RPacket d), info) \<Rightarrow>
          (let c = (if ak_empty auth_key then snd s else stat StatPong (snd s))
           in case cb_on_raw_packet cb info d (fst s) of (e, u) \<Rightarrow> Some (e, u, c))
      | Some (Inr RNop, _) \<Rightarrow> Some (OK, s))"

text \<open>The loop of \<open>flush_read\<close>; \<open>None\<close> when the fuel runs out or an operation aborts.\<close>

fun flush_read_loop ::
  "nat \<Rightarrow> crypto_lib \<Rightarrow> 'c rc_callback \<Rightarrow> auth_key \<Rightarrow> 'c \<times> raw_connection \<Rightarrow> (status \<times> 'c \<times> raw_connection) option" where
  "flush_read_loop 0 L cb auth_key s = None"
| "flush_read_loop (Suc n) L cb auth_key (u, c) =
     (case tr_read_next L (rc_transport c) of
        None \<Rightarrow> None
      | Some (wait_size, message, quick_ack, t) \<Rightarrow>
        (let c' = c\<lparr>rc_transport := t\<rparr> in
         if wait_size \<noteq> 0
         then (if wait_size > MAX_PACKET_SIZE then Some (Err ''Expected packet size is too big: '', u, c')
               else Some (OK, u, c'))
         else (case quick_ack of
                 Some q \<Rightarrow> flush_read_loop n L cb auth_key (rc_on_quick_ack cb q (u, c'))
               | None \<Rightarrow>
                 (case process_packet L cb auth_key (case message of Some m \<Rightarrow> m | None \<Rightarrow> []) (u, c') of
                    None \<Rightarrow> None
                  | Some (OK, s) \<Rightarrow> flush_read_loop n L cb auth_key s
                  | Some (e, s) \<Rightarrow> Some (e, s)))))"

text \<open>\<open>sock\<close> is what the socket read returned: the bytes it appended to the input buffer, with the
  error that ended the read, if any.\<close>

definition rc_on_read :: "'c rc_callback \<Rightarrow> nat \<Rightarrow> 'c \<times> raw_connection \<Rightarrow> 'c \<times> raw_connection" where
  "rc_on_read cb n s = (if n = 0 then s else (cb_on_read cb n (fst s), stat (StatRead n) (snd s)))"

definition flush_read ::
  "nat \<Rightarrow> crypto_lib \<Rightarrow> 'c rc_callback \<Rightarrow> auth_key \<Rightarrow> bytes \<times> status \<Rightarrow> 'c \<times> raw_connection
    \<Rightarrow> (status \<times> 'c \<times> raw_connection) option" where
  "flush_read n L cb auth_key sock s =
     (case sock of (bs, r) \<Rightarrow>
        (let c = (snd s)\<lparr>rc_transport := tr_receive bs (rc_transport (snd s))\<rparr>;
             s' = (if r = OK then rc_on_read cb (length bs) (fst s, c) else (fst s, c))
         in case flush_read_loop n L cb auth_key s' of
              None \<Rightarrow> None
            | Some (OK, s'') \<Rightarrow> Some (r, s'')
            | Some (e, s'') \<Rightarrow> Some (e, s'')))"

text \<open>The parts of the socket that \<open>do_flush\<close> consults: a pending error, the read, the
  write and whether the other side closed the connection.\<close>

record socket_io =
  so_pending_error :: status
  so_read :: "bytes \<times> status"
  so_write :: "nat result"
  so_can_close :: bool

definition flush_write :: "nat result \<Rightarrow> raw_connection \<Rightarrow> status \<times> raw_connection" where
  "flush_write r c = (case r of Inl e \<Rightarrow> (e, c)
     | Inr n \<Rightarrow> (OK, if n > 0 then stat (StatWrite n) c else c))"

definition do_flush ::
  "nat \<Rightarrow> crypto_lib \<Rightarrow> 'c rc_callback \<Rightarrow> auth_key \<Rightarrow> socket_io \<Rightarrow> 'c \<times> raw_connection
    \<Rightarrow> (status \<times> 'c \<times> raw_connection) option" where
  "do_flush n L cb auth_key io s =
     (if rc_has_error (snd s) then Some (Err ''Connection has already failed'', s)
      else if so_pending_error io \<noteq> OK then Some (so_pending_error io, s)
      else (case flush_read n L cb auth_key (so_read io) s of
              None \<Rightarrow> None
            | Some (OK, u, c) \<Rightarrow>
              (case cb_before_write cb u c of
                 (OK, u', c') \<Rightarrow>
                   (case flush_write (so_write io) c' of
                      (OK, c'') \<Rightarrow> Some (if so_can_close io then Err ''Connection closed'' else OK, u', c'')
                    | (e, c'') \<Rightarrow> Some (e, u', c''))
               | (e, u', c') \<Rightarrow> Some (e, u', c'))
            | Some (e, s') \<Rightarrow> Some (e, s')))"

definition rc_flush ::
  "nat \<Rightarrow> crypto_lib \<Rightarrow> 'c rc_callback \<Rightarrow> auth_key \<Rightarrow> socket_io \<Rightarrow> 'c \<times> raw_connection
    \<Rightarrow> (status \<times> 'c \<times> raw_connection) option" where
  "rc_flush n L cb auth_key io s =
     (case do_flush n L cb auth_key io s of
        None \<Rightarrow> None
      | Some (e, u, c) \<Rightarrow>
        Some (e, u, if e = OK then c
                    else (if st_code e \<noteq> 2 then stat StatError c else c)\<lparr>rc_has_error := True\<rparr>))"

end
