(* ===== verification/TcpProps.thy ===== *)
theory TcpProps
  imports Tcp
begin

text \<open>
  What the stream transports promise: frames come back as they were written, the emulated TLS
  records carry the same stream, and the obfuscated stream decrypts to the frames.
\<close>

section \<open>Frames\<close>

text \<open>The frame of a body: its length and the body (the message and its padding).\<close>

definition frame_of :: "bytes \<Rightarrow> bytes" where
  "frame_of body = bytes_of_u32 (of_nat (length body)) @ body"

lemma length_frame_of [simp]: "length (frame_of body) = 4 + length body"
  by (simp add: frame_of_def)

lemma size_word_small:
  assumes "n < 2 ^ 31"
  shows "unat (of_nat n :: u32) = n" and "\<not> bit (of_nat n :: u32) 31"
proof -
  show u: "unat (of_nat n :: u32) = n" using assms by (simp add: unat_of_nat)
  show "\<not> bit (of_nat n :: u32) 31"
    using assms by (simp add: bit_of_nat_iff bit_iff_odd [of n])
qed

lemma read_frame:
  assumes "length body < 2 ^ 31"
  shows "read_from_stream (frame_of body @ rest) = (0, Some body, None, rest)"
  using size_word_small [OF assms]
  by (simp add: read_from_stream_def frame_of_def Let_def)

lemma take_u32_of_frame: "4 \<le> k \<Longrightarrow> u32_of_bytes (take 4 (take k (frame_of body))) = of_nat (length body)"
  by (simp add: frame_of_def min_def)

lemma read_frame_waits:
  assumes "length body < 2 ^ 31" and "k < length (frame_of body)"
  shows "\<exists>w. read_from_stream (take k (frame_of body)) = (w, None, None, take k (frame_of body)) \<and>
    k < w \<and> w \<le> length (frame_of body)"
proof (cases "k < 4")
  case True
  then show ?thesis by (simp add: read_from_stream_def)
next
  case False
  then have "u32_of_bytes (take 4 (take k (frame_of body))) = of_nat (length body)"
    by (intro take_u32_of_frame) simp
  with False assms show ?thesis
    using size_word_small [OF assms(1)] by (simp add: read_from_stream_def Let_def)
qed

lemma write_prepare_frame:
  assumes "write_prepare_inplace wp rnd pad pr ar message False = Some frame" and "\<And>n. length (pad n) = n"
  shows "\<exists>p. frame = frame_of (message @ p) \<and> length p < 16 \<and> (\<not> wp \<longrightarrow> p = []) \<and> length (message @ p) < 2 ^ 25"
proof -
  define a where "a = (if wp then unat (rnd mod 16) else 0)"
  have a: "a < 16" and na: "\<not> wp \<Longrightarrow> a = 0"
    by (auto simp: a_def unat_mod)
  have m: "length message < 2 ^ 24" and f: "frame = bytes_of_u32 (ucast ((of_nat (length message) :: u64) + of_nat a)) @ message @ pad a"
    using assms(1) by (auto simp: write_prepare_inplace_def Let_def a_def split: if_splits)
  have "unat (ucast ((of_nat (length message) :: u64) + of_nat a) :: u32) = length message + a"
    using m a by (simp add: unsigned_ucast_eq unat_of_nat take_bit_nat_eq_self flip: of_nat_add)
  then have "(ucast ((of_nat (length message) :: u64) + of_nat a) :: u32) = of_nat (length (message @ pad a))"
    by (intro word_unat_eq_iff [THEN iffD2]) (use m a assms(2) [of a] in \<open>simp add: unat_of_nat del: of_nat_add\<close>)
  then have "frame = frame_of (message @ pad a)" by (simp add: f frame_of_def)
  moreover have "\<not> wp \<longrightarrow> pad a = []" using na assms(2) [of 0] by simp
  ultimately show ?thesis using assms(2) [of a] a m by (intro exI [of _ "pad a"]) simp
qed

lemma write_prepare_returns:
  assumes "length message mod 4 = 0" and "length message < 2 ^ 24" and "4 \<le> pr" and "15 \<le> ar"
  shows "\<exists>frame. write_prepare_inplace wp rnd pad pr ar message q = Some frame"
proof -
  have "unat (rnd mod 16) < 16" by (simp add: unat_mod)
  then show ?thesis using assms by (simp add: write_prepare_inplace_def Let_def)
qed

section \<open>TLS records\<close>

definition tls_record :: "bytes \<Rightarrow> bytes" where
  "tls_record p = [0x17, 0x03, 0x03, of_nat (length p div 256 mod 256), of_nat (length p mod 256)] @ p"

lemma tls_loop_record:
  assumes "length p < 2 ^ 16" and "tf_input f = tls_record p @ rest"
  shows "tls_loop f = (True, f\<lparr>tf_output := tf_output f @ p, tf_input := rest\<rparr>)"
proof -
  have "length p div 256 < 256" using assms(1) by simp
  then have "unat (of_nat (length p div 256 mod 256) :: byte) * 256 + unat (of_nat (length p mod 256) :: byte) = length p"
    by (simp add: unat_of_nat_byte)
  then show ?thesis using assms(2) by (simp add: tls_loop_def tls_record_def Let_def)
qed

lemma tls_wakeup_end:
  assumes "tf_input f = []" and "\<not> tf_stop f" and "tf_need_size f = 0"
  shows "tls_wakeup f = f\<lparr>tf_need_size := 5\<rparr>"
  using assms by (simp add: tls_wakeup.simps [of f] tls_loop_def) (simp add: tls_wakeup.simps)

lemma tls_wakeup_records:
  assumes "\<forall>p\<in>set ps. length p < 2 ^ 16" and "tf_input f = concat (map tls_record ps)"
    and "\<not> tf_stop f" and "tf_need_size f = 0"
  shows "tls_wakeup f = f\<lparr>tf_input := [], tf_output := tf_output f @ concat ps, tf_need_size := 5\<rparr>"
  using assms
proof (induction ps arbitrary: f)
  case Nil
  then show ?case by (simp add: tls_wakeup_end)
next
  case (Cons p ps)
  let ?f = "f\<lparr>tf_output := tf_output f @ p, tf_input := concat (map tls_record ps)\<rparr>"
  have "tls_loop (f\<lparr>tf_need_size := 0\<rparr>) = (True, ?f)"
    using Cons.prems tls_loop_record [of p "f\<lparr>tf_need_size := 0\<rparr>" "concat (map tls_record ps)"] by simp
  then have "tls_wakeup f = tls_wakeup ?f"
    using Cons.prems by (subst tls_wakeup.simps) simp
  also have "\<dots> = f\<lparr>tf_input := [], tf_output := tf_output f @ concat (p # ps), tf_need_size := 5\<rparr>"
    using Cons.prems Cons.IH [of ?f] by simp
  finally show ?case .
qed

section \<open>Writing through emulated TLS\<close>

definition first_tls_prefix :: bytes where
  "first_tls_prefix = [0x14, 0x03, 0x03, 0x00, 0x01, 0x01]"

definition tls_out :: "bytes list \<Rightarrow> obfuscated \<Rightarrow> obfuscated" where
  "tls_out ps st = st\<lparr>ot_header := [], ot_is_first_tls_packet := False,
     ot_output := ot_output st @ (if ot_is_first_tls_packet st then first_tls_prefix else []) @
       concat (map tls_record ps)\<rparr>"

lemma tls_builder_out:
  assumes "length (ot_header st) + length message \<le> MAX_TLS_PACKET_LENGTH"
  shows "do_write_tls_builder message st = Some (tls_out [ot_header st @ message] st)"
  using assms
  by (simp add: do_write_tls_builder_def do_write_def tls_out_def Let_def tls_record_def first_tls_prefix_def)

lemma tls_out_trans: "tls_out qs (tls_out [p] st) = tls_out (p # qs) st"
  by (simp add: tls_out_def)

lemma tls_chunks_out:
  assumes "sl \<noteq> []" and "length (ot_header st) < MAX_TLS_PACKET_LENGTH"
  shows "\<exists>ps. do_write_tls_chunks sl st = Some (tls_out ps st) \<and> ps \<noteq> [] \<and> concat ps = ot_header st @ sl \<and>
    (\<forall>p\<in>set ps. length p \<le> MAX_TLS_PACKET_LENGTH)"
  using assms
proof (induction "length sl" arbitrary: sl st rule: less_induct)
  case less
  let ?n = "MAX_TLS_PACKET_LENGTH - length (ot_header st)"
  let ?p = "ot_header st @ take ?n sl"
  let ?st = "tls_out [?p] st"
  have p: "length ?p \<le> MAX_TLS_PACKET_LENGTH" using less.prems(2) by simp
  have b: "do_write_tls_builder (take ?n sl) st = Some ?st"
    using less.prems(2) by (intro tls_builder_out) simp
  have step: "do_write_tls_chunks sl st = do_write_tls_chunks (drop ?n sl) ?st"
    using less.prems b by (subst do_write_tls_chunks.simps) (simp add: Let_def)
  show ?case
  proof (cases "drop ?n sl = []")
    case True
    then have "do_write_tls_chunks sl st = Some ?st"
      unfolding step by (simp add: do_write_tls_chunks.simps)
    moreover have "take ?n sl = sl" using True by simp
    ultimately show ?thesis using p by (intro exI [of _ "[?p]"]) simp
  next
    case False
    have l: "length (drop ?n sl) < length sl" using less.prems by (simp flip: length_greater_0_conv)
    have h: "length (ot_header ?st) < MAX_TLS_PACKET_LENGTH"
      using less.prems(2) by (simp add: tls_out_def)
    obtain ps where ps: "do_write_tls_chunks (drop ?n sl) ?st = Some (tls_out ps ?st)"
        "concat ps = ot_header ?st @ drop ?n sl" "\<forall>p\<in>set ps. length p \<le> MAX_TLS_PACKET_LENGTH"
      using less.hyps [OF l False h] by blast
    have "concat (?p # ps) = ot_header st @ sl" using ps(2) by (simp add: tls_out_def)
    moreover have "do_write_tls_chunks sl st = Some (tls_out (?p # ps) st)"
      unfolding step ps(1) tls_out_trans ..
    ultimately show ?thesis using ps(3) p by (intro exI [of _ "?p # ps"]) simp
  qed
qed

lemma do_write_tls_out:
  assumes "message \<noteq> []" and "length (ot_header st) < MAX_TLS_PACKET_LENGTH"
  shows "\<exists>ps. do_write_tls message st = Some (tls_out ps st) \<and> ps \<noteq> [] \<and> concat ps = ot_header st @ message \<and>
    (\<forall>p\<in>set ps. length p \<le> MAX_TLS_PACKET_LENGTH)"
proof (cases "length message + length (ot_header st) > MAX_TLS_PACKET_LENGTH")
  case True
  then show ?thesis using tls_chunks_out [OF assms] assms(2) by (simp add: do_write_tls_def)
next
  case False
  then have "do_write_tls message st = Some (tls_out [ot_header st @ message] st)"
    using tls_builder_out [of st message] by (simp add: do_write_tls_def)
  then show ?thesis using False by (intro exI [of _ "[ot_header st @ message]"]) simp
qed

section \<open>The obfuscated stream\<close>

text \<open>Writes in sequence, each with its random padding size, padding source and flag.\<close>

fun obfuscated_writes :: "crypto_lib \<Rightarrow> (u32 \<times> (nat \<Rightarrow> bytes) \<times> bytes \<times> bool) list \<Rightarrow> obfuscated \<Rightarrow> obfuscated option" where
  "obfuscated_writes L [] st = Some st"
| "obfuscated_writes L ((rnd, pad, message, quick_ack) # ws) st =
     (case obfuscated_write L rnd pad message quick_ack st of
        None \<Rightarrow> None | Some st' \<Rightarrow> obfuscated_writes L ws st')"

text \<open>The bytes of the stream that carry the packets \<open>ps\<close>.\<close>

definition tls_wrap :: "bool \<Rightarrow> bytes list \<Rightarrow> bytes" where
  "tls_wrap tls ps = (if tls then (if ps = [] then [] else first_tls_prefix @ concat (map tls_record ps)) else concat ps)"

definition obf_inv ::
  "crypto_lib \<Rightarrow> bytes \<Rightarrow> bytes \<Rightarrow> bytes \<Rightarrow> bytes \<Rightarrow> bytes list \<Rightarrow> bytes list \<Rightarrow> obfuscated \<Rightarrow> bool" where
  "obf_inv L secret hdr key iv fs ps st \<longleftrightarrow>
     ot_secret st = secret \<and> ctr_key (ot_output_state st) = key \<and> ctr_iv (ot_output_state st) = iv \<and>
     ctr_pos (ot_output_state st) = 64 + length (concat fs) \<and>
     ot_header st = (if ps = [] then hdr else []) \<and>
     (emulate_tls secret \<longrightarrow> ot_is_first_tls_packet st = (ps = []) \<and> (\<forall>p\<in>set ps. length p \<le> MAX_TLS_PACKET_LENGTH)) \<and>
     concat ps @ ot_header st = hdr @ lib_ctr L key iv 64 (concat fs) \<and>
     ot_output st = tls_wrap (emulate_tls secret) ps"

lemma obf_inv_write:
  assumes L: "crypto_laws L" and k: "length key = 32" and h: "length hdr = 64"
    and inv: "obf_inv L secret hdr key iv fs ps st"
    and f: "write_prepare_inplace (use_random_padding secret) rnd pad (max_prepend_size st) max_append_size message q = Some f"
    and fl: "f \<noteq> []" "length f < 2 ^ 31"
  shows "\<exists>st' qs. obfuscated_write L rnd pad message q st = Some st' \<and> qs \<noteq> [] \<and>
    obf_inv L secret hdr key iv (fs @ [f]) (ps @ qs) st'"
proof -
  let ?pos = "64 + length (concat fs)"
  let ?e = "lib_ctr L key iv ?pos f"
  let ?st = "st\<lparr>ot_output_state := (ot_output_state st)\<lparr>ctr_pos := ?pos + length f\<rparr>\<rparr>"
  note i = inv [unfolded obf_inv_def]
  have el: "length ?e = length f" by (rule ctr_self_inverse(2) [OF L k])
  then have e: "?e \<noteq> []" using fl(1) by (metis length_0_conv)
  have enc: "ctr_encrypt L f (ot_output_state st) = Some (?e, (ot_output_state st)\<lparr>ctr_pos := ?pos + length f\<rparr>)"
    using i fl(2) by (simp add: ctr_encrypt_def)
  have w: "obfuscated_write L rnd pad message q st =
      (if emulate_tls secret then do_write_tls ?e ?st else Some (do_write_main ?e ?st))"
    using i f enc by (simp add: obfuscated_write_def Let_def)
  have app: "lib_ctr L key iv 64 (concat (fs @ [f])) = lib_ctr L key iv 64 (concat fs) @ ?e"
    using ctr_append [OF L k, of iv 64 "concat fs" f] by simp
  have data: "concat ps @ ot_header st @ ?e = hdr @ lib_ctr L key iv 64 (concat (fs @ [f]))"
    using i unfolding app by (metis append_assoc)
  show ?thesis
  proof (cases "emulate_tls secret")
    case True
    have "length (ot_header ?st) < MAX_TLS_PACKET_LENGTH" using i h by (simp add: MAX_TLS_PACKET_LENGTH_def)
    then obtain qs where qs: "do_write_tls ?e ?st = Some (tls_out qs ?st)" "qs \<noteq> []"
        "concat qs = ot_header ?st @ ?e" "\<forall>p\<in>set qs. length p \<le> MAX_TLS_PACKET_LENGTH"
      using do_write_tls_out [OF e] by blast
    have "obf_inv L secret hdr key iv (fs @ [f]) (ps @ qs) (tls_out qs ?st)"
      using i True qs data by (auto simp: obf_inv_def tls_out_def tls_wrap_def)
    then show ?thesis using w True qs by auto
  next
    case False
    have "obf_inv L secret hdr key iv (fs @ [f]) (ps @ [ot_header st @ ?e]) (do_write_main ?e ?st)"
      using i False data by (auto simp: obf_inv_def do_write_main_def do_write_def tls_wrap_def)
    then show ?thesis using w False by (intro exI [of _ "do_write_main ?e ?st"] exI [of _ "[ot_header st @ ?e]"]) simp
  qed
qed

text \<open>A message that the stream accepts, and the frame it becomes.\<close>

definition writable :: "u32 \<times> (nat \<Rightarrow> bytes) \<times> bytes \<times> bool \<Rightarrow> bool" where
  "writable w = (case w of (rnd, pad, message, q) \<Rightarrow>
     length message mod 4 = 0 \<and> length message < 2 ^ 24 \<and> (\<forall>n. length (pad n) = n))"

definition frame_for :: "bool \<Rightarrow> u32 \<times> (nat \<Rightarrow> bytes) \<times> bytes \<times> bool \<Rightarrow> bytes" where
  "frame_for wp w = (case w of (rnd, pad, message, q) \<Rightarrow> the (write_prepare_inplace wp rnd pad 4 15 message q))"

lemma frame_for_prepare:
  assumes "writable (rnd, pad, message, q)" and "4 \<le> pr"
  shows "write_prepare_inplace wp rnd pad pr max_append_size message q = Some (frame_for wp (rnd, pad, message, q))"
    and "frame_for wp (rnd, pad, message, q) \<noteq> []" and "length (frame_for wp (rnd, pad, message, q)) < 2 ^ 31"
proof -
  have u: "unat (rnd mod 16) < 16" by (simp add: unat_mod)
  then have "unat (rnd mod 16) \<le> 15" by simp
  then show "write_prepare_inplace wp rnd pad pr max_append_size message q = Some (frame_for wp (rnd, pad, message, q))"
    using assms by (simp add: frame_for_def writable_def write_prepare_inplace_def Let_def max_append_size_def)
  show "frame_for wp (rnd, pad, message, q) \<noteq> []" "length (frame_for wp (rnd, pad, message, q)) < 2 ^ 31"
    using assms u by (simp_all add: frame_for_def writable_def write_prepare_inplace_def Let_def)
qed

lemma max_prepend_ge: "4 \<le> max_prepend_size st"
proof -
  have up: "4 \<le> (if r mod 4 \<noteq> 0 then r + (4 - r mod 4) else r)" if "4 \<le> r" for r :: nat
    using that le_add1 [of r "4 - r mod 4"] by (simp only: split: if_split) (blast intro: order_trans)
  show ?thesis unfolding max_prepend_size_def Let_def by (rule up) simp
qed

lemma obf_inv_writes:
  assumes L: "crypto_laws L" and k: "length key = 32" and h: "length hdr = 64"
  shows "obf_inv L secret hdr key iv fs ps st \<Longrightarrow> \<forall>w\<in>set ws. writable w \<Longrightarrow>
    \<exists>st' qs. obfuscated_writes L ws st = Some st' \<and> (ws \<noteq> [] \<longrightarrow> qs \<noteq> []) \<and>
    obf_inv L secret hdr key iv (fs @ map (frame_for (use_random_padding secret)) ws) (ps @ qs) st'"
proof (induction ws arbitrary: fs ps st)
  case Nil
  then show ?case by (intro exI [of _ st] exI [of _ "[]"]) simp
next
  case (Cons w ws)
  obtain rnd pad message q where w: "w = (rnd, pad, message, q)" by (cases w)
  have wr: "writable (rnd, pad, message, q)" using Cons.prems(2) w by simp
  let ?f = "frame_for (use_random_padding secret) w"
  note f = frame_for_prepare [OF wr max_prepend_ge [of st], folded w, of "use_random_padding secret"]
  obtain st' qs where s: "obfuscated_write L rnd pad message q st = Some st'" "qs \<noteq> []"
      "obf_inv L secret hdr key iv (fs @ [?f]) (ps @ qs) st'"
    using obf_inv_write [OF L k h Cons.prems(1) f] by blast
  obtain st'' rs where "obfuscated_writes L ws st' = Some st''"
      "obf_inv L secret hdr key iv ((fs @ [?f]) @ map (frame_for (use_random_padding secret)) ws) ((ps @ qs) @ rs) st''"
    using Cons.IH [OF s(3)] Cons.prems(2) by auto
  then show ?case using s(1,2) w
    by (intro exI [of _ st''] exI [of _ "qs @ rs"]) simp
qed

lemma pick_header_allowed:
  "pick_header tls n rnds = Some h \<Longrightarrow> h \<in> set rnds \<and> header_allowed tls h"
  by (induction tls n rnds rule: pick_header.induct) (auto split: if_splits)

lemma header_allowed_prefix:
  assumes "take 56 a = take 56 b" and "56 \<le> length a" and "56 \<le> length b"
  shows "header_allowed tls a = header_allowed tls b"
proof -
  have "take n a = take n b" "n \<le> 8 \<Longrightarrow> a ! n = b ! n" if "n \<le> 8" for n
    using that arg_cong [OF assms(1), of "take n"] arg_cong [OF assms(1), of "\<lambda>x. x ! n"] by simp_all
  note t = this
  have "take 4 (drop 4 a) = take 4 (drop 4 b)"
    using arg_cong [OF t(1) [of 8], of "drop 4"] by (simp add: drop_take)
  then show ?thesis using t(1) [of 4] t(2) [of 0] by (simp add: header_allowed_def)
qed

lemma bytes_at_prefix: "take 56 a = take 56 b \<Longrightarrow> pos + n \<le> 56 \<Longrightarrow> bytes_at pos n a = bytes_at pos n b"
proof -
  assume "take 56 a = take 56 b" and n: "pos + n \<le> 56"
  from this(1) have "take (pos + n) (take 56 a) = take (pos + n) (take 56 b)" by simp
  then show "bytes_at pos n a = bytes_at pos n b"
    using n by (simp add: bytes_at_def take_drop add.commute min_absorb1)
qed

lemma length_tagged_header: "length h = 64 \<Longrightarrow> length (tagged_header wp dc h) = 64"
  by (simp add: tagged_header_def bytes_of_u16_def)

lemma length_fix_key: "crypto_laws L \<Longrightarrow> length k = 32 \<Longrightarrow> length (fix_key L ps k) = 32"
  by (simp add: fix_key_def crypto_laws_def)

lemma obfuscated_init_inv:
  assumes L: "crypto_laws L" and r: "\<forall>h\<in>set rnds. length h = 64"
    and p: "pick_header (emulate_tls secret) 0 rnds = Some h"
    and H: "H = tagged_header (use_random_padding secret) dc h"
    and key: "key = fix_key L (get_proxy_secret secret) (bytes_at 8 32 H)" and iv: "iv = bytes_at 40 16 H"
  shows "\<exists>st. obfuscated_init L dc secret rnds = Some st \<and> length key = 32 \<and>
    obf_inv L secret (take 56 H @ drop 56 (lib_ctr L key iv 0 H)) key iv [] [] st"
proof -
  have H64: "length H = 64" using pick_header_allowed [OF p] r by (simp add: H length_tagged_header)
  have k: "length key = 32" using H64 by (simp add: key length_fix_key [OF L] bytes_at_def)
  have k': "length (fix_key L (get_proxy_secret secret) (bytes_at 8 32 (rev H))) = 32"
    using H64 by (simp add: length_fix_key [OF L] bytes_at_def)
  have c0: "lib_ctr L key iv 64 [] = []"
    using ctr_self_inverse(2) [OF L k, of iv 64 "[]"] by simp
  have ivs: "length iv = 16" "length (bytes_at 40 16 (rev H)) = 16" using H64 by (simp_all add: iv bytes_at_def)
  show ?thesis
    using H64 k k' c0 p ivs
    by (simp add: obfuscated_init_def Let_def ctr_init_def ctr_encrypt_def obf_inv_def tls_wrap_def
        flip: H key iv)
qed

lemma tls_wrap_unwrap:
  assumes "\<forall>p\<in>set ps. length p \<le> MAX_TLS_PACKET_LENGTH" and "ps \<noteq> []"
  shows "tls_wakeup (tls_flow_init\<lparr>tf_input := drop 6 (tls_wrap True ps)\<rparr>) =
    tls_flow_init\<lparr>tf_output := concat ps, tf_need_size := 5\<rparr>"
proof -
  have "drop 6 (tls_wrap True ps) = concat (map tls_record ps)"
    using assms(2) by (simp add: tls_wrap_def first_tls_prefix_def)
  moreover have "\<forall>p\<in>set ps. length p < 2 ^ 16"
    using assms(1) by (fastforce simp: MAX_TLS_PACKET_LENGTH_def)
  ultimately show ?thesis
    using tls_wakeup_records [of ps "tls_flow_init\<lparr>tf_input := drop 6 (tls_wrap True ps)\<rparr>"]
    by (simp add: tls_flow_init_def)
qed

section \<open>Properties\<close>



text \<open>
  C8. After \<open>ObfuscatedTransport::init\<close> every sequence of acceptable
  messages is written without a failing \<open>CHECK\<close>, and the other side, which takes the key and the
  initial vector from the first 56 bytes of the stream (with emulated TLS: of the payload its record
  reader returns, each record being at most \<open>MAX_TLS_PACKET_LENGTH\<close> bytes), decrypts from byte
  56 on the protocol tag, the data centre, and the frames of all messages in order.  The first bytes of
  a stream without emulated TLS are none of the reserved ones.
\<close>

theorem obfuscated_stream_decodes:
  assumes "crypto_laws L" and "\<forall>h\<in>set rnds. length h = 64"
    and "pick_header (emulate_tls secret) 0 rnds = Some h" and "\<forall>w\<in>set ws. writable w" and "ws \<noteq> []"
  shows "\<exists>st st' stream tail. obfuscated_init L dc secret rnds = Some st \<and> obfuscated_writes L ws st = Some st' \<and>
    (if emulate_tls secret
     then tls_wakeup (tls_flow_init\<lparr>tf_input := drop 6 (ot_output st')\<rparr>) =
       tls_flow_init\<lparr>tf_output := stream, tf_need_size := 5\<rparr>
     else ot_output st' = stream) \<and>
    header_allowed (emulate_tls secret) stream \<and>
    drop 56 (lib_ctr L (fix_key L (get_proxy_secret secret) (bytes_at 8 32 stream)) (bytes_at 40 16 stream) 0 stream) =
      bytes_of_u32 (intermediate_magic (use_random_padding secret)) @ tail @
      concat (map (frame_for (use_random_padding secret)) ws) \<and>
    length tail = 4 \<and> (dc \<noteq> 0 \<longrightarrow> take 2 tail = bytes_of_u16 dc)"
proof -
  define H where H: "H = tagged_header (use_random_padding secret) dc h"
  define key where key: "key = fix_key L (get_proxy_secret secret) (bytes_at 8 32 H)"
  define iv where iv: "iv = bytes_at 40 16 H"
  define P where "P = concat (map (frame_for (use_random_padding secret)) ws)"
  define hdr where "hdr = take 56 H @ drop 56 (lib_ctr L key iv 0 H)"
  note h = pick_header_allowed [OF assms(3)]
  have h64: "length h = 64" using h assms(2) by blast
  then have H64: "length H = 64" by (simp add: H length_tagged_header)
  obtain st where st: "obfuscated_init L dc secret rnds = Some st" and k: "length key = 32"
      and inv: "obf_inv L secret hdr key iv [] [] st"
    using obfuscated_init_inv [OF assms(1-3) H key iv] unfolding hdr_def by blast
  note inverse = ctr_self_inverse [OF assms(1) k]
  have hdr64: "length hdr = 64" using H64 by (simp add: hdr_def inverse)
  obtain st' ps where w: "obfuscated_writes L ws st = Some st'" "ps \<noteq> []"
      and inv': "obf_inv L secret hdr key iv (map (frame_for (use_random_padding secret)) ws) ps st'"
    using obf_inv_writes [OF assms(1) k hdr64 inv assms(4)] assms(5) by auto
  note i = inv' [unfolded obf_inv_def]
  have stream: "concat ps = take 56 H @ drop 56 (lib_ctr L key iv 0 (H @ P))"
  proof -
    have "concat ps = hdr @ lib_ctr L key iv 64 P" using i w(2) by (auto simp: P_def)
    then show ?thesis
      using H64 ctr_append [OF assms(1) k, of iv 0 H P] by (simp add: hdr_def inverse)
  qed
  have pre: "take 56 (concat ps) = take 56 H" using H64 by (simp add: stream)
  have "concat ps = take 56 H @ lib_ctr L key iv 56 (drop 56 (H @ P))"
    using ctr_append [OF assms(1) k, of iv 0 "take 56 (H @ P)" "drop 56 (H @ P)", unfolded append_take_drop_id] H64
    unfolding stream by (simp add: inverse(2))
  then have dec: "drop 56 (lib_ctr L key iv 0 (concat ps)) = drop 56 (H @ P)"
    using H64 ctr_append [OF assms(1) k, of iv 0 "take 56 H"] inverse by simp
  define tail where "tail = (if dc \<noteq> 0 then bytes_of_u16 dc else take 2 (drop 60 h)) @ drop 62 h"
  have H56: "drop 56 (H @ P) = bytes_of_u32 (intermediate_magic (use_random_padding secret)) @ tail @ P"
    and tail: "length tail = 4" "dc \<noteq> 0 \<Longrightarrow> take 2 tail = bytes_of_u16 dc"
    using h64 H64 by (simp_all add: H tagged_header_def tail_def bytes_of_u16_def)
  have allowed: "header_allowed (emulate_tls secret) (concat ps)"
  proof -
    have "take 56 (concat ps) = take 56 h" using pre h64 by (simp add: H tagged_header_def)
    moreover have "56 \<le> length (concat ps)" using stream H64 by simp
    ultimately show ?thesis using h h64 header_allowed_prefix [of "concat ps" h] by simp
  qed
  have "bytes_at 8 32 (concat ps) = bytes_at 8 32 H" "bytes_at 40 16 (concat ps) = bytes_at 40 16 H"
    by (rule bytes_at_prefix [OF pre], simp)+
  then have "drop 56 (lib_ctr L (fix_key L (get_proxy_secret secret) (bytes_at 8 32 (concat ps)))
      (bytes_at 40 16 (concat ps)) 0 (concat ps)) =
      bytes_of_u32 (intermediate_magic (use_random_padding secret)) @ tail @ P"
    using dec H56 key iv by simp
  moreover have "if emulate_tls secret
     then tls_wakeup (tls_flow_init\<lparr>tf_input := drop 6 (ot_output st')\<rparr>) =
       tls_flow_init\<lparr>tf_output := concat ps, tf_need_size := 5\<rparr>
     else ot_output st' = concat ps"
    using i tls_wrap_unwrap [OF _ w(2)] by (auto simp: tls_wrap_def)
  ultimately show ?thesis using st w(1) tail allowed unfolding P_def by blast
qed

theorem obfuscated_stream_decodes_witness:
  "let secret = 0xee # replicate 17 7; ws = [(5, \<lambda>n. replicate n 0, [1, 2, 3, 4], False), (1, \<lambda>n. replicate n 0, [5, 6, 7, 8], True)]
   in \<exists>st st' stream tail. obfuscated_init toy_lib 2 secret [replicate 64 1] = Some st \<and>
    obfuscated_writes toy_lib ws st = Some st' \<and>
    tls_wakeup (tls_flow_init\<lparr>tf_input := drop 6 (ot_output st')\<rparr>) =
       tls_flow_init\<lparr>tf_output := stream, tf_need_size := 5\<rparr> \<and>
    drop 56 (lib_ctr toy_lib (fix_key toy_lib (get_proxy_secret secret) (bytes_at 8 32 stream)) (bytes_at 40 16 stream) 0 stream) =
      bytes_of_u32 0xdddddddd @ tail @ concat (map (frame_for True) ws) \<and> take 2 tail = bytes_of_u16 2"
proof -
  let ?secret = "0xee # replicate 17 7 :: bytes"
  let ?ws = "[(5, \<lambda>n. replicate n 0, [1, 2, 3, 4], False), (1, \<lambda>n. replicate n 0, [5, 6, 7, 8], True)]
    :: (u32 \<times> (nat \<Rightarrow> bytes) \<times> bytes \<times> bool) list"
  have e: "emulate_tls ?secret" and p: "use_random_padding ?secret"
    by (simp_all add: emulate_tls_def use_random_padding_def)
  have h: "pick_header (emulate_tls ?secret) 0 [replicate 64 1] = Some (replicate 64 1)"
    by (simp add: e header_allowed_def)
  have w: "\<forall>w\<in>set ?ws. writable w" and n: "?ws \<noteq> []" and l: "\<forall>h\<in>set [replicate 64 (1 :: byte)]. length h = 64"
    by (simp_all add: writable_def)
  show ?thesis
    unfolding Let_def
    using obfuscated_stream_decodes [OF toy_laws l h w n, of 2, unfolded eqTrueI [OF e] eqTrueI [OF p] intermediate_magic_def if_True]
    by (elim exE conjE) (intro exI conjI, assumption+, simp)
qed

text \<open>
  C29. Once the emulated TLS reader meets bytes that are not a record, it stops and
  keeps its error to itself: the transport goes on answering that it waits for the next packet,
  whatever else arrives, and no call of \<open>read_next\<close> reports a failure.
\<close>

theorem tls_error_is_silent:
  assumes "emulate_tls (ot_secret st)" and "\<not> tf_stop (ot_tls st)" and "ot_sink st = []"
    and "5 \<le> length (tf_input (ot_tls st))" and "take 3 (tf_input (ot_tls st)) \<noteq> [0x17, 0x03, 0x03]"
    and "tf_need_size (ot_tls st) \<le> length (tf_input (ot_tls st))"
  shows "\<exists>st'. obfuscated_read_next L st = Some (4, None, None, st') \<and> is_error (tf_status (ot_tls st')) \<and>
    (\<forall>bs. obfuscated_read_next L (receive_bytes bs st') = Some (4, None, None, receive_bytes bs st'))"
proof -
  let ?n = "Suc (length (tf_input (ot_tls st)))"
  let ?f = "(ot_tls st)\<lparr>tf_stop := True, tf_need_size := ?n,
    tf_status := Err ''Invalid bytes at the beginning of a packet (emulated tls)''\<rparr>"
  let ?st = "st\<lparr>ot_tls := ?f\<rparr>"
  have "tls_wakeup (ot_tls st) = ?f"
    using assms by (subst tls_wakeup.simps) (simp add: tls_loop_def, simp add: tls_wakeup.simps)
  then have r: "obfuscated_read_next L st = Some (4, None, None, ?st)"
    using assms by (simp add: obfuscated_read_next_def obfuscated_wakeup_def read_from_stream_def)
  have "obfuscated_read_next L (receive_bytes bs ?st) = Some (4, None, None, receive_bytes bs ?st)" for bs
    using assms(1,3)
    by (simp add: obfuscated_read_next_def obfuscated_wakeup_def receive_bytes_def tls_wakeup.simps read_from_stream_def)
  then show ?thesis using r by (intro exI [of _ ?st]) simp
qed

theorem tls_error_is_silent_witness:
  "\<exists>st st'. obfuscated_init toy_lib 2 (0xee # replicate 17 7) [replicate 64 1] = Some st \<and>
    obfuscated_read_next toy_lib (receive_bytes [0x15, 3, 3, 0, 2] st) = Some (4, None, None, st') \<and>
    is_error (tf_status (ot_tls st'))"
proof -
  let ?secret = "0xee # replicate 17 7 :: bytes"
  have e: "emulate_tls ?secret" by (simp add: emulate_tls_def)
  have h: "pick_header (emulate_tls ?secret) 0 [replicate 64 1] = Some (replicate 64 1)"
    by (simp add: e header_allowed_def)
  obtain st where st: "obfuscated_init toy_lib 2 ?secret [replicate 64 1] = Some st"
    using obfuscated_init_inv [OF toy_laws _ h refl refl refl, of 2] by auto
  have f: "ot_secret st = ?secret" "ot_tls st = tls_flow_init" "ot_sink st = []"
    using st by (auto simp: obfuscated_init_def Let_def split: option.splits)
  show ?thesis
    using st f e tls_error_is_silent [of "receive_bytes [0x15, 3, 3, 0, 2] st" toy_lib]
    by (auto simp: receive_bytes_def tls_flow_init_def)
qed

end
