(* ===== verification/RawProps.thy ===== *)
theory RawProps
  imports RawConn TcpProps
begin

text \<open>
  What a raw connection does with the bytes of its socket: the transports refine reading from a plain
  stream of frames, the read loop ends and handles the packets in order, quick acknowledgements are
  reported once, and a failed connection stays failed.
\<close>

section \<open>Transports as plain streams\<close>

definition ot_incoming :: "obfuscated \<Rightarrow> bytes" where
  "ot_incoming st = (if emulate_tls (ot_secret st) then tf_output (tls_wakeup (ot_tls st)) else ot_input st)"

fun tr_stream :: "crypto_lib \<Rightarrow> stream_transport \<Rightarrow> bytes" where
  "tr_stream L (OldTransport t) = old_input t"
| "tr_stream L (ObfuscatedTransport st) =
     ot_sink st @ lib_ctr L (ctr_key (ot_input_state st)) (ctr_iv (ot_input_state st)) (ctr_pos (ot_input_state st))
       (ot_incoming st)"

fun tr_ready :: "stream_transport \<Rightarrow> bool" where
  "tr_ready (OldTransport t) = True"
| "tr_ready (ObfuscatedTransport st) \<longleftrightarrow>
     length (ctr_key (ot_input_state st)) = 32 \<and> length (ot_incoming st) < 2 ^ 31 \<and>
     (emulate_tls (ot_secret st) \<longrightarrow> \<not> tf_stop (tls_wakeup (ot_tls st)))"

lemma tls_wakeup_waits:
  "tf_stop (tls_wakeup f) \<or> length (tf_input (tls_wakeup f)) < tf_need_size (tls_wakeup f)"
proof (induction f rule: tls_wakeup.induct)
  case (1 f)
  show ?case
  proof (cases "tf_stop f \<or> length (tf_input f) < tf_need_size f")
    case True
    then show ?thesis by (simp add: tls_wakeup.simps)
  next
    case False
    then show ?thesis
      using 1 [OF False] by (subst (1 2 3) tls_wakeup.simps) (auto split: prod.splits bool.splits)
  qed
qed

lemma obfuscated_wakeup_stream:
  assumes "crypto_laws L" and r: "tr_ready (ObfuscatedTransport st)"
  shows "\<exists>st'. obfuscated_wakeup L st = Some st' \<and> ot_sink st' = tr_stream L (ObfuscatedTransport st) \<and>
    tr_ready (ObfuscatedTransport st') \<and> ot_incoming st' = []"
proof -
  let ?s = "ot_input_state st"
  have k: "length (ctr_key ?s) = 32" and len: "length (ot_incoming st) < 2 ^ 31" using r by simp_all
  have nil: "lib_ctr L (ctr_key ?s) iv pos [] = []" for iv pos
    using ctr_self_inverse(2) [OF assms(1) k, of iv pos "[]"] by simp
  show ?thesis
  proof (cases "emulate_tls (ot_secret st)")
    case False
    then show ?thesis
      using len k nil by (cases "ot_input st = []")
        (simp_all add: obfuscated_wakeup_def aes_ctr_flow_def ot_incoming_def ctr_encrypt_def)
  next
    case True
    let ?f = "tls_wakeup (ot_tls st)"
    have ns: "\<not> tf_stop ?f" using r True by simp
    then have w: "length (tf_input ?f) < tf_need_size ?f" using tls_wakeup_waits [of "ot_tls st"] by simp
    have again: "tls_wakeup (?f\<lparr>tf_output := []\<rparr>) = ?f\<lparr>tf_output := []\<rparr>"
      using w by (subst tls_wakeup.simps) simp
    show ?thesis
      using True ns len k nil again by (cases "tf_output ?f = []")
        (simp_all add: obfuscated_wakeup_def aes_ctr_flow_def ot_incoming_def ctr_encrypt_def Let_def)
  qed
qed

lemma tr_read_next_stream:
  assumes L: "crypto_laws L" and r: "tr_ready t" and rd: "read_from_stream (tr_stream L t) = (w, m, q, rest)"
  shows "\<exists>t'. tr_read_next L t = Some (w, m, q, t') \<and> tr_ready t' \<and> tr_stream L t' = rest"
proof (cases t)
  case (OldTransport o')
  then show ?thesis using rd by (simp add: old_read_next_def)
next
  case (ObfuscatedTransport st)
  obtain st' where st': "obfuscated_wakeup L st = Some st'" "ot_sink st' = tr_stream L t"
      "tr_ready (ObfuscatedTransport st')" "ot_incoming st' = []"
    using obfuscated_wakeup_stream [OF L] r ObfuscatedTransport by blast
  have i: "ot_incoming (st'\<lparr>ot_sink := rest\<rparr>) = []" using st'(4) by (simp add: ot_incoming_def split: if_splits)
  have "lib_ctr L (ctr_key (ot_input_state st')) iv pos [] = []" for iv pos
    using ctr_self_inverse(2) [OF L, of "ctr_key (ot_input_state st')" iv pos "[]"] st'(3) by simp
  then show ?thesis
    using st' i rd unfolding ObfuscatedTransport by (simp add: obfuscated_read_next_def)
qed

section \<open>The read loop\<close>

lemma read_from_stream_cases:
  assumes "read_from_stream s = (w, m, q, rest)"
  shows "w \<noteq> 0 \<and> m = None \<and> q = None \<and> rest = s \<or> w = 0 \<and> length rest + 4 \<le> length s"
  using assms by (auto simp: read_from_stream_def Let_def split: if_splits)

lemma on_quick_ack_transport: "rc_transport (snd (rc_on_quick_ack cb q s)) = rc_transport (snd s)"
  by (simp add: rc_on_quick_ack_def split: prod.splits option.splits)

definition key_ok :: "auth_key \<Rightarrow> bool" where
  "key_ok k \<longleftrightarrow> length (ak_key k) = 256 \<or> ak_key k = []"

lemma process_packet_returns:
  assumes "crypto_laws L" and "key_ok k"
  shows "\<exists>e u c. process_packet L cb k packet s = Some (e, u, c) \<and> rc_transport c = rc_transport (snd s)"
proof -
  obtain r info where r: "transport_read L packet k (packet_info_init\<lparr>pi_version := 2\<rparr>) = Some (r, info)"
    using transport_read_returns [OF assms(1), of "packet_info_init\<lparr>pi_version := 2\<rparr>" k packet] assms(2)
    by (auto simp: key_ok_def packet_info_init_def)
  obtain u c where s: "s = (u, c)" by (cases s)
  show ?thesis
  proof (cases r)
    case (Inr x)
    show ?thesis
    proof (cases x)
      case (RPacket d)
      then show ?thesis using r Inr s by (simp add: process_packet_def stat_def Let_def split: prod.split)
    next
      case (RQuickack q)
      obtain u' c' where a: "rc_on_quick_ack cb q s = (u', c')" by fastforce
      show ?thesis using r Inr RQuickack on_quick_ack_transport [of cb q s] a by (simp add: process_packet_def)
    qed (use r Inr s in \<open>simp_all add: process_packet_def on_read_mtproto_error_def stat_def\<close>)
  qed (use r s in \<open>simp add: process_packet_def\<close>)
qed

lemma flush_read_loop_returns:
  assumes L: "crypto_laws L" and k: "key_ok k"
  shows "tr_ready (rc_transport c) \<Longrightarrow> length (tr_stream L (rc_transport c)) < 4 * n \<Longrightarrow>
    \<exists>r. flush_read_loop n L cb k (u, c) = Some r"
proof (induction n arbitrary: u c)
  case (Suc n)
  obtain w m q rest where rd: "read_from_stream (tr_stream L (rc_transport c)) = (w, m, q, rest)"
    by (metis prod_cases4)
  obtain t where t: "tr_read_next L (rc_transport c) = Some (w, m, q, t)" "tr_ready t" "tr_stream L t = rest"
    using tr_read_next_stream [OF L Suc.prems(1) rd] by blast
  let ?c = "c\<lparr>rc_transport := t\<rparr>"
  show ?case
  proof (cases "w = 0")
    case False
    then show ?thesis using t(1) by (simp add: Let_def)
  next
    case True
    then have "length rest < 4 * n" using read_from_stream_cases [OF rd] Suc.prems(2) by simp
    then have ih: "\<exists>r. flush_read_loop n L cb k s = Some r" if "rc_transport (snd s) = t" for s
      using Suc.IH [of "snd s" "fst s"] t that by simp
    show ?thesis
    proof (cases q)
      case None
      obtain e u' c' where "process_packet L cb k (case m of Some m \<Rightarrow> m | None \<Rightarrow> []) (u, ?c) = Some (e, u', c')"
          and "rc_transport c' = t"
        using process_packet_returns [OF L k, of cb "case m of Some m \<Rightarrow> m | None \<Rightarrow> []" "(u, ?c)"] by auto
      then show ?thesis using t(1) True None ih [of "(u', c')"] by (cases e) simp_all
    next
      case (Some a)
      then show ?thesis using t(1) True ih [of "rc_on_quick_ack cb a (u, ?c)"] on_quick_ack_transport [of cb a "(u, ?c)"] by simp
    qed
  qed
qed simp

section \<open>Packets in order\<close>

text \<open>The packets of a stream handled one after the other, up to the first error.\<close>

fun handle_packets ::
  "crypto_lib \<Rightarrow> 'c rc_callback \<Rightarrow> auth_key \<Rightarrow> bytes list \<Rightarrow> 'c \<times> raw_connection \<Rightarrow> (status \<times> 'c \<times> raw_connection) option" where
  "handle_packets L cb k [] s = Some (OK, s)"
| "handle_packets L cb k (b # bs) s =
     (case process_packet L cb k b s of
        None \<Rightarrow> None
      | Some (OK, s') \<Rightarrow> handle_packets L cb k bs s'
      | Some (e, s') \<Rightarrow> Some (e, s'))"

definition with_transport :: "stream_transport \<Rightarrow> status \<times> 'c \<times> raw_connection \<Rightarrow> status \<times> 'c \<times> raw_connection" where
  "with_transport t r = (case r of (e, u, c) \<Rightarrow> (e, u, c\<lparr>rc_transport := t\<rparr>))"

lemma on_quick_ack_with_transport:
  "rc_on_quick_ack cb q (u, c\<lparr>rc_transport := t\<rparr>) =
    (case rc_on_quick_ack cb q (u, c) of (u', c') \<Rightarrow> (u', c'\<lparr>rc_transport := t\<rparr>))"
  by (simp add: rc_on_quick_ack_def split: option.split)

lemma process_packet_transport:
  "process_packet L cb k b (u, c\<lparr>rc_transport := t\<rparr>) = map_option (with_transport t) (process_packet L cb k b (u, c))"
  by (auto simp: process_packet_def with_transport_def Let_def stat_def on_read_mtproto_error_def
      on_quick_ack_with_transport split: option.split sum.split read_result.split prod.split)

lemma handle_packets_transport:
  "handle_packets L cb k bs (u, c\<lparr>rc_transport := t\<rparr>) = map_option (with_transport t) (handle_packets L cb k bs (u, c))"
proof (induction bs arbitrary: u c)
  case Nil
  then show ?case by (simp add: with_transport_def)
next
  case (Cons b bs)
  show ?case
  proof (cases "process_packet L cb k b (u, c)")
    case (Some r)
    obtain e u' c' where "r = (e, u', c')" by (cases r)
    with Some show ?thesis
      by (cases e) (simp_all add: process_packet_transport with_transport_def Cons.IH)
  qed (simp add: process_packet_transport)
qed

lemma flush_read_loop_frames:
  assumes L: "crypto_laws L" and w: "read_from_stream rest = (w, None, None, rest)" "0 < w" "w \<le> MAX_PACKET_SIZE"
  shows "tr_ready (rc_transport c) \<Longrightarrow> tr_stream L (rc_transport c) = concat (map frame_of bodies) @ rest \<Longrightarrow>
    \<forall>b\<in>set bodies. length b < 2 ^ 31 \<Longrightarrow> length bodies < n \<Longrightarrow>
    handle_packets L cb k bodies (u, c) = Some (e, u', c') \<Longrightarrow>
    \<exists>t. flush_read_loop n L cb k (u, c) = Some (e, u', c'\<lparr>rc_transport := t\<rparr>) \<and>
      (e = OK \<longrightarrow> tr_ready t \<and> tr_stream L t = rest)"
proof (induction bodies arbitrary: n u c c')
  case Nil
  then obtain t where "tr_read_next L (rc_transport c) = Some (w, None, None, t)" "tr_ready t" "tr_stream L t = rest"
    using tr_read_next_stream [OF L, of "rc_transport c" w None None rest] w(1) by auto
  with Nil w show ?case by (cases n) (auto simp: Let_def)
next
  case (Cons b bs)
  have "read_from_stream (tr_stream L (rc_transport c)) = (0, Some b, None, concat (map frame_of bs) @ rest)"
    using Cons.prems(2,3) read_frame [of b "concat (map frame_of bs) @ rest"] by simp
  then obtain t where t: "tr_read_next L (rc_transport c) = Some (0, Some b, None, t)" "tr_ready t"
      "tr_stream L t = concat (map frame_of bs) @ rest"
    using tr_read_next_stream [OF L Cons.prems(1)] by blast
  obtain n' where n: "n = Suc n'" "length bs < n'" using Cons.prems(4) by (cases n) auto
  obtain e1 u1 c1 where p: "process_packet L cb k b (u, c) = Some (e1, u1, c1)"
    using Cons.prems(5) by (auto split: option.splits)
  let ?c1 = "c1\<lparr>rc_transport := t\<rparr>"
  have p': "process_packet L cb k b (u, c\<lparr>rc_transport := t\<rparr>) = Some (e1, u1, ?c1)"
    by (simp add: process_packet_transport p with_transport_def)
  show ?case
  proof (cases "e1 = OK")
    case False
    then show ?thesis using Cons.prems(5) t(1) n(1) p p' by (cases e1) (auto simp: Let_def)
  next
    case True
    have h: "handle_packets L cb k bs (u1, ?c1) = Some (e, u', c'\<lparr>rc_transport := t\<rparr>)"
      using Cons.prems(5) p True by (simp add: handle_packets_transport with_transport_def)
    have "\<exists>t'. flush_read_loop n' L cb k (u1, ?c1) = Some (e, u', c'\<lparr>rc_transport := t, rc_transport := t'\<rparr>) \<and>
        (e = OK \<longrightarrow> tr_ready t' \<and> tr_stream L t' = rest)"
      using Cons.prems(3) t n(2) by (intro Cons.IH [OF _ _ _ _ h]) simp_all
    then show ?thesis using t(1) n(1) p' True by (simp add: Let_def)
  qed
qed

section \<open>Sending\<close>

text \<open>A transport that can write: the cipher of the obfuscated one has its key, and its pending
  header fits into a record.\<close>

fun tr_writable :: "stream_transport \<Rightarrow> bool" where
  "tr_writable (OldTransport t) = True"
| "tr_writable (ObfuscatedTransport st) \<longleftrightarrow>
     length (ctr_key (ot_output_state st)) = 32 \<and> length (ot_header st) < MAX_TLS_PACKET_LENGTH"

lemma tr_write_returns:
  assumes L: "crypto_laws L" and t: "tr_writable t" and w: "writable (rnd, pad, message, q)"
  shows "\<exists>t'. tr_write L rnd pad message q t = Some t' \<and> tr_writable t'"
proof (cases t)
  case (OldTransport o')
  then show ?thesis
    using write_prepare_returns [of message 4 15 False rnd pad q] w by (auto simp: old_write_def writable_def)
next
  case (ObfuscatedTransport st)
  note f = frame_for_prepare [OF w max_prepend_ge [of st], of "use_random_padding (ot_secret st)"]
  let ?f = "frame_for (use_random_padding (ot_secret st)) (rnd, pad, message, q)"
  let ?s = "ot_output_state st"
  let ?e = "lib_ctr L (ctr_key ?s) (ctr_iv ?s) (ctr_pos ?s) ?f"
  let ?st = "st\<lparr>ot_output_state := ?s\<lparr>ctr_pos := ctr_pos ?s + length ?f\<rparr>\<rparr>"
  have k: "length (ctr_key ?s) = 32" and h: "length (ot_header ?st) < MAX_TLS_PACKET_LENGTH"
    using t ObfuscatedTransport by simp_all
  have e: "?e \<noteq> []" using ctr_self_inverse(2) [OF L k] f(2) by (metis length_0_conv)
  have w: "obfuscated_write L rnd pad message q st =
      (if emulate_tls (ot_secret st) then do_write_tls ?e ?st else Some (do_write_main ?e ?st))"
    using f by (simp add: obfuscated_write_def ctr_encrypt_def Let_def)
  obtain ps where "do_write_tls ?e ?st = Some (tls_out ps ?st)" using do_write_tls_out [OF e h] by blast
  then show ?thesis
    using w k unfolding ObfuscatedTransport
    by (simp add: tls_out_def do_write_main_def do_write_def MAX_TLS_PACKET_LENGTH_def)
qed

lemma send_crypto_returns:
  assumes L: "crypto_laws L" and k: "length (ak_key k) = 256" and t: "tr_writable (rc_transport c)"
    and data: "run_unsafe storer [] = Some data" "run_calc storer 0 = Some (length data)" "length data < 2 ^ 24 - 2 ^ 11"
    and pad: "\<And>n. length (pad n) = n" "\<And>n. length (fpad n) = n"
  shows "\<exists>n c'. send_crypto L rnd pad frnd fpad storer session salt k token c = Some (n, c') \<and>
    tr_writable (rc_transport c') \<and> 40 + length data \<le> n \<and> n \<le> 40 + length data + 1024"
proof -
  define info where "info = packet_info_init\<lparr>pi_version := 2, pi_no_crypto_flag := False, pi_salt := salt,
    pi_session_id := session, pi_use_random_padding := tr_use_random_padding (rc_transport c)\<rparr>"
  let ?eh = "bytes_of_u64 (pi_salt info) @ bytes_of_u64 (pi_session_id info)"
  let ?P = "padded_packet_size CryptoHeader rnd (length data) info"
  define te where "te = ?eh @ data @ pad (?P - (40 + length data))"
  note b = padded_packet_size_bounds [where h = CryptoHeader and n = "length data" and rnd = rnd and info = info]
  obtain ack mk ek iv enc iv' where mk: "packet_key L k info 0 (?eh @ data) te = Some (ack, mk)" "length mk = 16"
      and key: "length ek = 32" "length iv = 32" and enc: "aes_ige_encrypt L ek iv te (length te) = Some (enc, iv')"
      and w: "write_crypto_impl L CryptoHeader 0 storer k info ?eh pad (length data) ?P =
        Some (bytes_of_u64 (ak_id k) @ mk @ enc, info\<lparr>pi_message_ack := ack\<rparr>)"
    using write_crypto_impl_returns [OF L k _ data(1), of 0 ?eh CryptoHeader pad info rnd] pad(1)
    unfolding te_def by auto
  have te: "length te = ?P - 24" using b(1) pad(1) by (simp add: te_def)
  then have el: "length enc = ?P - 24"
    using aes_ige_decrypt_encrypt(1) [OF L key _ enc] b(2) by simp
  let ?p = "bytes_of_u64 (ak_id k) @ mk @ enc"
  have pl: "length ?p = ?P" using el mk(2) b(1) by simp
  have bounds: "40 + length data \<le> ?P" "?P \<le> 40 + length data + 1024" using b(1,4) by simp_all
  have "?P mod 4 = 0" using b(2) bounds(1) by presburger
  then have wr: "writable (frnd, fpad, ?p, q)" for q
    using pl bounds data(3) pad(2) by (simp add: writable_def)
  have "bit ack 31"
    using mk(1) by (auto simp: packet_key_def info_def calc_message_key2_def Let_def bit_or_iff bit_push_bit_iff split: option.splits)
  moreover have "transport_write L rnd pad storer k info = Some (?p, info\<lparr>pi_message_ack := ack\<rparr>)"
  proof -
    have "pi_type info = Common" "\<not> pi_no_crypto_flag info" by (simp_all add: info_def packet_info_init_def)
    moreover have "\<not> ak_empty k" using k by (auto simp: ak_empty_def)
    ultimately show ?thesis using w data(2) by (simp add: transport_write_def write_crypto_def)
  qed
  ultimately show ?thesis
    using tr_write_returns [OF L t wr] pl bounds
    by (fastforce simp: send_crypto_def Let_def simp flip: info_def)
qed

section \<open>Properties\<close>


definition sample_connection :: "bytes \<Rightarrow> raw_connection" where
  "sample_connection bs = \<lparr>rc_transport = OldTransport \<lparr>old_input = bs, old_output = []\<rparr>,
     rc_quick_ack_to_token = Map.empty, rc_has_error = False, rc_stats = []\<rparr>"

definition sample_callback :: "bytes list rc_callback" where
  "sample_callback = \<lparr>cb_on_raw_packet = (\<lambda>info d ds. (OK, ds @ [d])), cb_on_quick_ack = (\<lambda>_ ds. ds),
     cb_before_write = (\<lambda>ds c. (OK, ds, c)), cb_on_read = (\<lambda>_ ds. ds)\<rparr>"


text \<open>
  C7. When the stream that a transport carries (for the obfuscated one: after record
  reading and decryption) holds complete frames followed by an incomplete one, the read loop hands
  exactly the bodies of the complete frames to packet processing, in order and up to the first error,
  and without an error keeps the incomplete frame for the next call.
\<close>

theorem flush_read_in_order:
  assumes "crypto_laws L" and "tr_ready (rc_transport c)"
    and "tr_stream L (rc_transport c) = concat (map frame_of bodies) @ rest" and "\<forall>b\<in>set bodies. length b < 2 ^ 31"
    and "read_from_stream rest = (w, None, None, rest)" and "0 < w" and "w \<le> MAX_PACKET_SIZE" and "length bodies < n"
    and "handle_packets L cb k bodies (u, c) = Some (e, u', c')"
  shows "\<exists>t. flush_read_loop n L cb k (u, c) = Some (e, u', c'\<lparr>rc_transport := t\<rparr>) \<and>
    (e = OK \<longrightarrow> tr_ready t \<and> tr_stream L t = rest)"
  by (rule flush_read_loop_frames [OF assms(1,5,6,7,2,3,4,8,9)])

theorem flush_read_in_order_witness:
  "\<exists>t c'. flush_read_loop 3 toy_lib sample_callback auth_key_default
      ([], sample_connection (frame_of (replicate 8 0 @ [1] @ replicate 11 0 @ [2,3,4,5]) @ frame_of [0, 0, 0, 0] @ [1])) =
      Some (OK, [[1, 0, 0, 0, 0, 0, 0, 0, 0, 0, 0, 0, 2, 3, 4, 5]], c'\<lparr>rc_transport := t\<rparr>)"
proof -
  let ?b = "replicate 8 0 @ [1] @ replicate 11 0 @ [2,3,4,5] :: bytes"
  let ?c = "sample_connection (frame_of ?b @ frame_of [0, 0, 0, 0] @ [1])"
  obtain c' where h: "handle_packets toy_lib sample_callback auth_key_default [?b, [0, 0, 0, 0]] ([], ?c) =
      Some (OK, [[1, 0, 0, 0, 0, 0, 0, 0, 0, 0, 0, 0, 2, 3, 4, 5]], c')"
    by (simp add: process_packet_def transport_read_def u64_of_bytes_def u32_of_bytes_def packet_info_init_def Let_def
        read_no_crypto_def calc_no_crypto_size_def make_packet_def sample_callback_def numeral_eq_Suc)
  show ?thesis
    using flush_read_in_order [OF toy_laws _ _ _ _ _ _ _ h, of "[1]" 4 3]
    by (auto simp: sample_connection_def read_from_stream_def MAX_PACKET_SIZE_def)
qed


lemma sample_send:
  "\<exists>n c1. send_crypto toy_lib 0 (\<lambda>n. replicate n 7) 0 (\<lambda>n. replicate n 7) [StoreSlice (replicate 20 5)] 1 2
    (auth_key_of 1 (replicate 256 3)) 9 (sample_connection []) = Some (n, c1)"
  using send_crypto_returns [OF toy_laws, of "auth_key_of 1 (replicate 256 3)" "sample_connection []"
      "[StoreSlice (replicate 20 5)]" "replicate 20 5" "\<lambda>n. replicate n 7" "\<lambda>n. replicate n 7" 0 0 1 2 9]
  by (auto simp: auth_key_of_def sample_connection_def)




text \<open>
  C28. After the first \<open>flush\<close> that returns an error every later one fails with
  \<open>Connection has already failed\<close> and changes neither the client nor the transport.
\<close>

theorem flush_error_sticky:
  assumes "rc_flush n L cb k io (u, c) = Some (e, u1, c1)" and "e \<noteq> OK"
  shows "\<exists>c2. rc_flush m L cb' k' io' (u1, c1) = Some (Err ''Connection has already failed'', u1, c2) \<and>
    rc_has_error c2 \<and> rc_transport c2 = rc_transport c1"
proof -
  have "rc_has_error c1"
    using assms by (auto simp: rc_flush_def split: option.splits if_splits)
  then show ?thesis by (simp add: rc_flush_def do_flush_def stat_def)
qed

theorem flush_error_sticky_witness:
  "\<exists>c2. rc_flush 1 toy_lib sample_callback auth_key_default
      \<lparr>so_pending_error = OK, so_read = ([], OK), so_write = Inr 0, so_can_close = False\<rparr>
      ([], (sample_connection [])\<lparr>rc_stats := [StatError], rc_has_error := True\<rparr>) =
      Some (Err ''Connection has already failed'', [], c2) \<and> rc_has_error c2"
proof -
  have "rc_flush 1 toy_lib sample_callback auth_key_default
      \<lparr>so_pending_error = Error 1 ''reset'', so_read = ([], OK), so_write = Inr 0, so_can_close = False\<rparr>
      ([], sample_connection []) =
      Some (Error 1 ''reset'', [], (sample_connection [])\<lparr>rc_stats := [StatError], rc_has_error := True\<rparr>)"
    by (simp add: rc_flush_def do_flush_def stat_def sample_connection_def)
  from flush_error_sticky [OF this] show ?thesis by blast
qed

end
