(* ===== verification/Storers.thy ===== *)
theory Storers
  imports AuthData
begin

text \<open>
  The storers of outgoing packets: \<open>td/mtproto/CryptoStorer.h\<close>, \<open>PacketStorer.h\<close>,
  \<open>NoCryptoStorer.h\<close> and \<open>MtprotoQuery.h\<close>.  The serialization of the generated
  \<open>mtproto_api\<close> objects is the parameter \<open>api\<close>.
\<close>

section \<open>Queries and service requests\<close>

record mtproto_query =
  mq_message_id :: u64
  mq_seq_no :: u32
  mq_packet :: bytes
  mq_gzip_flag :: bool
  mq_invoke_after :: "u64 list"
  mq_use_quick_ack :: bool

text \<open>The objects of \<open>mtproto_api\<close> that a client sends, with the arguments of their constructors.\<close>

datatype mt_request =
    ReqMsgsAck "u64 list"
  | ReqPingDelayDisconnect u64 int
  | ReqHttpWait int int int
  | ReqGetFutureSalts int
  | ReqMsgResendReq "u64 list"
  | ReqRpcDropAnswer u64
  | ReqMsgsStateReq "u64 list"
  | ReqDestroyAuthKey
  | ReqGzipPacked bytes
  | ReqBindAuthKeyInner u64 u64 u64 u64 int

text \<open>\<open>rx last\<close> is what \<open>Random::secure_int32()\<close> returns while the last message identifier is
  \<open>last\<close>; identifiers do not repeat, so every sequence of random numbers is such a function.\<close>

definition next_id :: "(u64 \<Rightarrow> u32) \<Rightarrow> time \<Rightarrow> auth_data \<Rightarrow> u64 \<times> auth_data" where
  "next_id rx now ad = next_message_id now (rx (ad_last_message_id ad)) ad"

record object_impl =
  oi_not_empty :: bool
  oi_object :: mt_request
  oi_message_id :: u64
  oi_seq_no :: u32

definition object_impl_new ::
  "(u64 \<Rightarrow> u32) \<Rightarrow> time \<Rightarrow> bool \<Rightarrow> mt_request \<Rightarrow> auth_data \<Rightarrow> object_impl \<times> auth_data" where
  "object_impl_new rx now not_empty object ad =
     (if \<not> not_empty
      then (\<lparr>oi_not_empty = False, oi_object = object, oi_message_id = 0, oi_seq_no = 0\<rparr>, ad)
      else (case next_id rx now ad of (message_id, ad1) \<Rightarrow>
             (case next_seq_no False ad1 of (seq_no, ad2) \<Rightarrow>
               (\<lparr>oi_not_empty = True, oi_object = object, oi_message_id = message_id, oi_seq_no = seq_no\<rparr>, ad2))))"

definition object_store :: "(mt_request \<Rightarrow> bytes) \<Rightarrow> object_impl \<Rightarrow> store_call list" where
  "object_store api oi =
     (if \<not> oi_not_empty oi then []
      else [StoreBinary (bytes_of_u64 (oi_message_id oi)), StoreBinary (bytes_of_u32 (oi_seq_no oi)),
            StoreBinary (bytes_of_u32 (of_nat (length (api (oi_object oi))))),
            StoreStorer [StoreSlice (api (oi_object oi))]])"

fun cancel_vector_new :: "(u64 \<Rightarrow> u32) \<Rightarrow> time \<Rightarrow> u64 list \<Rightarrow> auth_data \<Rightarrow> object_impl list \<times> auth_data" where
  "cancel_vector_new rx now [] ad = ([], ad)"
| "cancel_vector_new rx now (request_id # ids) ad =
     (case object_impl_new rx now True (ReqRpcDropAnswer request_id) ad of (oi, ad1) \<Rightarrow>
        (case cancel_vector_new rx now ids ad1 of (ois, ad2) \<Rightarrow> (oi # ois, ad2)))"

definition cancel_vector_store :: "(mt_request \<Rightarrow> bytes) \<Rightarrow> object_impl list \<Rightarrow> store_call list" where
  "cancel_vector_store api ois = map (\<lambda>oi. StoreStorer (object_store api oi)) ois"

definition cancel_vector_get_message_id :: "object_impl list \<Rightarrow> u64 option" where
  "cancel_vector_get_message_id ois = (case ois of [oi] \<Rightarrow> Some (oi_message_id oi) | _ \<Rightarrow> None)"

definition invoke_after_store :: "u64 list \<Rightarrow> store_call list" where
  "invoke_after_store message_ids =
     (case message_ids of
        [] \<Rightarrow> []
      | [message_id] \<Rightarrow> [StoreBinary (bytes_of_u32 0xcb9f372d), StoreBinary (bytes_of_u64 message_id)]
      | _ \<Rightarrow> StoreBinary (bytes_of_u32 0x3dc4b4f0) # StoreBinary (bytes_of_u32 0x1cb5c415)
             # StoreCheck (length message_ids < 2 ^ 31)
             # StoreBinary (bytes_of_u32 (of_nat (length message_ids)))
             # map (\<lambda>m. StoreBinary (bytes_of_u64 m)) message_ids)"

text \<open>\<open>PacketStorer::size\<close> and the sizes of the library's storers: a length calculation; a failing
  \<open>CHECK\<close> in it aborts when the same storer is stored.\<close>

definition storer_size :: "store_call list \<Rightarrow> nat" where
  "storer_size cs = (case run_calc cs 0 of Some n \<Rightarrow> n | None \<Rightarrow> 0)"

definition query_store :: "(mt_request \<Rightarrow> bytes) \<Rightarrow> bytes \<Rightarrow> mtproto_query \<Rightarrow> store_call list" where
  "query_store api header query =
     (let data_storer = (if mq_gzip_flag query then [StoreSlice (api (ReqGzipPacked (mq_packet query)))]
                         else [StoreSlice (mq_packet query)]);
          suff_storer = [StoreStorer (invoke_after_store (mq_invoke_after query)), StoreStorer data_storer];
          all_storer = [StoreStorer [StoreSlice header], StoreStorer suff_storer]
      in [StoreBinary (bytes_of_u64 (mq_message_id query)), StoreBinary (bytes_of_u32 (mq_seq_no query)),
          StoreBinary (bytes_of_u32 (of_nat (storer_size all_storer))), StoreStorer all_storer])"

definition query_vector_store :: "(mt_request \<Rightarrow> bytes) \<Rightarrow> bytes \<Rightarrow> mtproto_query list \<Rightarrow> store_call list" where
  "query_vector_store api header to_send = map (\<lambda>q. StoreStorer (query_store api header q)) to_send"

definition msg_container_ID :: u32 where "msg_container_ID = 0x73f1f8dc"

definition container_store :: "u32 \<Rightarrow> store_call list \<Rightarrow> store_call list" where
  "container_store cnt storer =
     [StoreBinary (bytes_of_u32 msg_container_ID), StoreBinary (bytes_of_u32 cnt), StoreStorer storer]"

section \<open>CryptoImpl\<close>

datatype crypto_type =
  OnlyQuery | OnlyAck | OnlyPing | OnlyHttpWait | OnlyGetFutureSalts | OnlyResend | OnlyCancel | OnlyGetInfo
  | OnlyDestroyKey | Mixed

text \<open>The arguments of the constructor.\<close>

record crypto_args =
  ca_to_send :: "mtproto_query list"
  ca_header :: bytes
  ca_to_ack :: "u64 list"
  ca_ping_id :: u64
  ca_ping_timeout :: int
  ca_max_delay :: int
  ca_max_after :: int
  ca_max_wait :: int
  ca_future_salt_n :: int
  ca_get_info :: "u64 list"
  ca_resend :: "u64 list"
  ca_cancel :: "u64 list"
  ca_destroy_key :: bool

record crypto_impl =
  ci_to_send :: "mtproto_query list"
  ci_header :: bytes
  ci_ack :: object_impl
  ci_http_wait :: object_impl
  ci_get_future_salts :: object_impl
  ci_get_info :: object_impl
  ci_resend :: object_impl
  ci_cancel :: "object_impl list"
  ci_destroy_key :: object_impl
  ci_ping :: object_impl
  ci_cnt :: nat
  ci_type :: crypto_type
  ci_message_id :: u64
  ci_seq_no :: u32

text \<open>What the constructor writes through its pointers; \<open>0\<close> is the default \<open>MessageId()\<close>.\<close>

record crypto_ids =
  id_container :: u64
  id_get_info :: u64
  id_resend :: u64
  id_ping :: u64
  id_parent :: u64

text \<open>The members in the order of their declaration, each taking its identifier from the authorization
  data.\<close>

definition crypto_members ::
  "(u64 \<Rightarrow> u32) \<Rightarrow> time \<Rightarrow> crypto_args \<Rightarrow> auth_data \<Rightarrow> crypto_impl \<times> auth_data" where
  "crypto_members rx now a ad0 =
     (case object_impl_new rx now (ca_to_ack a \<noteq> []) (ReqMsgsAck (ca_to_ack a)) ad0 of (ack, ad1) \<Rightarrow>
     (case object_impl_new rx now (ca_max_delay a \<ge> 0) (ReqHttpWait (ca_max_delay a) (ca_max_after a) (ca_max_wait a)) ad1
        of (http_wait, ad2) \<Rightarrow>
     (case object_impl_new rx now (ca_future_salt_n a > 0) (ReqGetFutureSalts (ca_future_salt_n a)) ad2
        of (future_salts, ad3) \<Rightarrow>
     (case object_impl_new rx now (ca_get_info a \<noteq> []) (ReqMsgsStateReq (ca_get_info a)) ad3 of (get_info, ad4) \<Rightarrow>
     (case object_impl_new rx now (ca_resend a \<noteq> []) (ReqMsgResendReq (ca_resend a)) ad4 of (resend, ad5) \<Rightarrow>
     (case cancel_vector_new rx now (ca_cancel a) ad5 of (cancel, ad6) \<Rightarrow>
     (case object_impl_new rx now (ca_destroy_key a) ReqDestroyAuthKey ad6 of (destroy_key, ad7) \<Rightarrow>
     (case object_impl_new rx now (ca_ping_id a \<noteq> 0) (ReqPingDelayDisconnect (ca_ping_id a) (ca_ping_timeout a)) ad7
        of (ping, ad8) \<Rightarrow>
        (\<lparr>ci_to_send = ca_to_send a, ci_header = ca_header a, ci_ack = ack, ci_http_wait = http_wait,
          ci_get_future_salts = future_salts, ci_get_info = get_info, ci_resend = resend, ci_cancel = cancel,
          ci_destroy_key = destroy_key, ci_ping = ping,
          ci_cnt = length (ca_to_send a) + of_bool (oi_not_empty ack) + of_bool (oi_not_empty ping)
            + of_bool (oi_not_empty http_wait) + of_bool (oi_not_empty future_salts)
            + of_bool (oi_not_empty get_info) + of_bool (oi_not_empty resend) + length (ca_cancel a)
            + of_bool (oi_not_empty destroy_key),
          ci_type = Mixed, ci_message_id = 0, ci_seq_no = 0\<rparr>, ad8)))))))))"

text \<open>The type of a packet with one message, and the identifier of that message.\<close>

definition single_type :: "crypto_impl \<Rightarrow> (crypto_type \<times> u64) option" where
  "single_type c =
     (case ci_to_send c of
        q # qs \<Rightarrow> if qs = [] then Some (OnlyQuery, mq_message_id q) else None
      | [] \<Rightarrow>
        if oi_not_empty (ci_ack c) then Some (OnlyAck, oi_message_id (ci_ack c))
        else if oi_not_empty (ci_ping c) then Some (OnlyPing, oi_message_id (ci_ping c))
        else if oi_not_empty (ci_http_wait c) then Some (OnlyHttpWait, oi_message_id (ci_http_wait c))
        else if oi_not_empty (ci_get_future_salts c)
        then Some (OnlyGetFutureSalts, oi_message_id (ci_get_future_salts c))
        else if oi_not_empty (ci_get_info c) then Some (OnlyGetInfo, oi_message_id (ci_get_info c))
        else if oi_not_empty (ci_resend c) then Some (OnlyResend, oi_message_id (ci_resend c))
        else if ci_cancel c \<noteq> [] then map_option (Pair OnlyCancel) (cancel_vector_get_message_id (ci_cancel c))
        else if oi_not_empty (ci_destroy_key c) then Some (OnlyDestroyKey, oi_message_id (ci_destroy_key c))
        else None)"

definition crypto_impl_new ::
  "(u64 \<Rightarrow> u32) \<Rightarrow> time \<Rightarrow> crypto_args \<Rightarrow> auth_data \<Rightarrow> (crypto_impl \<times> crypto_ids \<times> auth_data) option" where
  "crypto_impl_new rx now a ad0 =
     (case crypto_members rx now a ad0 of (c, ad) \<Rightarrow>
       if ci_cnt c = 0 then None
       else (let ids = \<lparr>id_container = 0,
                   id_get_info = (if oi_not_empty (ci_get_info c) then oi_message_id (ci_get_info c) else 0),
                   id_resend = (if oi_not_empty (ci_resend c) then oi_message_id (ci_resend c) else 0),
                   id_ping = (if oi_not_empty (ci_ping c) then oi_message_id (ci_ping c) else 0),
                   id_parent = 0\<rparr>
             in if ci_cnt c > 1 \<or> (ca_to_send a \<noteq> [] \<and>
                     \<not> is_valid_outbound_msg_id (mq_message_id (ca_to_send a ! 0)) now ad)
                then (case next_id rx now ad of (message_id, ad1) \<Rightarrow>
                       (case next_seq_no False ad1 of (seq_no, ad2) \<Rightarrow>
                         Some (c\<lparr>ci_type := Mixed, ci_message_id := message_id, ci_seq_no := seq_no\<rparr>,
                               ids\<lparr>id_container := message_id, id_parent := message_id\<rparr>, ad2)))
                else (case single_type c of None \<Rightarrow> None
                      | Some (t, m) \<Rightarrow> Some (c\<lparr>ci_type := t\<rparr>, ids\<lparr>id_parent := m\<rparr>, ad))))"

text \<open>\<open>concat_storer_\<close>: the queries, then the service messages in the order the constructor nests them.\<close>

definition concat_store :: "(mt_request \<Rightarrow> bytes) \<Rightarrow> crypto_impl \<Rightarrow> store_call list" where
  "concat_store api c =
     [StoreStorer (query_vector_store api (ci_header c) (ci_to_send c)), StoreStorer (object_store api (ci_ack c)),
      StoreStorer (object_store api (ci_http_wait c)), StoreStorer (object_store api (ci_get_future_salts c)),
      StoreStorer (object_store api (ci_get_info c)), StoreStorer (object_store api (ci_resend c)),
      StoreStorer (cancel_vector_store api (ci_cancel c)), StoreStorer (object_store api (ci_destroy_key c)),
      StoreStorer (object_store api (ci_ping c))]"

definition crypto_store :: "(mt_request \<Rightarrow> bytes) \<Rightarrow> crypto_impl \<Rightarrow> store_call list" where
  "crypto_store api c =
     (case ci_type c of
        OnlyAck \<Rightarrow> [StoreStorer (object_store api (ci_ack c))]
      | OnlyQuery \<Rightarrow> [StoreStorer (query_vector_store api (ci_header c) (ci_to_send c))]
      | OnlyPing \<Rightarrow> [StoreStorer (object_store api (ci_ping c))]
      | OnlyHttpWait \<Rightarrow> [StoreStorer (object_store api (ci_http_wait c))]
      | OnlyGetFutureSalts \<Rightarrow> [StoreStorer (object_store api (ci_get_future_salts c))]
      | OnlyResend \<Rightarrow> [StoreStorer (object_store api (ci_resend c))]
      | OnlyCancel \<Rightarrow> [StoreStorer (cancel_vector_store api (ci_cancel c))]
      | OnlyGetInfo \<Rightarrow> [StoreStorer (object_store api (ci_get_info c))]
      | OnlyDestroyKey \<Rightarrow> [StoreStorer (object_store api (ci_destroy_key c))]
      | Mixed \<Rightarrow>
          (let container = container_store (of_nat (ci_cnt c)) (concat_store api c)
           in [StoreBinary (bytes_of_u64 (ci_message_id c)), StoreBinary (bytes_of_u32 (ci_seq_no c)),
               StoreBinary (bytes_of_u32 (of_nat (storer_size container))), StoreStorer container]))"

section \<open>NoCryptoImpl\<close>

text \<open>\<open>rnd\<close> is the random number that chooses the padding and \<open>pad\<close> fills it; a
  negative \<open>int32\<close> converts to a \<open>size_t\<close> with the same remainder.\<close>

definition no_crypto_pad_size :: "bool \<Rightarrow> u32 \<Rightarrow> nat \<Rightarrow> nat" where
  "no_crypto_pad_size need_pad rnd data_size =
     (if need_pad then (16 - data_size mod 16) mod 16 + 16 * (unat rnd mod 16) else 0)"

definition no_crypto_store :: "u32 \<Rightarrow> (nat \<Rightarrow> bytes) \<Rightarrow> u64 \<Rightarrow> store_call list \<Rightarrow> bool \<Rightarrow> store_call list" where
  "no_crypto_store rnd pad message_id data need_pad =
     (let pad_size = no_crypto_pad_size need_pad rnd (storer_size data)
      in [StoreBinary (bytes_of_u64 message_id), StoreBinary (bytes_of_u32 (of_nat (storer_size data + pad_size))),
          StoreStorer data, StoreSlice (pad pad_size)])"

end
