(* ===== verification/SessionConn.thy ===== *)
theory SessionConn
  imports Storers RawConn
begin

text \<open>
  \<open>td/mtproto/SessionConnection.h\<close> and \<open>SessionConnection.cpp\<close>: the state of a session's
  connection and every handler of it.  Calls of the callback are recorded as events, and what they
  return is an argument (a function of the events so far).  The generated parsers of
  \<open>mtproto_api\<close>, \<open>gzdecode\<close>, the clocks and the random numbers are arguments too.
\<close>

section \<open>Data\<close>

datatype sc_mode = ModeTcp | ModeHttp | ModeHttpLongPoll

datatype sc_state = StateInit | StateRun | StateFail | StateClosed

datatype service_query_type = GetStateInfo | ResendAnswer

record service_query =
  sq_type :: service_query_type
  sq_container_message_id :: u64
  sq_msg_ids :: "u64 list"

record msg_info =
  mi_message_id :: u64
  mi_seq_no :: u32
  mi_size :: nat

text \<open>The objects of \<open>mtproto_api\<close> that a client receives.\<close>

datatype mt_object =
    DestroyAuthKeyOk | DestroyAuthKeyNone | DestroyAuthKeyFail
  | NewSessionCreated (first_msg_id: u64) (unique_id: u64)
  | BadMsgNotification (bad_msg_id: u64) (bad_msg_seqno: u32) (error_code: int)
  | BadServerSalt (bad_salt_msg_id: u64) (bad_salt_msg_seqno: u32) (new_server_salt: u64)
  | MsgsAck "u64 list"
  | GzipPacked bytes
  | Pong (pong_msg_id: u64) (pong_ping_id: u64)
  | FutureSalts "(u64 \<times> int \<times> int) list"
  | MsgsStateInfo u64 bytes
  | MsgsAllInfo "u64 list" bytes
  | MsgDetailedInfo u64 u64 int int
  | MsgNewDetailedInfo u64 int
  | OtherObject

datatype session_event =
    OnConnected
  | OnClosed status
  | OnServerSaltUpdated
  | OnServerTimeDifferenceUpdated bool
  | OnNewSessionCreated u64 u64
  | OnSessionFailed status
  | OnContainerSent u64 "u64 list"
  | OnPong time time time
  | OnUpdate bytes
  | OnMessageAck u64
  | OnMessageResultOk u64 bytes nat
  | OnMessageResultError u64 int bytes
  | OnMessageFailed u64 status
  | OnMessageInfo u64 int u64 int int
  | OnDestroyAuthKey

text \<open>
  \<open>se_fetch id data\<close> is \<open>None\<close> when \<open>id\<close> is not a constructor of
  \<open>mtproto_api\<close>, else the result of fetching the object with nothing left over.
\<close>

record session_env =
  se_now :: time
  se_cached :: time
  se_rx :: "u64 \<Rightarrow> u32"
  se_answer :: "session_event list \<Rightarrow> status"
  se_gzdecode :: "bytes \<Rightarrow> bytes"
  se_fetch :: "u32 \<Rightarrow> bytes \<Rightarrow> (status + mt_object) option"
  se_fetch_rpc_error :: "bytes \<Rightarrow> string + int \<times> bytes"
  se_fetch_gzip :: "bytes \<Rightarrow> string + bytes"
  se_api :: "mt_request \<Rightarrow> bytes"

record session_connection =
  sc_online_flag :: bool
  sc_is_main :: bool
  sc_raw_rtt :: time
  sc_to_send :: "mtproto_query list"
  sc_to_ack :: "u64 list"
  sc_force_send_at :: time
  sc_to_resend_answer :: "u64 list"
  sc_to_cancel_answer :: "u64 list"
  sc_to_get_state_info :: "u64 list"
  sc_service_queries :: "u64 \<rightharpoonup> service_query"
  sc_container_to_service :: "u64 \<rightharpoonup> u64 list"
  sc_random_delay :: time
  sc_last_read_at :: time
  sc_last_ping_at :: time
  sc_last_pong_at :: time
  sc_real_last_read_at :: time
  sc_real_last_pong_at :: time
  sc_last_ping_message_id :: u64
  sc_last_ping_container_message_id :: u64
  sc_last_read_size :: nat
  sc_last_write_size :: nat
  sc_need_destroy_auth_key :: bool
  sc_sent_destroy_auth_key :: bool
  sc_destroy_auth_key_send_time :: time
  sc_flush_packet_at :: time
  sc_last_get_future_salt_at :: time
  sc_state :: sc_state
  sc_mode :: sc_mode
  sc_connected_flag :: bool
  sc_container_message_id :: u64
  sc_main_message_id :: u64
  sc_created_at :: time
  sc_auth :: auth_data
  sc_events :: "session_event list"

definition session_connection_new :: "sc_mode \<Rightarrow> time \<Rightarrow> time \<Rightarrow> time \<Rightarrow> auth_data \<Rightarrow> session_connection" where
  "session_connection_new mode random_delay now raw_rtt ad =
     \<lparr>sc_online_flag = False, sc_is_main = False, sc_raw_rtt = raw_rtt, sc_to_send = [], sc_to_ack = [],
      sc_force_send_at = 0, sc_to_resend_answer = [], sc_to_cancel_answer = [], sc_to_get_state_info = [],
      sc_service_queries = Map.empty, sc_container_to_service = Map.empty, sc_random_delay = random_delay,
      sc_last_read_at = 0, sc_last_ping_at = 0, sc_last_pong_at = 0, sc_real_last_read_at = 0,
      sc_real_last_pong_at = 0, sc_last_ping_message_id = 0, sc_last_ping_container_message_id = 0,
      sc_last_read_size = 0, sc_last_write_size = 0, sc_need_destroy_auth_key = False,
      sc_sent_destroy_auth_key = False, sc_destroy_auth_key_send_time = 0, sc_flush_packet_at = 0,
      sc_last_get_future_salt_at = 0, sc_state = StateInit, sc_mode = mode, sc_connected_flag = False,
      sc_container_message_id = 0, sc_main_message_id = 0, sc_created_at = now, sc_auth = ad, sc_events = []\<rparr>"

text \<open>A call of the callback, and the status it returns.\<close>

definition emit :: "session_event \<Rightarrow> session_connection \<Rightarrow> session_connection" where
  "emit e st = st\<lparr>sc_events := sc_events st @ [e]\<rparr>"

definition ask :: "session_env \<Rightarrow> session_event \<Rightarrow> session_connection \<Rightarrow> status \<times> session_connection" where
  "ask env e st = (se_answer env (sc_events (emit e st)), emit e st)"

section \<open>Delays\<close>

definition rtt :: "session_connection \<Rightarrow> time" where
  "rtt st = max 2 (sc_raw_rtt st * (3 / 2) + 1)"

definition read_disconnect_delay :: "session_connection \<Rightarrow> time" where
  "read_disconnect_delay st = (if sc_online_flag st then rtt st * (7 / 2) else 135 + sc_random_delay st)"

definition ping_disconnect_delay :: "session_connection \<Rightarrow> time" where
  "ping_disconnect_delay st =
     (if sc_online_flag st \<and> sc_is_main st then rtt st * (5 / 2) else 135 + sc_random_delay st)"

definition ping_may_delay :: "session_connection \<Rightarrow> time" where
  "ping_may_delay st = (if sc_online_flag st then rtt st * (1 / 2) else 30 + sc_random_delay st)"

definition ping_must_delay :: "session_connection \<Rightarrow> time" where
  "ping_must_delay st = (if sc_online_flag st then rtt st else 60 + sc_random_delay st)"

definition http_max_wait :: time where "http_max_wait = 25"
definition ACK_DELAY :: time where "ACK_DELAY = 30"
definition QUERY_DELAY :: time where "QUERY_DELAY = 1 / 1000"
definition RESEND_ANSWER_DELAY :: time where "RESEND_ANSWER_DELAY = 1 / 1000"
definition HTTP_MAX_AFTER :: int where "HTTP_MAX_AFTER = 10"
definition HTTP_MAX_DELAY :: int where "HTTP_MAX_DELAY = 30"
definition MAX_UNACKED_PACKETS :: nat where "MAX_UNACKED_PACKETS = 100"
definition MAX_QUERY_COUNT :: nat where "MAX_QUERY_COUNT = 1000"

definition relax_timeout_at :: "time \<Rightarrow> time \<Rightarrow> time" where
  "relax_timeout_at timeout new_timeout =
     (if new_timeout = 0 then timeout
      else if timeout = 0 \<or> new_timeout < timeout then new_timeout else timeout)"

section \<open>Requests of the owner\<close>

definition send_before :: "time \<Rightarrow> session_connection \<Rightarrow> session_connection" where
  "send_before tm st =
     (if sc_force_send_at st = 0 \<or> sc_force_send_at st > tm then st\<lparr>sc_force_send_at := tm\<rparr> else st)"

definition get_state_info :: "session_env \<Rightarrow> u64 \<Rightarrow> session_connection \<Rightarrow> session_connection" where
  "get_state_info env message_id st =
     (let st' = (if sc_to_get_state_info st = [] then send_before (se_cached env) st else st)
      in st'\<lparr>sc_to_get_state_info := sc_to_get_state_info st' @ [message_id]\<rparr>)"

definition resend_answer :: "session_env \<Rightarrow> u64 \<Rightarrow> session_connection \<Rightarrow> session_connection" where
  "resend_answer env message_id st =
     (let st' = (if sc_to_resend_answer st = [] then send_before (se_cached env + RESEND_ANSWER_DELAY) st else st)
      in st'\<lparr>sc_to_resend_answer := sc_to_resend_answer st' @ [message_id]\<rparr>)"

definition cancel_answer :: "session_env \<Rightarrow> u64 \<Rightarrow> session_connection \<Rightarrow> session_connection" where
  "cancel_answer env message_id st =
     (let st' = (if sc_to_cancel_answer st = [] then send_before (se_cached env + RESEND_ANSWER_DELAY) st else st)
      in st'\<lparr>sc_to_cancel_answer := sc_to_cancel_answer st' @ [message_id]\<rparr>)"

definition destroy_key :: "session_connection \<Rightarrow> session_connection" where
  "destroy_key st = st\<lparr>sc_need_destroy_auth_key := True\<rparr>"

definition force_ack :: "session_env \<Rightarrow> session_connection \<Rightarrow> session_connection" where
  "force_ack env st = (if sc_to_ack st \<noteq> [] then send_before (se_cached env) st else st)"

definition send_ack :: "session_env \<Rightarrow> u64 \<Rightarrow> session_connection \<Rightarrow> session_connection" where
  "send_ack env message_id st =
     (let st1 = (if sc_to_ack st = [] then send_before (se_cached env + ACK_DELAY) st else st)
      in if sc_to_ack st1 = [] \<or> last (sc_to_ack st1) \<noteq> message_id
         then (let st2 = st1\<lparr>sc_to_ack := sc_to_ack st1 @ [message_id]\<rparr>
               in if length (sc_to_ack st2) \<ge> MAX_UNACKED_PACKETS then send_before (se_cached env) st2 else st2)
         else st1)"

definition send_query ::
  "session_env \<Rightarrow> bytes \<Rightarrow> bool \<Rightarrow> u64 \<Rightarrow> u64 list \<Rightarrow> bool \<Rightarrow> session_connection \<Rightarrow> (u64 \<times> session_connection) option" where
  "send_query env buffer gzip_flag message_id0 invoke_after use_quick_ack st =
     (if sc_mode st = ModeHttpLongPoll then None
      else (case (if message_id0 = 0 then next_id (se_rx env) (se_cached env) (sc_auth st) else (message_id0, sc_auth st))
              of (message_id, ad1) \<Rightarrow>
             (case next_seq_no True ad1 of (seq_no, ad2) \<Rightarrow>
               (let st1 = st\<lparr>sc_auth := ad2\<rparr>;
                    st2 = (if sc_to_send st1 = [] then send_before (se_cached env + QUERY_DELAY) st1 else st1)
                in Some (message_id, st2\<lparr>sc_to_send := sc_to_send st2 @
                     [\<lparr>mq_message_id = message_id, mq_seq_no = seq_no, mq_packet = buffer, mq_gzip_flag = gzip_flag,
                       mq_invoke_after = invoke_after, mq_use_quick_ack = use_quick_ack\<rparr>]\<rparr>)))))"

definition set_online :: "session_env \<Rightarrow> bool \<Rightarrow> bool \<Rightarrow> session_connection \<Rightarrow> session_connection" where
  "set_online env online_flag is_main st =
     (let need_ping = (online_flag \<or> \<not> sc_online_flag st);
          st1 = st\<lparr>sc_online_flag := online_flag, sc_is_main := is_main\<rparr>;
          now = se_now env;
          st2 = (if need_ping
                 then st1\<lparr>sc_last_pong_at := now - ping_disconnect_delay st1 + rtt st1,
                          sc_last_read_at := now - read_disconnect_delay st1 + rtt st1\<rparr>
                 else st1\<lparr>sc_last_pong_at := now, sc_last_read_at := now\<rparr>)
      in st2\<lparr>sc_last_ping_at := 0, sc_last_ping_message_id := 0, sc_last_ping_container_message_id := 0\<rparr>)"

section \<open>Incoming messages\<close>

definition parse_message :: "bool \<Rightarrow> tl_parser \<Rightarrow> (status \<times> msg_info \<times> bytes \<times> tl_parser) option" where
  "parse_message crypto_flag p0 =
     (let bad = Err ''Failed to parse mtproto_api::message: '';
          none = \<lparr>mi_message_id = 0, mi_seq_no = 0, mi_size = 0\<rparr>
      in case check_len (8 + (if crypto_flag then 4 else 0) + 4) p0 of
           None \<Rightarrow> None
         | Some (_, p1) \<Rightarrow>
           if p_error p1 \<noteq> [] then Some (bad, none, [], p1)
           else (case fetch_long_unsafe p1 of None \<Rightarrow> None | Some (message_id, p2) \<Rightarrow>
                (case (if crypto_flag then fetch_int_unsafe p2 else Some (0, p2)) of None \<Rightarrow> None | Some (seq_no, p3) \<Rightarrow>
                (case fetch_int_unsafe p3 of None \<Rightarrow> None | Some (nbytes, p4) \<Rightarrow>
                (let info = \<lparr>mi_message_id = message_id, mi_seq_no = seq_no, mi_size = 0\<rparr> in
                 if unat nbytes mod 4 \<noteq> 0 then Some (bad, info, [], p4)
                 else (case fetch_string_raw (unat nbytes) p4 of None \<Rightarrow> None
                       | Some (packet, p5) \<Rightarrow>
                         if p_error p5 \<noteq> [] then Some (bad, info, packet, p5)
                         else Some (OK, info\<lparr>mi_size := unat nbytes\<rparr>, packet, p5)))))))"

type_synonym packet_handler = "msg_info \<Rightarrow> bytes \<Rightarrow> session_connection \<Rightarrow> (status \<times> session_connection) option"

definition parse_packet ::
  "(msg_info \<Rightarrow> bytes \<Rightarrow> 'st \<Rightarrow> (status \<times> 'st) option) \<Rightarrow> tl_parser \<Rightarrow> 'st \<Rightarrow> (status \<times> tl_parser \<times> 'st) option" where
  "parse_packet handle p st =
     (case parse_message True p of
        None \<Rightarrow> None
      | Some (e, info, packet, p') \<Rightarrow>
        if e \<noteq> OK then Some (e, p', st)
        else map_option (\<lambda>(e', st'). (e', p', st')) (handle info packet st))"

fun parse_packets ::
  "(msg_info \<Rightarrow> bytes \<Rightarrow> 'st \<Rightarrow> (status \<times> 'st) option) \<Rightarrow> nat \<Rightarrow> tl_parser \<Rightarrow> 'st \<Rightarrow> (status \<times> tl_parser \<times> 'st) option" where
  "parse_packets handle 0 p st = Some (OK, p, st)"
| "parse_packets handle (Suc i) p st =
     (case parse_packet handle p st of
        None \<Rightarrow> None
      | Some (e, p', st') \<Rightarrow> if e \<noteq> OK then Some (e, p', st') else parse_packets handle i p' st')"

definition on_packet_container :: "packet_handler \<Rightarrow> packet_handler" where
  "on_packet_container handle info packet st =
     (let old = sc_container_message_id st;
          st1 = st\<lparr>sc_container_message_id := mi_message_id info\<rparr>
      in case fetch_int (tl_parser_of packet) of
           None \<Rightarrow> None
         | Some (sz, p) \<Rightarrow>
           if p_error p \<noteq> []
           then Some (Err ''Failed to parse mtproto_api::rpc_container: '', st1\<lparr>sc_container_message_id := old\<rparr>)
           else map_option (\<lambda>(e, _, st2). (e, st2\<lparr>sc_container_message_id := old\<rparr>))
                  (parse_packets handle (nat (sint sz)) p st1))"

definition sc_reset_server_time_difference :: "session_env \<Rightarrow> u64 \<Rightarrow> session_connection \<Rightarrow> session_connection" where
  "sc_reset_server_time_difference env message_id st =
     emit (OnServerTimeDifferenceUpdated True)
       (st\<lparr>sc_auth := reset_server_time_difference (of_nat (unat (drop_bit 32 message_id)) - se_now env) (sc_auth st)\<rparr>)"

definition rpc_error_ID :: u32 where "rpc_error_ID = 0x2144ca19"
definition gzip_packed_ID :: u32 where "gzip_packed_ID = 0x3072cfa1"
definition rpc_result_ID :: u32 where "rpc_result_ID = of_int (- 212046591)"

definition on_packet_rpc_result :: "session_env \<Rightarrow> packet_handler" where
  "on_packet_rpc_result env info packet st =
     (case fetch_long (tl_parser_of packet) of
        None \<Rightarrow> None
      | Some (req_msg_id, p) \<Rightarrow>
        if p_error p \<noteq> [] then Some (Err ''Failed to parse mtproto_api::rpc_result: '', st)
        else if req_msg_id = 0 then Some (Err ''Receive an update in rpc_result'', st)
        else (let st1 = (if mi_message_id info < req_msg_id - push_bit 32 15
                         then sc_reset_server_time_difference env (mi_message_id info) st else st)
              in case fetch_int p of None \<Rightarrow> None
                 | Some (constructor, p1) \<Rightarrow>
                   if constructor = rpc_error_ID
                   then (case se_fetch_rpc_error env (p_data p1) of
                           Inl e \<Rightarrow> Some (Err ''Failed to parse mtproto_api::rpc_error: '', st1)
                         | Inr (code, msg) \<Rightarrow> Some (OK, emit (OnMessageResultError req_msg_id code msg) st1))
                   else if constructor = gzip_packed_ID
                   then (case se_fetch_gzip env (p_data p1) of
                           Inl e \<Rightarrow> Some (Err ''Failed to parse mtproto_api::gzip_packed: '', st1)
                         | Inr packed \<Rightarrow> Some (ask env (OnMessageResultOk req_msg_id (se_gzdecode env packed) (mi_size info)) st1))
                   else Some (ask env (OnMessageResultOk req_msg_id (drop 8 packet) (mi_size info)) st1)))"

definition on_destroy_auth_key :: "session_env \<Rightarrow> session_connection \<Rightarrow> status \<times> session_connection" where
  "on_destroy_auth_key env st = (if \<not> sc_need_destroy_auth_key st then (OK, st) else ask env OnDestroyAuthKey st)"

definition on_new_session_created :: "u64 \<Rightarrow> u64 \<Rightarrow> session_connection \<Rightarrow> status \<times> session_connection" where
  "on_new_session_created first_message_id uid st =
     (let first = (case sc_service_queries st first_message_id of
                     Some q \<Rightarrow> sq_container_message_id q | None \<Rightarrow> first_message_id)
      in (OK, emit (OnNewSessionCreated uid first) st))"

definition on_message_failed_inner :: "session_env \<Rightarrow> u64 \<Rightarrow> session_connection \<Rightarrow> session_connection" where
  "on_message_failed_inner env message_id st =
     (case sc_service_queries st message_id of
        None \<Rightarrow> st
      | Some query \<Rightarrow>
        (let st1 = st\<lparr>sc_service_queries := (sc_service_queries st)(message_id := None)\<rparr>
         in case sq_type query of
              ResendAnswer \<Rightarrow> fold (resend_answer env) (sq_msg_ids query) st1
            | GetStateInfo \<Rightarrow> fold (get_state_info env) (sq_msg_ids query) st1))"

definition on_message_failed :: "session_env \<Rightarrow> u64 \<Rightarrow> status \<Rightarrow> session_connection \<Rightarrow> session_connection" where
  "on_message_failed env message_id status st =
     (let st1 = (emit (OnMessageFailed message_id status) st)
             \<lparr>sc_sent_destroy_auth_key := False, sc_destroy_auth_key_send_time := 0\<rparr>;
          st2 = (if message_id = sc_last_ping_message_id st1 \<or> message_id = sc_last_ping_container_message_id st1
                 then st1\<lparr>sc_last_ping_at := 0, sc_last_ping_message_id := 0, sc_last_ping_container_message_id := 0\<rparr>
                 else st1)
      in case sc_container_to_service st2 message_id of
           Some message_ids \<Rightarrow> fold (on_message_failed_inner env) message_ids st2
         | None \<Rightarrow> on_message_failed_inner env message_id st2)"

definition on_bad_msg_notification ::
  "session_env \<Rightarrow> msg_info \<Rightarrow> u64 \<Rightarrow> int \<Rightarrow> session_connection \<Rightarrow> status \<times> session_connection" where
  "on_bad_msg_notification env info bad_id code st =
     (if code = 16 then (OK, on_message_failed env bad_id (Err ''MessageId is too low'') st)
      else if code = 17
      then (Err ''MessageId is too high'',
            emit (OnSessionFailed (Err ''MessageId is too high''))
              (sc_reset_server_time_difference env (mi_message_id info) (st\<lparr>sc_to_send := []\<rparr>)))
      else if code = 18 then (Err ''MessageId is not divisible by 4'', st)
      else if code = 19 then (Err ''Container and older message MessageId collision'', st)
      else if code = 20 then (OK, on_message_failed env bad_id (Err ''MessageId is too old'') st)
      else if code = 32 then (Err ''SeqNo is too low'', st)
      else if code = 33 then (Err ''SeqNo is too high'', st)
      else if code = 34 then (Err ''SeqNo is not even for an irrelevant message'', st)
      else if code = 35 then (Err ''SeqNo is not odd for a relevant message'', st)
      else if code = 64 then (Err ''Invalid Container'', st)
      else (Err ''Unknown error code'', st))"

definition on_bad_server_salt ::
  "session_env \<Rightarrow> u64 \<Rightarrow> u64 \<Rightarrow> session_connection \<Rightarrow> status \<times> session_connection" where
  "on_bad_server_salt env bad_id salt st =
     (OK, on_message_failed env bad_id (Err ''Bad server salt'')
            (emit OnServerSaltUpdated (st\<lparr>sc_auth := set_server_salt salt (se_cached env) (sc_auth st)\<rparr>)))"

definition on_msgs_ack :: "u64 list \<Rightarrow> session_connection \<Rightarrow> status \<times> session_connection" where
  "on_msgs_ack msg_ids st = (OK, fold (\<lambda>m. emit (OnMessageAck m)) msg_ids st)"

definition get_time :: "u64 \<Rightarrow> time" where
  "get_time msg_id = of_int (sint msg_id) / 2 ^ 32"

definition on_pong :: "session_env \<Rightarrow> msg_info \<Rightarrow> u64 \<Rightarrow> u64 \<Rightarrow> session_connection \<Rightarrow> status \<times> session_connection" where
  "on_pong env info msg_id ping_id st =
     (let st1 = (if mi_message_id info < msg_id - push_bit 32 15
                 then sc_reset_server_time_difference env (mi_message_id info) st else st)
      in if sc_sent_destroy_auth_key st1 \<and> sc_destroy_auth_key_send_time st1 < se_now env - 60
         then (Err ''No response for destroy_auth_key sent '', st1)
         else ask env (OnPong (get_time ping_id) (get_time (mi_message_id info)) (get_server_time (se_cached env) (sc_auth st1)))
                (st1\<lparr>sc_last_pong_at := se_cached env, sc_real_last_pong_at := se_cached env\<rparr>))"

definition on_future_salts ::
  "session_env \<Rightarrow> (u64 \<times> int \<times> int) list \<Rightarrow> session_connection \<Rightarrow> status \<times> session_connection" where
  "on_future_salts env salts st =
     (let new_salts = map (\<lambda>(salt, since, until).
            \<lparr>ss_salt = salt, ss_valid_since = of_int since, ss_valid_until = of_int until\<rparr>) salts
      in (OK, emit OnServerSaltUpdated (st\<lparr>sc_auth := set_future_salts new_salts (se_cached env) (sc_auth st)\<rparr>)))"

definition on_msgs_state_info :: "u64 list \<Rightarrow> bytes \<Rightarrow> session_connection \<Rightarrow> status \<times> session_connection" where
  "on_msgs_state_info msg_ids info st =
     (if length msg_ids \<noteq> length info then (Err ''message count != info.size()'', st)
      else (OK, fold (\<lambda>(m, b). emit (OnMessageInfo m (sint b) 0 0 1)) (zip msg_ids info) st))"

definition on_state_info_answer :: "u64 \<Rightarrow> bytes \<Rightarrow> session_connection \<Rightarrow> status \<times> session_connection" where
  "on_state_info_answer req_msg_id info st =
     (case sc_service_queries st req_msg_id of
        None \<Rightarrow> (Err ''Unknown msgs_state_info'', st)
      | Some query \<Rightarrow>
        (let st1 = st\<lparr>sc_service_queries := (sc_service_queries st)(req_msg_id := None)\<rparr>
         in if sq_type query \<noteq> GetStateInfo
            then (Err ''Receive msgs_state_info in response not to GetStateInfo'', st1)
            else on_msgs_state_info (sq_msg_ids query) info st1))"

text \<open>The overloads of \<open>on_packet\<close>; \<open>handle\<close> is \<open>on_slice_packet\<close>.\<close>

fun on_packet :: "session_env \<Rightarrow> packet_handler \<Rightarrow> msg_info \<Rightarrow> mt_object \<Rightarrow> session_connection
    \<Rightarrow> (status \<times> session_connection) option" where
  "on_packet env handle info DestroyAuthKeyOk st = Some (on_destroy_auth_key env st)"
| "on_packet env handle info DestroyAuthKeyNone st = Some (on_destroy_auth_key env st)"
| "on_packet env handle info DestroyAuthKeyFail st = Some (on_destroy_auth_key env st)"
| "on_packet env handle info (NewSessionCreated first uid) st = Some (on_new_session_created first uid st)"
| "on_packet env handle info (BadMsgNotification bad_id bad_seqno code) st =
     Some (on_bad_msg_notification env info bad_id code st)"
| "on_packet env handle info (BadServerSalt bad_id bad_seqno salt) st = Some (on_bad_server_salt env bad_id salt st)"
| "on_packet env handle info (MsgsAck ids) st = Some (on_msgs_ack ids st)"
| "on_packet env handle info (GzipPacked packed) st = handle info (se_gzdecode env packed) st"
| "on_packet env handle info (Pong msg_id ping_id) st = Some (on_pong env info msg_id ping_id st)"
| "on_packet env handle info (FutureSalts salts) st = Some (on_future_salts env salts st)"
| "on_packet env handle info (MsgsStateInfo req data) st = Some (on_state_info_answer req data st)"
| "on_packet env handle info (MsgsAllInfo ids data) st = Some (on_msgs_state_info ids data st)"
| "on_packet env handle info (MsgDetailedInfo msg answer sz status) st =
     Some (OK, emit (OnMessageInfo msg status answer sz 2) st)"
| "on_packet env handle info (MsgNewDetailedInfo answer sz) st =
     Some (OK, emit (OnMessageInfo 0 0 answer sz 0) st)"
| "on_packet env handle info OtherObject st = Some (OK, st)"

definition on_update_packet :: "session_env \<Rightarrow> msg_info \<Rightarrow> bytes \<Rightarrow> session_connection \<Rightarrow> status \<times> session_connection" where
  "on_update_packet env info packet st =
     (case check_update (mi_message_id info) (sc_auth st) of (status, ad1) \<Rightarrow>
       (case recheck_update (mi_message_id info) ad1 of (recheck_status, ad2) \<Rightarrow>
         (let st1 = st\<lparr>sc_auth := ad2\<rparr>
          in if is_error status
             then (if st_code status = 2
                   then (status, emit (OnSessionFailed (Err ''Receive too old update'')) st1)
                   else (OK, st1))
             else ask env (OnUpdate packet) st1)))"

text \<open>\<open>None\<close> when containers and compressed packets are nested deeper than the fuel.\<close>

fun on_slice_packet :: "session_env \<Rightarrow> nat \<Rightarrow> packet_handler" where
  "on_slice_packet env 0 info packet st = None"
| "on_slice_packet env (Suc n) info packet st0 =
     (let st = (if bit (mi_seq_no info) 0 then send_ack env (mi_message_id info) st0 else st0)
      in if length packet < 4
         then Some (Err ''Receive packet of size '', emit (OnSessionFailed (Err ''Receive too small packet'')) st)
         else (let constructor_id = u32_of_bytes (take 4 packet) in
               if constructor_id = msg_container_ID
               then on_packet_container (on_slice_packet env n) info (drop 4 packet) st
               else if constructor_id = rpc_result_ID then on_packet_rpc_result env info (drop 4 packet) st
               else (case se_fetch env constructor_id (drop 4 packet) of
                       Some (Inl e) \<Rightarrow> Some (e, st)
                     | Some (Inr object) \<Rightarrow> on_packet env (on_slice_packet env n) info object st
                     | None \<Rightarrow> Some (on_update_packet env info packet st))))"

definition on_main_packet ::
  "session_env \<Rightarrow> nat \<Rightarrow> packet_info \<Rightarrow> bytes \<Rightarrow> session_connection \<Rightarrow> (status \<times> session_connection) option" where
  "on_main_packet env n info packet st =
     (let st1 = st\<lparr>sc_last_pong_at := se_cached env, sc_real_last_pong_at := se_cached env\<rparr>;
          st2 = (if \<not> sc_connected_flag st1 then emit OnConnected (st1\<lparr>sc_connected_flag := True\<rparr>) else st1)
      in if pi_no_crypto_flag info then Some (Err ''Unencrypted packet'', st2)
         else (case parse_packet (on_slice_packet env n) (tl_parser_of packet) st2 of
                 None \<Rightarrow> None
               | Some (e, p, st3) \<Rightarrow>
                 if e \<noteq> OK then Some (e, st3)
                 else (case fetch_end p of None \<Rightarrow> None
                       | Some (_, p') \<Rightarrow>
                         if p_error p' \<noteq> [] then Some (Err ''Failed to parse packet: '', st3) else Some (OK, st3))))"

definition sc_on_raw_packet ::
  "session_env \<Rightarrow> nat \<Rightarrow> packet_info \<Rightarrow> bytes \<Rightarrow> session_connection \<Rightarrow> (status \<times> session_connection) option" where
  "sc_on_raw_packet env n info packet st =
     (let old = sc_main_message_id st;
          st0 = st\<lparr>sc_main_message_id := pi_message_id info\<rparr>;
          restore = (\<lambda>s. s\<lparr>sc_main_message_id := old\<rparr>)
      in if pi_no_crypto_flag info then Some (Err ''Unexpected unencrypted packet'', restore st0)
         else (case check_packet (pi_session_id info) (pi_message_id info) (se_cached env) (sc_auth st0) of
                 None \<Rightarrow> None
               | Some (status, updated, ad) \<Rightarrow>
                 (let st1 = st0\<lparr>sc_auth := ad\<rparr>;
                      st2 = (if updated then emit (OnServerTimeDifferenceUpdated False) st1 else st1)
                  in if is_error status
                     then (if st_code status = 1 then Some (OK, restore (send_ack env (pi_message_id info) st2))
                           else if st_code status = 2
                           then Some (status, restore (emit (OnSessionFailed (Err ''Receive too old packet'')) st2))
                           else Some (status, restore st2))
                     else map_option (\<lambda>(e, s). (e, restore s)) (on_main_packet env n info packet st2))))"

definition sc_on_quick_ack :: "u64 \<Rightarrow> session_connection \<Rightarrow> session_connection" where
  "sc_on_quick_ack quick_ack_token st = emit (OnMessageAck quick_ack_token) st"

definition sc_on_read :: "session_env \<Rightarrow> nat \<Rightarrow> session_connection \<Rightarrow> session_connection" where
  "sc_on_read env sz st = st\<lparr>sc_last_read_at := se_cached env, sc_real_last_read_at := se_cached env,
     sc_last_read_size := sc_last_read_size st + sz\<rparr>"

end
