(* ===== verification/SessionSend.thy ===== *)
theory SessionSend
  imports SessionConn
begin

text \<open>
  The sending half of \<open>td/mtproto/SessionConnection.cpp\<close>: when a packet has to be sent, what it
  holds, and \<open>flush\<close>, which connects the handlers to a raw connection.
\<close>

section \<open>When to send\<close>

text \<open>don't send ping in poll mode\<close>

definition may_ping :: "session_env \<Rightarrow> session_connection \<Rightarrow> bool" where
  "may_ping env st \<longleftrightarrow> sc_last_ping_at st = 0 \<or>
     (sc_mode st \<noteq> ModeHttpLongPoll \<and> sc_last_ping_at st + ping_may_delay st < se_cached env)"

definition must_ping :: "session_env \<Rightarrow> session_connection \<Rightarrow> bool" where
  "must_ping env st \<longleftrightarrow> sc_last_ping_at st = 0 \<or>
     (sc_mode st \<noteq> ModeHttpLongPoll \<and> sc_last_ping_at st + ping_must_delay st < se_cached env)"

definition relax_flush :: "time \<Rightarrow> session_connection \<Rightarrow> session_connection" where
  "relax_flush t st = st\<lparr>sc_flush_packet_at := relax_timeout_at (sc_flush_packet_at st) t\<rparr>"

text \<open>The checks for the salts, from \<open>get_future_salt\<close> on.\<close>

definition must_flush_salts :: "session_env \<Rightarrow> bool \<Rightarrow> session_connection \<Rightarrow> bool \<times> session_connection" where
  "must_flush_salts env salt st =
     (if \<not> salt
      then (if sc_last_get_future_salt_at st = 0 then (True, st)
            else (let tm = sc_last_get_future_salt_at st + 60
                  in if tm < se_cached env then (True, st) else (False, relax_flush tm st)))
      else if sc_need_destroy_auth_key st \<and> \<not> sc_sent_destroy_auth_key st then (True, st)
      else (False, st))"

definition must_flush_ping :: "session_env \<Rightarrow> bool \<Rightarrow> session_connection \<Rightarrow> bool \<times> session_connection" where
  "must_flush_ping env salt st =
     (if salt
      then (if must_ping env st then (True, st)
            else must_flush_salts env salt (relax_flush (sc_last_ping_at st + ping_must_delay st) st))
      else must_flush_salts env salt st)"

definition must_flush_packet :: "session_env \<Rightarrow> bool \<Rightarrow> session_connection \<Rightarrow> bool \<times> session_connection" where
  "must_flush_packet env can_send st0 =
     (let st = st0\<lparr>sc_flush_packet_at := 0\<rparr> in
      if \<not> has_auth_key (se_cached env) (sc_auth st) then (False, st)
      else if \<not> can_send then (False, st)
      else (case has_salt (se_cached env) (sc_auth st) of (salt, ad) \<Rightarrow>
             (let st1 = st\<lparr>sc_auth := ad\<rparr> in
              if sc_mode st1 = ModeHttpLongPoll \<and> \<not> salt then (False, st1)
              else if sc_mode st1 = ModeHttpLongPoll then (True, st1)
              else if salt \<and> sc_force_send_at st1 \<noteq> 0
              then (if se_cached env > sc_force_send_at st1 then (True, st1)
                    else must_flush_ping env salt (relax_flush (sc_force_send_at st1) st1))
              else must_flush_ping env salt st1)))"

section \<open>Sending a packet\<close>

text \<open>The interface of a raw connection that a session uses to send: the storer, the session, the
  salt, the key and the token of a quick acknowledgement.\<close>

type_synonym 'r sender =
  "store_call list \<Rightarrow> u64 \<Rightarrow> u64 \<Rightarrow> auth_key \<Rightarrow> u64 \<Rightarrow> 'r \<Rightarrow> (nat \<times> 'r) option"

definition sc_send_crypto ::
  "session_env \<Rightarrow> 'r sender \<Rightarrow> store_call list \<Rightarrow> u64 \<Rightarrow> session_connection \<times> 'r \<Rightarrow> (session_connection \<times> 'r) option" where
  "sc_send_crypto env send storer quick_ack_token s =
     (case s of (st, r) \<Rightarrow>
        if sc_state st = StateClosed then None
        else (case get_session_id (sc_auth st) of None \<Rightarrow> None
              | Some session_id \<Rightarrow>
                (case get_server_salt (se_cached env) (sc_auth st) of (salt, ad) \<Rightarrow>
                  (case send storer session_id salt (get_auth_key ad) quick_ack_token r of None \<Rightarrow> None
                   | Some (n, r') \<Rightarrow>
                     Some (st\<lparr>sc_auth := ad, sc_last_write_size := sc_last_write_size st + n\<rparr>, r')))))"

fun count_queries :: "nat \<Rightarrow> nat \<Rightarrow> mtproto_query list \<Rightarrow> nat" where
  "count_queries send_till send_size [] = send_till"
| "count_queries send_till send_size (q # qs) =
     (if send_till < MAX_QUERY_COUNT \<and> send_size < 2 ^ 15
      then count_queries (send_till + 1) (send_size + length (mq_packet q)) qs else send_till)"

definition cut_tail :: "u64 list \<Rightarrow> nat \<Rightarrow> u64 list \<times> u64 list" where
  "cut_tail message_ids sz =
     (if sz \<ge> length message_ids then (message_ids, [])
      else (let new_size = length message_ids - sz in (drop new_size message_ids, take new_size message_ids)))"

definition emplace :: "'k \<Rightarrow> 'v \<Rightarrow> ('k \<rightharpoonup> 'v) \<Rightarrow> ('k \<rightharpoonup> 'v)" where
  "emplace k v m = (if m k = None then m(k \<mapsto> v) else m)"

definition push_back :: "'k \<Rightarrow> 'v \<Rightarrow> ('k \<rightharpoonup> 'v list) \<Rightarrow> ('k \<rightharpoonup> 'v list)" where
  "push_back k v m = m(k \<mapsto> (case m k of None \<Rightarrow> [] | Some vs \<Rightarrow> vs) @ [v])"

text \<open>The ping: its identifier is \<open>0\<close> when none is sent.\<close>

definition flush_ping :: "session_env \<Rightarrow> bool \<Rightarrow> session_connection \<Rightarrow> u64 \<times> session_connection" where
  "flush_ping env salt st =
     (if salt \<and> may_ping env st
      then (case next_id (se_rx env) (se_cached env) (sc_auth st) of (ping_id, ad) \<Rightarrow>
             (ping_id, st\<lparr>sc_last_ping_at := se_cached env, sc_auth := ad\<rparr>))
      else (0, st))"

text \<open>\<open>max_delay\<close>, \<open>max_after\<close> and \<open>max_wait\<close> of \<open>http_wait\<close>; \<open>-1\<close> when none is sent.\<close>

definition flush_http_wait :: "session_env \<Rightarrow> session_connection \<Rightarrow> int \<times> int \<times> int" where
  "flush_http_wait env st =
     (case sc_mode st of
        ModeHttpLongPoll \<Rightarrow>
          (let time_to_disconnect = min (ping_disconnect_delay st + sc_last_pong_at st)
                 (read_disconnect_delay st + sc_last_read_at st) - se_cached env
           in (HTTP_MAX_DELAY, HTTP_MAX_AFTER,
               \<lfloor>1000 * max (1 / 10) (min (time_to_disconnect - rtt st) http_max_wait)\<rfloor>))
      | ModeHttp \<Rightarrow> (HTTP_MAX_DELAY, HTTP_MAX_AFTER, 0)
      | ModeTcp \<Rightarrow> (- 1, - 1, - 1))"

definition flush_future_salts :: "session_env \<Rightarrow> session_connection \<Rightarrow> int \<times> session_connection" where
  "flush_future_salts env st =
     (if sc_mode st = ModeHttpLongPoll then (0, st)
      else (case need_future_salts (se_cached env) (sc_auth st) of (need, ad) \<Rightarrow>
             (let st1 = st\<lparr>sc_auth := ad\<rparr>
              in if need \<and> (sc_last_get_future_salt_at st1 = 0 \<or> sc_last_get_future_salt_at st1 + 60 < se_cached env)
                 then (64, st1\<lparr>sc_last_get_future_salt_at := se_cached env\<rparr>) else (0, st1))))"

text \<open>The queries to send now; the others stay.\<close>

definition flush_queries :: "bool \<Rightarrow> session_connection \<Rightarrow> mtproto_query list \<times> session_connection" where
  "flush_queries salt st =
     (let send_till = (if salt then count_queries 0 0 (sc_to_send st) else 0)
      in (take send_till (sc_to_send st), st\<lparr>sc_to_send := drop send_till (sc_to_send st)\<rparr>))"

definition nothing_pending :: "session_connection \<Rightarrow> bool" where
  "nothing_pending st \<longleftrightarrow> sc_to_ack st = [] \<and> sc_to_resend_answer st = [] \<and> sc_to_cancel_answer st = [] \<and>
     sc_to_get_state_info st = []"

text \<open>After the packet is sent: what was asked is remembered for the answers and failures.\<close>

definition remember_service_queries ::
  "crypto_ids \<Rightarrow> u64 \<Rightarrow> u64 list \<Rightarrow> u64 list \<Rightarrow> mtproto_query list \<Rightarrow> session_connection \<Rightarrow> session_connection" where
  "remember_service_queries ids ping_id to_resend to_get_info queries st =
     (let st1 = (if id_resend ids \<noteq> 0
                 then st\<lparr>sc_service_queries := emplace (id_resend ids) \<lparr>sq_type = ResendAnswer,
                        sq_container_message_id = id_container ids, sq_msg_ids = to_resend\<rparr> (sc_service_queries st)\<rparr> else st);
          st2 = (if id_get_info ids \<noteq> 0
                 then st1\<lparr>sc_service_queries := emplace (id_get_info ids) \<lparr>sq_type = GetStateInfo,
                        sq_container_message_id = id_container ids, sq_msg_ids = to_get_info\<rparr> (sc_service_queries st1)\<rparr> else st1);
          st3 = (if ping_id \<noteq> 0
                 then st2\<lparr>sc_last_ping_container_message_id := id_container ids, sc_last_ping_message_id := id_ping ids\<rparr>
                 else st2)
      in if id_container ids = 0 then st3
         else (let st4 = emit (OnContainerSent (id_container ids) (map mq_message_id queries)) st3;
                   st5 = (if id_resend ids \<noteq> 0
                          then st4\<lparr>sc_container_to_service := push_back (id_container ids) (id_resend ids)
                                 (sc_container_to_service st4)\<rparr> else st4)
               in if id_get_info ids \<noteq> 0
                  then st5\<lparr>sc_container_to_service := push_back (id_container ids) (id_get_info ids)
                         (sc_container_to_service st5)\<rparr> else st5))"

definition send_packet ::
  "session_env \<Rightarrow> 'r sender \<Rightarrow> u64 \<Rightarrow> int \<times> int \<times> int \<Rightarrow> int \<Rightarrow> mtproto_query list \<Rightarrow> bool \<Rightarrow> session_connection \<times> 'r
     \<Rightarrow> (session_connection \<times> 'r) option" where
  "send_packet env send ping_id wait future_salt_n queries destroy_auth_key s =
     (case s of (st, r) \<Rightarrow> (case wait of (max_delay, max_after, max_wait) \<Rightarrow>
      (case cut_tail (sc_to_resend_answer st) 8192 of (to_resend, resend_rest) \<Rightarrow>
       if length queries > MAX_QUERY_COUNT then None
       else (case cut_tail (sc_to_cancel_answer st) (MAX_QUERY_COUNT - length queries) of (to_cancel, cancel_rest) \<Rightarrow>
       (case cut_tail (sc_to_get_state_info st) 8192 of (to_get_info, get_info_rest) \<Rightarrow>
       (case cut_tail (sc_to_ack st) 8192 of (to_ack, ack_rest) \<Rightarrow>
       (let st1 = st\<lparr>sc_to_resend_answer := resend_rest, sc_to_cancel_answer := cancel_rest,
              sc_to_get_state_info := get_info_rest, sc_to_ack := ack_rest\<rparr>;
            use_quick_ack = (\<exists>q\<in>set queries. mq_use_quick_ack q);
            args = \<lparr>ca_to_send = queries, ca_header = get_header (se_cached env) (sc_auth st1), ca_to_ack = to_ack,
              ca_ping_id = ping_id, ca_ping_timeout = \<lfloor>ping_disconnect_delay st1 + 2\<rfloor>, ca_max_delay = max_delay,
              ca_max_after = max_after, ca_max_wait = max_wait, ca_future_salt_n = future_salt_n,
              ca_get_info = to_get_info, ca_resend = to_resend, ca_cancel = to_cancel, ca_destroy_key = destroy_auth_key\<rparr>
        in case crypto_impl_new (se_rx env) (se_cached env) args (sc_auth st1) of
             None \<Rightarrow> None
           | Some (ci, ids, ad) \<Rightarrow>
             (case sc_send_crypto env send (crypto_store (se_api env) ci) (if use_quick_ack then id_parent ids else 0)
                     (st1\<lparr>sc_auth := ad\<rparr>, r) of
                None \<Rightarrow> None
              | Some (st2, r') \<Rightarrow>
                (let st3 = remember_service_queries ids ping_id to_resend to_get_info queries st2
                 in Some (if sc_to_send st3 = [] \<and> nothing_pending st3 then st3\<lparr>sc_force_send_at := 0\<rparr> else st3, r'))))))))))"

definition flush_packet ::
  "session_env \<Rightarrow> 'r sender \<Rightarrow> session_connection \<times> 'r \<Rightarrow> (session_connection \<times> 'r) option" where
  "flush_packet env send s =
     (case s of (st, r) \<Rightarrow>
      (case has_salt (se_cached env) (sc_auth st) of (salt, ad) \<Rightarrow>
      (case flush_ping env salt (st\<lparr>sc_auth := ad\<rparr>) of (ping_id, st1) \<Rightarrow>
      (let wait = flush_http_wait env st1 in
      (case flush_future_salts env st1 of (future_salt_n, st2) \<Rightarrow>
      (case flush_queries salt st2 of (queries, st3) \<Rightarrow>
      (let destroy_auth_key = (sc_need_destroy_auth_key st3 \<and> \<not> sc_sent_destroy_auth_key st3) in
       if queries = [] \<and> nothing_pending st3 \<and> ping_id = 0 \<and> fst wait < 0 \<and> future_salt_n = 0 \<and> \<not> destroy_auth_key
       then Some (st3\<lparr>sc_force_send_at := 0\<rparr>, r)
       else (let st4 = (if destroy_auth_key
                        then st3\<lparr>sc_sent_destroy_auth_key := True, sc_destroy_auth_key_send_time := se_now env\<rparr> else st3)
             in send_packet env send ping_id wait future_salt_n queries destroy_auth_key (st4, r)))))))))"

text \<open>The loop of \<open>before_write\<close>; \<open>None\<close> when the fuel runs out or an operation aborts.\<close>

fun sc_before_write ::
  "nat \<Rightarrow> session_env \<Rightarrow> 'r sender \<Rightarrow> ('r \<Rightarrow> bool) \<Rightarrow> session_connection \<times> 'r \<Rightarrow> (session_connection \<times> 'r) option" where
  "sc_before_write 0 env send can_send s = None"
| "sc_before_write (Suc n) env send can_send (st, r) =
     (case must_flush_packet env (can_send r) st of
        (False, st') \<Rightarrow> Some (st', r)
      | (True, st') \<Rightarrow>
        (case flush_packet env send (st', r) of None \<Rightarrow> None | Some s \<Rightarrow> sc_before_write n env send can_send s))"

text \<open>The packet of \<open>encrypted_bind\<close>, written with the main key and protocol version 1; \<open>salt\<close>
  and \<open>session_id\<close> are random.\<close>

definition encrypted_bind ::
  "crypto_lib \<Rightarrow> u32 \<Rightarrow> (nat \<Rightarrow> bytes) \<Rightarrow> session_env \<Rightarrow> u64 \<Rightarrow> u64 \<Rightarrow> u64 \<Rightarrow> u64 \<Rightarrow> int \<Rightarrow> session_connection
     \<Rightarrow> (u64 \<times> bytes \<times> session_connection) option" where
  "encrypted_bind L rnd pad env salt session_id perm_key nonce expires_at st =
     (let temp_key = ak_id (ad_tmp_auth_key (sc_auth st)) in
      case get_session_id (sc_auth st) of None \<Rightarrow> None
      | Some sid \<Rightarrow>
        (case next_id (se_rx env) (se_cached env) (sc_auth st) of (message_id, ad) \<Rightarrow>
          (let query = \<lparr>mq_message_id = message_id, mq_seq_no = 0,
                 mq_packet = se_api env (ReqBindAuthKeyInner nonce temp_key perm_key sid expires_at),
                 mq_gzip_flag = False, mq_invoke_after = [], mq_use_quick_ack = False\<rparr>;
               info = packet_info_init\<lparr>pi_version := 1, pi_no_crypto_flag := False, pi_salt := salt, pi_session_id := session_id\<rparr>
           in map_option (\<lambda>(packet, _). (message_id, packet, st\<lparr>sc_auth := ad\<rparr>))
                (transport_write L rnd pad (query_store (se_api env) [] query) (ad_main_auth_key ad) info))))"

section \<open>Flush\<close>

definition sc_init :: "session_env \<Rightarrow> session_connection \<Rightarrow> session_connection option" where
  "sc_init env st = (if sc_state st \<noteq> StateInit then None
     else Some (st\<lparr>sc_last_pong_at := se_cached env, sc_last_read_at := se_cached env, sc_state := StateRun\<rparr>))"

definition do_close :: "status \<Rightarrow> session_connection \<Rightarrow> session_connection" where
  "do_close status st = emit (OnClosed status) (st\<lparr>sc_state := StateClosed\<rparr>)"

definition force_close :: "session_connection \<Rightarrow> session_connection option" where
  "force_close st = (if sc_state st = StateClosed then None else Some (do_close OK st))"

text \<open>The session as the callback of its raw connection.  An aborted session is \<open>None\<close>.\<close>

definition session_callback ::
  "session_env \<Rightarrow> nat \<Rightarrow> raw_connection sender \<Rightarrow> session_connection option rc_callback" where
  "session_callback env n send =
     \<lparr>cb_on_raw_packet = (\<lambda>info d s. case s of None \<Rightarrow> (OK, None)
        | Some st \<Rightarrow> (case sc_on_raw_packet env n info d st of None \<Rightarrow> (OK, None) | Some (e, st') \<Rightarrow> (e, Some st'))),
      cb_on_quick_ack = (\<lambda>token. map_option (sc_on_quick_ack token)),
      cb_before_write = (\<lambda>s r. case s of None \<Rightarrow> (OK, None, r)
        | Some st \<Rightarrow> (case sc_before_write n env send (\<lambda>_. True) (st, r) of
                        None \<Rightarrow> (OK, None, r) | Some (st', r') \<Rightarrow> (OK, Some st', r'))),
      cb_on_read = (\<lambda>sz. map_option (sc_on_read env sz))\<rparr>"

text \<open>\<open>env\<close> holds the clocks during the flush and \<open>after\<close> those after it.\<close>

definition sc_do_flush ::
  "session_env \<Rightarrow> session_env \<Rightarrow> nat \<Rightarrow> crypto_lib \<Rightarrow> raw_connection sender \<Rightarrow> socket_io \<Rightarrow> session_connection \<times> raw_connection
     \<Rightarrow> (status \<times> session_connection \<times> raw_connection) option" where
  "sc_do_flush env after n L send io s =
     (case s of (st0, r) \<Rightarrow>
      if sc_state st0 = StateClosed then None
      else (case (if sc_state st0 = StateInit then sc_init env st0 else Some st0) of None \<Rightarrow> None
       | Some st \<Rightarrow>
         if \<not> has_auth_key (se_cached env) (sc_auth st) then Some (Err ''No auth key'', st, r)
         else (let st1 = st\<lparr>sc_last_read_size := 0, sc_last_write_size := 0\<rparr>
               in case rc_flush n L (session_callback env n send) (get_auth_key (sc_auth st1)) io (Some st1, r) of
                    None \<Rightarrow> None
                  | Some (_, None, _) \<Rightarrow> None
                  | Some (e, Some st2, r') \<Rightarrow>
                    if e \<noteq> OK then Some (e, st2, r')
                    else if sc_last_pong_at st2 + ping_disconnect_delay st2 < se_cached after
                    then Some (Err ''Ping timeout of '', st2, stat StatError r')
                    else if sc_last_read_at st2 + read_disconnect_delay st2 < se_cached after
                    then Some (Err ''Read timeout of '', st2, stat StatError r')
                    else Some (OK, st2, r'))))"

definition sc_flush ::
  "session_env \<Rightarrow> session_env \<Rightarrow> nat \<Rightarrow> crypto_lib \<Rightarrow> raw_connection sender \<Rightarrow> socket_io \<Rightarrow> session_connection \<times> raw_connection
     \<Rightarrow> (time \<times> session_connection \<times> raw_connection) option" where
  "sc_flush env after n L send io s =
     (case sc_do_flush env after n L send io s of
        None \<Rightarrow> None
      | Some (e, st, r) \<Rightarrow>
        if e \<noteq> OK then Some (0, do_close e st, r)
        else (let wakeup_at = relax_timeout_at 0 (sc_last_pong_at st + ping_disconnect_delay st + 2 / 1000);
                  wakeup_at = relax_timeout_at wakeup_at (sc_last_read_at st + read_disconnect_delay st + 2 / 1000);
                  wakeup_at = relax_timeout_at wakeup_at (sc_flush_packet_at st)
              in Some (wakeup_at, st, r)))"

end
