(* ===== verification/PacketProps.thy ===== *)
theory PacketProps
  imports SessionSend
begin

text \<open>
  The packets a session sends are the ones it could read: the bytes of \<open>CryptoImpl\<close>, single or
  packed into a container, are taken apart by \<open>parse_message\<close> into the messages that went in.
\<close>

section \<open>The bytes of a packet\<close>

definition message_bytes :: "u64 \<times> u32 \<times> bytes \<Rightarrow> bytes" where
  "message_bytes m = (case m of (message_id, seq_no, body) \<Rightarrow>
     bytes_of_u64 message_id @ bytes_of_u32 seq_no @ bytes_of_u32 (of_nat (length body)) @ body)"

definition object_messages :: "(mt_request \<Rightarrow> bytes) \<Rightarrow> object_impl \<Rightarrow> (u64 \<times> u32 \<times> bytes) list" where
  "object_messages api oi = (if oi_not_empty oi then [(oi_message_id oi, oi_seq_no oi, api (oi_object oi))] else [])"

definition invoke_after_bytes :: "u64 list \<Rightarrow> bytes" where
  "invoke_after_bytes ids = (case ids of [] \<Rightarrow> []
     | [m] \<Rightarrow> bytes_of_u32 0xcb9f372d @ bytes_of_u64 m
     | _ \<Rightarrow> bytes_of_u32 0x3dc4b4f0 @ bytes_of_u32 0x1cb5c415 @ bytes_of_u32 (of_nat (length ids)) @
            concat (map bytes_of_u64 ids))"

definition query_message :: "(mt_request \<Rightarrow> bytes) \<Rightarrow> bytes \<Rightarrow> mtproto_query \<Rightarrow> u64 \<times> u32 \<times> bytes" where
  "query_message api header q = (mq_message_id q, mq_seq_no q, header @ invoke_after_bytes (mq_invoke_after q) @
     (if mq_gzip_flag q then api (ReqGzipPacked (mq_packet q)) else mq_packet q))"

definition crypto_messages :: "(mt_request \<Rightarrow> bytes) \<Rightarrow> crypto_impl \<Rightarrow> (u64 \<times> u32 \<times> bytes) list" where
  "crypto_messages api c = map (query_message api (ci_header c)) (ci_to_send c) @ object_messages api (ci_ack c) @
     object_messages api (ci_http_wait c) @ object_messages api (ci_get_future_salts c) @
     object_messages api (ci_get_info c) @ object_messages api (ci_resend c) @
     concat (map (object_messages api) (ci_cancel c)) @ object_messages api (ci_destroy_key c) @
     object_messages api (ci_ping c)"

definition crypto_bytes :: "(mt_request \<Rightarrow> bytes) \<Rightarrow> crypto_impl \<Rightarrow> bytes" where
  "crypto_bytes api c =
     (let inner = concat (map message_bytes (crypto_messages api c)) in
      if ci_type c = Mixed
      then message_bytes (ci_message_id c, ci_seq_no c,
             bytes_of_u32 msg_container_ID @ bytes_of_u32 (of_nat (ci_cnt c)) @ inner)
      else inner)"

lemma run_unsafe_map_storer:
  assumes "\<And>x. x \<in> set xs \<Longrightarrow> run_unsafe (f x) [] = Some (g x)"
  shows "run_unsafe (map (\<lambda>x. StoreStorer (f x)) xs) buf = Some (buf @ concat (map g xs))"
  using assms by (induction xs arbitrary: buf) simp_all

lemma run_unsafe_map_binary:
  "run_unsafe (map (\<lambda>x. StoreBinary (f x)) xs) buf = Some (buf @ concat (map f xs))"
  by (induction xs arbitrary: buf) simp_all

lemma run_invoke_after:
  "length ids < 2 ^ 31 \<Longrightarrow> run_unsafe (invoke_after_store ids) [] = Some (invoke_after_bytes ids)"
  by (auto simp: invoke_after_store_def invoke_after_bytes_def run_unsafe_map_binary split: list.split)

lemma storer_size_run: "run_unsafe cs [] = Some bs \<Longrightarrow> storer_size cs = length bs"
  using run_calc_unsafe(2) [of cs "[]" bs] by (simp add: storer_size_def)

lemma run_object:
  "run_unsafe (object_store api oi) [] = Some (concat (map message_bytes (object_messages api oi)))"
  by (simp add: object_store_def object_messages_def message_bytes_def)

lemma run_query:
  assumes "length (mq_invoke_after q) < 2 ^ 31"
  shows "run_unsafe (query_store api header q) [] = Some (message_bytes (query_message api header q))"
proof -
  let ?all = "[StoreStorer [StoreSlice header], StoreStorer [StoreStorer (invoke_after_store (mq_invoke_after q)),
    StoreStorer (if mq_gzip_flag q then [StoreSlice (api (ReqGzipPacked (mq_packet q)))] else [StoreSlice (mq_packet q)])]]"
  have r: "run_unsafe ?all [] = Some (header @ invoke_after_bytes (mq_invoke_after q) @
      (if mq_gzip_flag q then api (ReqGzipPacked (mq_packet q)) else mq_packet q))"
    by (simp add: run_invoke_after [OF assms])
  show ?thesis
    using r storer_size_run [OF r] unfolding query_store_def Let_def
    by (simp add: message_bytes_def query_message_def)
qed

definition queries_ok :: "crypto_impl \<Rightarrow> bool" where
  "queries_ok c \<longleftrightarrow> (\<forall>q\<in>set (ci_to_send c). length (mq_invoke_after q) < 2 ^ 31)"

lemma run_query_vector:
  assumes "queries_ok c"
  shows "run_unsafe (query_vector_store api (ci_header c) (ci_to_send c)) [] =
    Some (concat (map message_bytes (map (query_message api (ci_header c)) (ci_to_send c))))"
proof -
  have "run_unsafe (query_vector_store api (ci_header c) (ci_to_send c)) [] =
      Some ([] @ concat (map (\<lambda>q. message_bytes (query_message api (ci_header c) q)) (ci_to_send c)))"
    unfolding query_vector_store_def
    by (rule run_unsafe_map_storer) (use assms in \<open>auto simp: queries_ok_def run_query\<close>)
  then show ?thesis by (simp add: comp_def)
qed

lemma run_cancel_vector:
  "run_unsafe (cancel_vector_store api ois) [] = Some (concat (map message_bytes (concat (map (object_messages api) ois))))"
proof -
  have "run_unsafe (cancel_vector_store api ois) [] =
      Some ([] @ concat (map (\<lambda>oi. concat (map message_bytes (object_messages api oi))) ois))"
    unfolding cancel_vector_store_def by (rule run_unsafe_map_storer) (rule run_object)
  moreover have "concat (map (\<lambda>oi. concat (map message_bytes (object_messages api oi))) ois) =
      concat (map message_bytes (concat (map (object_messages api) ois)))"
    by (induction ois) simp_all
  ultimately show ?thesis by simp
qed

lemma run_concat_store:
  assumes "queries_ok c"
  shows "run_unsafe (concat_store api c) [] = Some (concat (map message_bytes (crypto_messages api c)))"
  unfolding concat_store_def crypto_messages_def
  by (simp add: run_object run_query_vector [OF assms] run_cancel_vector)

text \<open>A packet of one type holds the messages of that type only.\<close>

definition single_ok :: "crypto_impl \<Rightarrow> bool" where
  "single_ok c \<longleftrightarrow> (ci_type c \<noteq> Mixed \<longrightarrow>
     (\<forall>api. crypto_messages api c = (case ci_type c of
        OnlyQuery \<Rightarrow> map (query_message api (ci_header c)) (ci_to_send c)
      | OnlyAck \<Rightarrow> object_messages api (ci_ack c) | OnlyPing \<Rightarrow> object_messages api (ci_ping c)
      | OnlyHttpWait \<Rightarrow> object_messages api (ci_http_wait c)
      | OnlyGetFutureSalts \<Rightarrow> object_messages api (ci_get_future_salts c)
      | OnlyResend \<Rightarrow> object_messages api (ci_resend c)
      | OnlyCancel \<Rightarrow> concat (map (object_messages api) (ci_cancel c))
      | OnlyGetInfo \<Rightarrow> object_messages api (ci_get_info c)
      | OnlyDestroyKey \<Rightarrow> object_messages api (ci_destroy_key c) | Mixed \<Rightarrow> [])))"

lemma run_crypto_store:
  assumes "queries_ok c" and "single_ok c"
  shows "run_unsafe (crypto_store api c) [] = Some (crypto_bytes api c)"
proof (cases "ci_type c = Mixed")
  case True
  have r: "run_unsafe (container_store (of_nat (ci_cnt c)) (concat_store api c)) [] =
      Some (bytes_of_u32 msg_container_ID @ bytes_of_u32 (of_nat (ci_cnt c)) @
        concat (map message_bytes (crypto_messages api c)))"
    by (simp add: container_store_def run_concat_store [OF assms(1)])
  show ?thesis
    using True r storer_size_run [OF r] by (simp add: crypto_store_def crypto_bytes_def Let_def message_bytes_def)
next
  case False
  then have "crypto_bytes api c = concat (map message_bytes (crypto_messages api c))"
    by (simp add: crypto_bytes_def)
  with False assms(2) show ?thesis
    unfolding single_ok_def
    by (cases "ci_type c") (simp_all add: crypto_store_def run_object run_query_vector [OF assms(1)] run_cancel_vector)
qed

section \<open>The constructor\<close>

definition members_ok :: "crypto_impl \<Rightarrow> bool" where
  "members_ok c \<longleftrightarrow> (\<forall>oi\<in>set (ci_cancel c). oi_not_empty oi) \<and>
     ci_cnt c = length (ci_to_send c) + of_bool (oi_not_empty (ci_ack c)) + of_bool (oi_not_empty (ci_ping c))
       + of_bool (oi_not_empty (ci_http_wait c)) + of_bool (oi_not_empty (ci_get_future_salts c))
       + of_bool (oi_not_empty (ci_get_info c)) + of_bool (oi_not_empty (ci_resend c)) + length (ci_cancel c)
       + of_bool (oi_not_empty (ci_destroy_key c))"

lemma cancel_vector_new_ok:
  "length (fst (cancel_vector_new rx now ids ad)) = length ids"
  "oi \<in> set (fst (cancel_vector_new rx now ids ad)) \<Longrightarrow> oi_not_empty oi"
  by (induction ids arbitrary: ad) (auto simp: object_impl_new_def case_prod_beta)

lemma crypto_members_ok:
  assumes "crypto_members rx now a ad = (c, ad')"
  shows "members_ok c" and "ci_to_send c = ca_to_send a" and "ci_type c = Mixed"
proof -
  have c: "c = fst (crypto_members rx now a ad)" using assms by simp
  show "ci_to_send c = ca_to_send a" "ci_type c = Mixed"
    unfolding c crypto_members_def case_prod_beta by simp_all
  show "members_ok c"
    unfolding c crypto_members_def case_prod_beta members_ok_def
    by (simp add: cancel_vector_new_ok)
qed

lemma length_object_messages: "length (object_messages api oi) = of_bool (oi_not_empty oi)"
  by (simp add: object_messages_def)

lemma length_cancel_messages:
  "\<forall>oi\<in>set ois. oi_not_empty oi \<Longrightarrow> length (concat (map (object_messages api) ois)) = length ois"
  by (induction ois) (simp_all add: object_messages_def)

lemma length_crypto_messages: "members_ok c \<Longrightarrow> length (crypto_messages api c) = ci_cnt c"
  by (simp add: crypto_messages_def members_ok_def length_object_messages length_cancel_messages)

lemma object_messages_empty: "\<not> oi_not_empty oi \<Longrightarrow> object_messages api oi = []"
  by (simp add: object_messages_def)

lemma single_type_cases:
  assumes "single_type c = Some (t, i)"
  shows "(\<exists>q. t = OnlyQuery \<and> ci_to_send c = [q] \<and> i = mq_message_id q) \<or>
    (t = OnlyAck \<and> oi_not_empty (ci_ack c) \<and> i = oi_message_id (ci_ack c)) \<or>
    (t = OnlyPing \<and> oi_not_empty (ci_ping c) \<and> i = oi_message_id (ci_ping c)) \<or>
    (t = OnlyHttpWait \<and> oi_not_empty (ci_http_wait c) \<and> i = oi_message_id (ci_http_wait c)) \<or>
    (t = OnlyGetFutureSalts \<and> oi_not_empty (ci_get_future_salts c) \<and> i = oi_message_id (ci_get_future_salts c)) \<or>
    (t = OnlyGetInfo \<and> oi_not_empty (ci_get_info c) \<and> i = oi_message_id (ci_get_info c)) \<or>
    (t = OnlyResend \<and> oi_not_empty (ci_resend c) \<and> i = oi_message_id (ci_resend c)) \<or>
    (\<exists>oi. t = OnlyCancel \<and> ci_cancel c = [oi] \<and> i = oi_message_id oi) \<or>
    (t = OnlyDestroyKey \<and> oi_not_empty (ci_destroy_key c) \<and> i = oi_message_id (ci_destroy_key c))"
  using assms unfolding single_type_def cancel_vector_get_message_id_def
  by (simp split: list.splits if_splits)

text \<open>With one message in all, every member but that one is empty.\<close>

lemma only_member:
  assumes "members_ok c" and "ci_cnt c = 1"
  shows "ci_to_send c = [q] \<Longrightarrow> crypto_messages api c = [query_message api (ci_header c) q]"
    and "oi_not_empty (ci_ack c) \<Longrightarrow> crypto_messages api c = object_messages api (ci_ack c)"
    and "oi_not_empty (ci_ping c) \<Longrightarrow> crypto_messages api c = object_messages api (ci_ping c)"
    and "oi_not_empty (ci_http_wait c) \<Longrightarrow> crypto_messages api c = object_messages api (ci_http_wait c)"
    and "oi_not_empty (ci_get_future_salts c) \<Longrightarrow> crypto_messages api c = object_messages api (ci_get_future_salts c)"
    and "oi_not_empty (ci_get_info c) \<Longrightarrow> crypto_messages api c = object_messages api (ci_get_info c)"
    and "oi_not_empty (ci_resend c) \<Longrightarrow> crypto_messages api c = object_messages api (ci_resend c)"
    and "ci_cancel c = [oi] \<Longrightarrow> crypto_messages api c = object_messages api oi"
    and "oi_not_empty (ci_destroy_key c) \<Longrightarrow> crypto_messages api c = object_messages api (ci_destroy_key c)"
  using assms by (simp_all add: members_ok_def crypto_messages_def object_messages_empty)

lemma single_type_ok:
  assumes m: "members_ok c" and n: "ci_cnt c = 1" and t: "single_type c = Some (t, i)"
  shows "t \<noteq> Mixed \<and> single_ok (c\<lparr>ci_type := t\<rparr>) \<and> (\<exists>s b. crypto_messages api c = [(i, s, b)])"
proof -
  have upd: "crypto_messages api (c\<lparr>ci_type := t\<rparr>) = crypto_messages api c" for api t
    by (simp add: crypto_messages_def)
  note only = only_member [OF m n]
  have one: "oi_not_empty oi \<Longrightarrow> \<exists>s b. object_messages api oi = [(oi_message_id oi, s, b)]" for oi api
    by (simp add: object_messages_def)
  show ?thesis using single_type_cases [OF t]
  proof (elim disjE exE conjE)
    fix q assume "t = OnlyQuery" "ci_to_send c = [q]" "i = mq_message_id q"
    then show ?thesis using only(1) by (simp add: single_ok_def upd query_message_def)
  next
    fix oi assume a: "t = OnlyCancel" "ci_cancel c = [oi]" "i = oi_message_id oi"
    then have "oi_not_empty oi" using m by (simp add: members_ok_def)
    with a show ?thesis using only(8) [OF a(2)] one by (simp add: single_ok_def upd)
  qed (simp_all add: single_ok_def upd only(2-7,9) one)
qed

lemma crypto_impl_new_cases:
  assumes c0: "crypto_members rx now a ad = (c0, ad0)" and n: "crypto_impl_new rx now a ad = Some (c, ids, ad')"
  shows "(\<exists>i q. c = c0\<lparr>ci_type := Mixed, ci_message_id := i, ci_seq_no := q\<rparr> \<and> id_container ids = i \<and> id_parent ids = i) \<or>
    (\<exists>t i. ci_cnt c0 = 1 \<and> single_type c0 = Some (t, i) \<and> c = c0\<lparr>ci_type := t\<rparr> \<and> id_container ids = 0 \<and> id_parent ids = i)"
proof -
  have nz: "ci_cnt c0 \<noteq> 0" by (rule notI) (use n in \<open>simp add: crypto_impl_new_def c0\<close>)
  show ?thesis
  proof (cases "ci_cnt c0 > 1 \<or> (ca_to_send a \<noteq> [] \<and>
      \<not> is_valid_outbound_msg_id (mq_message_id (ca_to_send a ! 0)) now ad0)")
    case True
    obtain i ad1 where i: "next_id rx now ad0 = (i, ad1)" by fastforce
    obtain q ad2 where q: "next_seq_no False ad1 = (q, ad2)" by fastforce
    note c = n [unfolded crypto_impl_new_def c0 prod.case if_not_P [OF nz] Let_def if_P [OF True] i q option.inject prod.inject]
    then show ?thesis by (elim conjE) (intro disjI1 exI [of _ i] exI [of _ q]; force)
  next
    case False
    obtain t i where t: "single_type c0 = Some (t, i)"
      using n [unfolded crypto_impl_new_def c0 prod.case if_not_P [OF nz] Let_def if_not_P [OF False]]
      by (cases "single_type c0") auto
    note c = n [unfolded crypto_impl_new_def c0 prod.case if_not_P [OF nz] Let_def if_not_P [OF False] t option.case
        option.inject prod.inject]
    moreover have "ci_cnt c0 = 1" using False nz by linarith
    ultimately show ?thesis using t by (elim conjE) (intro disjI2 exI [of _ t] exI [of _ i]; force)
  qed
qed

lemma crypto_impl_new_ok:
  assumes "crypto_impl_new rx now a ad = Some (c, ids, ad')"
  shows "ci_to_send c = ca_to_send a" and "single_ok c" and "length (crypto_messages api c) = ci_cnt c"
    and "ci_type c \<noteq> Mixed \<Longrightarrow> id_container ids = 0 \<and> (\<exists>s b. crypto_messages api c = [(id_parent ids, s, b)])"
    and "ci_type c = Mixed \<Longrightarrow> id_container ids = ci_message_id c \<and> id_parent ids = ci_message_id c"
proof -
  obtain c0 ad0 where c0: "crypto_members rx now a ad = (c0, ad0)" by fastforce
  note ok = crypto_members_ok [OF c0]
  note cnt = length_crypto_messages [OF ok(1)]
  have upd: "crypto_messages api (c0\<lparr>ci_type := t\<rparr>) = crypto_messages api c0"
    "crypto_messages api (c0\<lparr>ci_type := t, ci_message_id := i, ci_seq_no := q\<rparr>) = crypto_messages api c0" for api t i q
    by (simp_all add: crypto_messages_def)
  note new = crypto_impl_new_cases [OF c0 assms]
  show "ci_to_send c = ca_to_send a" using new ok(2) by (elim disjE exE conjE) simp_all
  show "single_ok c"
    using new single_type_ok [OF ok(1)] by (elim disjE exE conjE) (simp_all add: single_ok_def)
  show "length (crypto_messages api c) = ci_cnt c" using new cnt by (elim disjE exE conjE) (simp_all add: upd)
  show "ci_type c \<noteq> Mixed \<Longrightarrow> id_container ids = 0 \<and> (\<exists>s b. crypto_messages api c = [(id_parent ids, s, b)])"
    using new single_type_ok [OF ok(1), where api = api] by (elim disjE exE conjE) (simp_all add: upd)
  show "ci_type c = Mixed \<Longrightarrow> id_container ids = ci_message_id c \<and> id_parent ids = ci_message_id c"
    using new single_type_ok [OF ok(1), where api = api] by (elim disjE exE conjE) simp_all
qed

section \<open>Taking packets apart\<close>

lemma parse_message_bytes:
  assumes p: "clean p" "p_data p = message_bytes (i, s, body) @ rest" and b: "length body mod 4 = 0" "length body < 2 ^ 32"
  shows "parse_message True p = Some (OK, \<lparr>mi_message_id = i, mi_seq_no = s, mi_size = length body\<rparr>, body,
    consume (16 + length body) p)"
    and "clean (consume (16 + length body) p)" and "p_data (consume (16 + length body) p) = rest"
proof -
  have l: "p_left_len p = 16 + length body + length rest"
    using clean_len [OF p(1)] p(2) by (simp add: message_bytes_def)
  let ?p = "p\<lparr>p_left_len := p_left_len p - 16\<rparr>"
  have d: "p_data p = bytes_of_u64 i @ bytes_of_u32 s @ bytes_of_u32 (of_nat (length body)) @ body @ rest"
    using p(2) by (simp add: message_bytes_def)
  have u: "unat (of_nat (length body) :: u32) = length body" using b(2) by (simp add: unat_of_nat)
  have ck: "check_len 16 p = Some ((), ?p)" using p(1) l by (simp add: check_len_eq clean_def)
  let ?p4 = "p\<lparr>p_data := body @ rest, p_left_len := p_left_len p - 16\<rparr>"
  have c4: "?p4 = consume 16 p" using d by (simp add: consume_def)
  have cl: "clean ?p4" unfolding c4 using p(1) d by (intro clean_consume) simp_all
  have raw: "fetch_string_raw (length body) ?p4 = Some (body, consume (length body) ?p4)"
    using fetch_string_raw_clean [OF cl, of "length body"] by simp
  have e: "p_error p = []" using p(1) by (simp add: clean_def)
  have sw: "p\<lparr>p_left_len := a, p_data := d\<rparr> = p\<lparr>p_data := d, p_left_len := a\<rparr>" for a d by simp
  show "parse_message True p = Some (OK, \<lparr>mi_message_id = i, mi_seq_no = s, mi_size = length body\<rparr>, body,
      consume (16 + length body) p)"
    using ck raw d e b(1) u unfolding parse_message_def Let_def c4 [symmetric]
    by (simp add: fetch_long_unsafe_def fetch_int_unsafe_def fetch_binary_unsafe_def fbind_def fret_def consume_def sw)
  show "clean (consume (16 + length body) p)" using p(1) d by (intro clean_consume) simp_all
  show "p_data (consume (16 + length body) p) = rest" using d by simp
qed

definition message_ok :: "u64 \<times> u32 \<times> bytes \<Rightarrow> bool" where
  "message_ok m = (case m of (i, s, body) \<Rightarrow> length body mod 4 = 0 \<and> length body < 2 ^ 32)"

definition received :: "u64 \<times> u32 \<times> bytes \<Rightarrow> msg_info \<times> bytes" where
  "received m = (case m of (i, s, body) \<Rightarrow> (\<lparr>mi_message_id = i, mi_seq_no = s, mi_size = length body\<rparr>, body))"

definition collect :: "msg_info \<Rightarrow> bytes \<Rightarrow> (msg_info \<times> bytes) list \<Rightarrow> (status \<times> (msg_info \<times> bytes) list) option" where
  "collect info packet acc = Some (OK, acc @ [(info, packet)])"

lemma parse_packets_messages:
  "clean p \<Longrightarrow> p_data p = concat (map message_bytes ms) @ rest \<Longrightarrow> \<forall>m\<in>set ms. message_ok m \<Longrightarrow>
    \<exists>p'. parse_packets collect (length ms) p acc = Some (OK, p', acc @ map received ms) \<and> clean p' \<and> p_data p' = rest"
proof (induction ms arbitrary: p acc)
  case (Cons m ms)
  obtain i s body where m: "m = (i, s, body)" by (cases m)
  have ok: "length body mod 4 = 0" "length body < 2 ^ 32" using Cons.prems(3) m by (simp_all add: message_ok_def)
  have d: "p_data p = message_bytes (i, s, body) @ concat (map message_bytes ms) @ rest" using Cons.prems(2) m by simp
  note pm = parse_message_bytes [OF Cons.prems(1) d ok]
  have "parse_packet collect p acc = Some (OK, consume (16 + length body) p, acc @ [received m])"
    using pm(1) by (simp add: parse_packet_def collect_def received_def m)
  then show ?case using Cons.IH [OF pm(2,3), of "acc @ [received m]"] Cons.prems(3) by simp
qed simp

text \<open>The messages of a packet, as the functions that read packets find them.\<close>

definition unpack :: "bytes \<Rightarrow> (msg_info \<times> bytes) list option" where
  "unpack bs =
     (case parse_message True (tl_parser_of bs) of
        Some (OK, info, packet, p) \<Rightarrow>
          if p_left_len p \<noteq> 0 then None
          else if length packet \<ge> 4 \<and> u32_of_bytes (take 4 packet) = msg_container_ID
          then (case fetch_int (tl_parser_of (drop 4 packet)) of
                  Some (sz, q) \<Rightarrow>
                    (case parse_packets collect (nat (sint sz)) q [] of
                       Some (OK, q', ms) \<Rightarrow> if p_left_len q' \<noteq> 0 then None else Some ms
                     | _ \<Rightarrow> None)
                | None \<Rightarrow> None)
          else Some [(info, packet)]
      | _ \<Rightarrow> None)"

lemma unpack_single:
  assumes "message_ok (i, s, body)" and "take 4 body \<noteq> bytes_of_u32 msg_container_ID"
  shows "unpack (message_bytes (i, s, body)) = Some [received (i, s, body)]"
proof -
  let ?p = "tl_parser_of (message_bytes (i, s, body))"
  have ok: "length body mod 4 = 0" "length body < 2 ^ 32" using assms(1) by (simp_all add: message_ok_def)
  then have c: "clean ?p" by (intro clean_tl_parser_of) (simp add: message_bytes_def size_max_def)
  have d: "p_data ?p = message_bytes (i, s, body) @ []" by (simp add: tl_parser_of_def)
  note pm = parse_message_bytes [OF c d ok]
  have "\<not> (length body \<ge> 4 \<and> u32_of_bytes (take 4 body) = msg_container_ID)"
    using assms(2) bytes_of_u32_of_bytes [of "take 4 body"] by auto
  then show ?thesis using pm(1) clean_len [OF pm(2)] pm(3) by (auto simp: unpack_def received_def)
qed

lemma unpack_container:
  assumes "\<forall>m\<in>set ms. message_ok m" and "length ms < 2 ^ 31" and "length (concat (map message_bytes ms)) < 2 ^ 32 - 8"
  shows "unpack (message_bytes (i, s, bytes_of_u32 msg_container_ID @ bytes_of_u32 (of_nat (length ms)) @
    concat (map message_bytes ms))) = Some (map received ms)"
proof -
  let ?inner = "concat (map message_bytes ms)"
  let ?body = "bytes_of_u32 msg_container_ID @ bytes_of_u32 (of_nat (length ms)) @ ?inner"
  let ?p = "tl_parser_of (message_bytes (i, s, ?body))"
  have "length (message_bytes m) mod 4 = 0" if "m \<in> set ms" for m
    using assms(1) that by (cases m) (auto simp: message_ok_def message_bytes_def)
  then have "length ?inner mod 4 = 0"
    by (induction ms) auto
  then have ok: "length ?body mod 4 = 0" "length ?body < 2 ^ 32" 
    using assms(3) mod_add_self1 [of 4 "4 + length ?inner"] mod_add_self1 [of 4 "length ?inner"] by simp_all
  have c: "clean ?p"
    by (intro clean_tl_parser_of) (use ok(2) in \<open>simp add: message_bytes_def size_max_def\<close>)
  have d: "p_data ?p = message_bytes (i, s, ?body) @ []" by (simp add: tl_parser_of_def)
  note pm = parse_message_bytes [OF c d ok]
  let ?q = "tl_parser_of (drop 4 ?body)"
  have cq: "clean ?q" by (intro clean_tl_parser_of) (use ok(2) in \<open>simp add: size_max_def\<close>)
  have dq: "p_data ?q = bytes_of_u32 (of_nat (length ms)) @ ?inner" by (simp add: tl_parser_of_def)
  have fi: "fetch_int ?q = Some (of_nat (length ms), consume 4 ?q)" by (rule fetch_int_clean [OF cq dq])
  have cc: "clean (consume 4 ?q)" using cq dq by (intro clean_consume) simp_all
  obtain q' where q': "parse_packets collect (length ms) (consume 4 ?q) [] = Some (OK, q', map received ms)" "clean q'" "p_data q' = []"
    using parse_packets_messages [OF cc, of ms "[]" "[]"] dq assms(1) by auto
  show ?thesis
    using pm(1) clean_len [OF pm(2)] pm(3) fi q' clean_len [OF q'(2)] sint_of_nat_small [OF assms(2)]
    by (simp add: unpack_def)
qed

lemma length_messages:
  "(i, s, body) \<in> set ms \<Longrightarrow> length body \<le> length (concat (map message_bytes ms))"
  "length ms \<le> length (concat (map message_bytes ms))"
  by (induction ms) (auto simp: message_bytes_def)

section \<open>Property\<close>

text \<open>
  C9. Every packet that \<open>CryptoImpl\<close> builds is a packet the protocol's readers
  understand: it is stored without a failing \<open>CHECK\<close>, and reading it yields exactly the queries and
  service messages it was built from, in order, whether it holds one message or a container of them; the
  number of messages announced is the number stored.
\<close>

theorem sent_packet_unpacks:
  assumes "crypto_impl_new rx now a ad = Some (c, ids, ad')" and "\<forall>q\<in>set (ca_to_send a). length (mq_invoke_after q) < 2 ^ 31"
    and "\<forall>(i, s, body)\<in>set (crypto_messages api c). length body mod 4 = 0 \<and> take 4 body \<noteq> bytes_of_u32 msg_container_ID"
    and "length (concat (map message_bytes (crypto_messages api c))) < 2 ^ 31"
  shows "\<exists>bs. run_unsafe (crypto_store api c) [] = Some bs \<and> unpack bs = Some (map received (crypto_messages api c)) \<and>
    ci_cnt c = length (crypto_messages api c)"
proof -
  note ok = crypto_impl_new_ok [OF assms(1)]
  let ?ms = "crypto_messages api c"
  have q: "queries_ok c" using assms(2) ok(1) by (simp add: queries_ok_def)
  have mok: "\<forall>m\<in>set ?ms. message_ok m"
  proof
    fix m assume m: "m \<in> set ?ms"
    obtain i s body where e: "m = (i, s, body)" by (cases m)
    show "message_ok m" using assms(3,4) length_messages(1) [of i s body ?ms] m unfolding e by (auto simp: message_ok_def)
  qed
  have n: "length ?ms < 2 ^ 31" using assms(4) length_messages(2) [of ?ms] by simp
  have "unpack (crypto_bytes api c) = Some (map received ?ms)"
  proof (cases "ci_type c = Mixed")
    case True
    then show ?thesis using unpack_container [OF mok n] assms(4) ok(3) by (simp add: crypto_bytes_def Let_def)
  next
    case False
    obtain s b where ms: "?ms = [(id_parent ids, s, b)]" using ok(4) [OF False] by blast
    then show ?thesis using False unpack_single [of "id_parent ids" s b] mok assms(3) by (simp add: crypto_bytes_def)
  qed
  then show ?thesis using run_crypto_store [OF q ok(2)] ok(3) by simp
qed

lemma bytes_of_u32_inject: "bytes_of_u32 a = bytes_of_u32 b \<longleftrightarrow> a = b"
  by (metis u32_of_bytes_of_u32')

definition sample_query :: mtproto_query where
  "sample_query = \<lparr>mq_message_id = 4, mq_seq_no = 1, mq_packet = [1, 2, 3, 4], mq_gzip_flag = False,
     mq_invoke_after = [8, 12], mq_use_quick_ack = False\<rparr>"

definition sample_args :: crypto_args where
  "sample_args = \<lparr>ca_to_send = [sample_query], ca_header = [], ca_to_ack = [5, 7], ca_ping_id = 0, ca_ping_timeout = 0,
     ca_max_delay = - 1, ca_max_after = - 1, ca_max_wait = - 1, ca_future_salt_n = 0, ca_get_info = [], ca_resend = [],
     ca_cancel = [], ca_destroy_key = False\<rparr>"

theorem sent_packet_unpacks_witness:
  "\<exists>c ids ad' bs. crypto_impl_new (\<lambda>_. 0) 1000 sample_args (auth_data_init 0) = Some (c, ids, ad') \<and>
    run_unsafe (crypto_store (\<lambda>_. bytes_of_u32 7 @ bytes_of_u32 7) c) [] = Some bs \<and>
    unpack bs = Some (map received (crypto_messages (\<lambda>_. bytes_of_u32 7 @ bytes_of_u32 7) c)) \<and> length (crypto_messages (\<lambda>_. bytes_of_u32 7 @ bytes_of_u32 7) c) = 2"
proof -
  let ?api = "\<lambda>_ :: mt_request. bytes_of_u32 7 @ bytes_of_u32 7"
  obtain c ids ad' where n: "crypto_impl_new (\<lambda>_. 0) 1000 sample_args (auth_data_init 0) = Some (c, ids, ad')"
      and c: "ci_to_send c = [sample_query]" "ci_header c = []" "oi_not_empty (ci_ack c)" "\<not> oi_not_empty (ci_http_wait c)"
        "\<not> oi_not_empty (ci_get_future_salts c)" "\<not> oi_not_empty (ci_get_info c)" "\<not> oi_not_empty (ci_resend c)"
        "ci_cancel c = []" "\<not> oi_not_empty (ci_destroy_key c)" "\<not> oi_not_empty (ci_ping c)"
    by (simp add: crypto_impl_new_def crypto_members_def object_impl_new_def sample_args_def case_prod_beta Let_def)
  have ms: "crypto_messages ?api c = [query_message ?api [] sample_query, (oi_message_id (ci_ack c), oi_seq_no (ci_ack c), bytes_of_u32 7 @ bytes_of_u32 7)]"
    using c by (simp add: crypto_messages_def object_messages_def)
  have id: "bytes_of_u32 0x3dc4b4f0 \<noteq> bytes_of_u32 msg_container_ID" "bytes_of_u32 7 \<noteq> bytes_of_u32 msg_container_ID"
    by (simp_all add: bytes_of_u32_inject msg_container_ID_def)
  have h2: "\<forall>q\<in>set (ca_to_send sample_args). length (mq_invoke_after q) < 2 ^ 31"
    by (simp add: sample_args_def sample_query_def)
  have h3: "\<forall>(i, s, body)\<in>set (crypto_messages ?api c). length body mod 4 = 0 \<and> take 4 body \<noteq> bytes_of_u32 msg_container_ID"
    using id unfolding ms by (simp add: sample_query_def query_message_def invoke_after_bytes_def)
  have h4: "length (concat (map message_bytes (crypto_messages ?api c))) < 2 ^ 31"
    unfolding ms by (simp add: sample_query_def query_message_def invoke_after_bytes_def message_bytes_def)
  have "length (crypto_messages ?api c) = 2" unfolding ms by simp
  then show ?thesis using sent_packet_unpacks [OF n h2 h3 h4] n by blast
qed

end
