(* ===== verification/SessionProps.thy ===== *)
theory SessionProps
  imports PacketProps "HOL-Library.Sublist"
begin

text \<open>
  What the handlers of a session connection keep, what they queue, and that they return.
\<close>

section \<open>What every handler keeps\<close>

text \<open>Something queued is always due at some time.\<close>

definition scheduled :: "session_connection \<Rightarrow> bool" where
  "scheduled st \<longleftrightarrow> (sc_to_send st \<noteq> [] \<or> \<not> nothing_pending st \<longrightarrow> sc_force_send_at st \<noteq> 0)"

definition keeps :: "session_connection \<Rightarrow> session_connection \<Rightarrow> bool" where
  "keeps st st' \<longleftrightarrow> sc_mode st' = sc_mode st \<and> sc_state st' = sc_state st \<and>
     ad_duplicate_checker (sc_auth st') = ad_duplicate_checker (sc_auth st) \<and>
     ad_session_id (sc_auth st') = ad_session_id (sc_auth st) \<and>
     (sc_to_send st' = sc_to_send st \<or> sc_to_send st' = []) \<and>
     prefix (sc_to_ack st) (sc_to_ack st') \<and> prefix (sc_events st) (sc_events st') \<and>
     (scheduled st \<longrightarrow> scheduled st')"

lemma keeps_refl [inv_intros]: "keeps st st"
  by (simp add: keeps_def)

lemma keeps_trans: "keeps a b \<Longrightarrow> keeps b c \<Longrightarrow> keeps a c"
  by (auto simp: keeps_def)

lemma keeps_fold:
  assumes "\<And>x st. keeps st (f x st)"
  shows "keeps st (fold f xs st)"
  using assms by (induction xs arbitrary: st) (auto intro: keeps_refl keeps_trans)

text \<open>Updates that touch none of the fields in question.\<close>

lemma keeps_simple:
  assumes "sc_mode st' = sc_mode st" and "sc_state st' = sc_state st"
    and "ad_duplicate_checker (sc_auth st') = ad_duplicate_checker (sc_auth st)"
    and "ad_session_id (sc_auth st') = ad_session_id (sc_auth st)"
    and "sc_to_ack st' = sc_to_ack st" and "prefix (sc_events st) (sc_events st')"
    and "sc_to_send st' = sc_to_send st \<or> sc_to_send st' = []" and "sc_to_resend_answer st' = sc_to_resend_answer st"
    and "sc_to_cancel_answer st' = sc_to_cancel_answer st" and "sc_to_get_state_info st' = sc_to_get_state_info st"
    and "sc_force_send_at st' = sc_force_send_at st"
  shows "keeps st st'"
  using assms by (auto simp: keeps_def scheduled_def nothing_pending_def)

lemma keeps_emit [inv_intros]: "keeps st (emit e st)"
  by (rule keeps_simple) (simp_all add: emit_def)

lemma keeps_ask [inv_intros]: "keeps st (snd (ask env e st))"
  by (simp add: ask_def keeps_emit)

lemma send_before_simps [simp]:
  "sc_to_send (send_before t st) = sc_to_send st" "sc_to_ack (send_before t st) = sc_to_ack st"
  "sc_to_resend_answer (send_before t st) = sc_to_resend_answer st"
  "sc_to_cancel_answer (send_before t st) = sc_to_cancel_answer st"
  "sc_to_get_state_info (send_before t st) = sc_to_get_state_info st"
  "sc_mode (send_before t st) = sc_mode st" "sc_state (send_before t st) = sc_state st"
  "sc_auth (send_before t st) = sc_auth st" "sc_events (send_before t st) = sc_events st"
  by (simp_all add: send_before_def)

lemma send_before_nz [simp]: "0 < t \<Longrightarrow> sc_force_send_at (send_before t st) \<noteq> 0"
  by (simp add: send_before_def)

lemma keeps_get_state_info: "0 < se_cached env \<Longrightarrow> keeps st (get_state_info env m st)"
  by (auto simp: keeps_def scheduled_def nothing_pending_def get_state_info_def Let_def)

lemma keeps_resend_answer: "0 < se_cached env \<Longrightarrow> keeps st (resend_answer env m st)"
  by (auto simp: keeps_def scheduled_def nothing_pending_def resend_answer_def Let_def RESEND_ANSWER_DELAY_def add_pos_pos)

lemma keeps_cancel_answer: "0 < se_cached env \<Longrightarrow> keeps st (cancel_answer env m st)"
  by (auto simp: keeps_def scheduled_def nothing_pending_def cancel_answer_def Let_def RESEND_ANSWER_DELAY_def add_pos_pos)

lemma send_ack_queues:
  assumes "0 < se_cached env"
  shows "keeps st (send_ack env m st)" and "m \<in> set (sc_to_ack (send_ack env m st))"
proof -
  have pos: "0 < se_cached env + ACK_DELAY" using assms by (simp add: ACK_DELAY_def)
  let ?st1 = "if sc_to_ack st = [] then send_before (se_cached env + ACK_DELAY) st else st"
  have f1: "sc_to_ack ?st1 = sc_to_ack st" "sc_auth ?st1 = sc_auth st" "sc_mode ?st1 = sc_mode st" "sc_state ?st1 = sc_state st"
      "sc_events ?st1 = sc_events st" by simp_all
  have s1: "scheduled st \<Longrightarrow> sc_force_send_at ?st1 \<noteq> 0"
    using send_before_nz [OF pos] by (auto simp: scheduled_def nothing_pending_def)
  show "m \<in> set (sc_to_ack (send_ack env m st))"
    unfolding send_ack_def Let_def using f1(1) last_in_set [of "sc_to_ack st"] by auto
  show "keeps st (send_ack env m st)"
    unfolding keeps_def scheduled_def [of "send_ack env m st"]
    using f1 s1 assms unfolding send_ack_def Let_def by (auto simp: send_before_nz)
qed

lemma keeps_reset_time [inv_intros]: "keeps st (sc_reset_server_time_difference env m st)"
  by (rule keeps_simple) (simp_all add: sc_reset_server_time_difference_def emit_def reset_server_time_difference_def)

section \<open>Handlers\<close>

lemma keeps_on_message_failed_inner:
  assumes "0 < se_cached env"
  shows "keeps st (on_message_failed_inner env m st)"
proof (cases "sc_service_queries st m")
  case (Some q)
  let ?st = "st\<lparr>sc_service_queries := (sc_service_queries st)(m := None)\<rparr>"
  have "keeps st ?st" by (rule keeps_simple) simp_all
  moreover have "keeps ?st (fold (resend_answer env) (sq_msg_ids q) ?st)" "keeps ?st (fold (get_state_info env) (sq_msg_ids q) ?st)"
    by (rule keeps_fold, rule keeps_resend_answer keeps_get_state_info, rule assms)+
  ultimately show ?thesis
    using Some by (cases "sq_type q") (auto simp: on_message_failed_inner_def Let_def intro: keeps_trans)
qed (simp add: on_message_failed_inner_def keeps_refl)

lemma keeps_on_message_failed:
  assumes "0 < se_cached env"
  shows "keeps st (on_message_failed env m e st)"
proof -
  let ?st1 = "(emit (OnMessageFailed m e) st)\<lparr>sc_sent_destroy_auth_key := False, sc_destroy_auth_key_send_time := 0\<rparr>"
  let ?st2 = "if m = sc_last_ping_message_id ?st1 \<or> m = sc_last_ping_container_message_id ?st1
    then ?st1\<lparr>sc_last_ping_at := 0, sc_last_ping_message_id := 0, sc_last_ping_container_message_id := 0\<rparr> else ?st1"
  have "keeps st ?st2" by (rule keeps_simple) (simp_all add: emit_def)
  moreover have "keeps ?st2 (fold (on_message_failed_inner env) ms ?st2)" "keeps ?st2 (on_message_failed_inner env m ?st2)" for ms
    by (rule keeps_fold, rule keeps_on_message_failed_inner, rule assms) (rule keeps_on_message_failed_inner [OF assms])
  ultimately show ?thesis
    unfolding on_message_failed_def Let_def by (auto split: option.split intro: keeps_trans)
qed

lemma keeps_auth:
  assumes "ad_duplicate_checker ad = ad_duplicate_checker (sc_auth st)" and "ad_session_id ad = ad_session_id (sc_auth st)"
  shows "keeps st (st\<lparr>sc_auth := ad\<rparr>)"
  using assms by (intro keeps_simple) simp_all

lemma update_salt_keeps [simp]:
  "ad_duplicate_checker (update_salt now ad) = ad_duplicate_checker ad" "ad_session_id (update_salt now ad) = ad_session_id ad"
  by (simp_all add: update_salt_def split: prod.split)

lemma set_salts_keep [simp]:
  "ad_duplicate_checker (set_future_salts salts now ad) = ad_duplicate_checker ad"
  "ad_session_id (set_future_salts salts now ad) = ad_session_id ad"
  "ad_duplicate_checker (set_server_salt salt now ad) = ad_duplicate_checker ad"
  "ad_session_id (set_server_salt salt now ad) = ad_session_id ad"
  by (simp_all add: set_future_salts_def set_server_salt_def Let_def)

lemma keeps_bad_msg_notification:
  assumes "0 < se_cached env"
  shows "keeps st (snd (on_bad_msg_notification env info b c st))"
proof -
  have "keeps st (emit e (sc_reset_server_time_difference env m (st\<lparr>sc_to_send := []\<rparr>)))" for e m
    by (rule keeps_simple) (simp_all add: sc_reset_server_time_difference_def emit_def reset_server_time_difference_def)
  then show ?thesis
    unfolding on_bad_msg_notification_def
    by (simp add: keeps_on_message_failed [OF assms] keeps_refl)
qed

lemma keeps_on_pong: "keeps st (snd (on_pong env info m p st))"
proof -
  let ?st1 = "if mi_message_id info < m - push_bit 32 15 then sc_reset_server_time_difference env (mi_message_id info) st else st"
  let ?st2 = "?st1\<lparr>sc_last_pong_at := se_cached env, sc_real_last_pong_at := se_cached env\<rparr>"
  have 1: "keeps st ?st1" by (simp add: keeps_reset_time keeps_refl)
  moreover have "keeps ?st1 ?st2" by (rule keeps_simple) simp_all
  ultimately have 2: "keeps st ?st2" by (rule keeps_trans)
  show ?thesis
    unfolding on_pong_def Let_def using 1 keeps_trans [OF 2 keeps_ask] by (simp split: if_split)
qed

lemma keeps_on_msgs_state_info: "keeps st (snd (on_msgs_state_info ids info st))"
  by (simp add: on_msgs_state_info_def keeps_refl keeps_fold keeps_emit split: prod.split)

lemma keeps_on_state_info_answer: "keeps st (snd (on_state_info_answer req info st))"
proof (cases "sc_service_queries st req")
  case (Some q)
  let ?st = "st\<lparr>sc_service_queries := (sc_service_queries st)(req := None)\<rparr>"
  have "keeps st ?st" by (rule keeps_simple) simp_all
  then show ?thesis
    using Some keeps_trans [OF _ keeps_on_msgs_state_info] by (simp add: on_state_info_answer_def Let_def)
qed (simp add: on_state_info_answer_def keeps_refl)

definition handler_keeps :: "packet_handler \<Rightarrow> bool" where
  "handler_keeps h \<longleftrightarrow> (\<forall>info packet st e st'. h info packet st = Some (e, st') \<longrightarrow> keeps st st')"

lemma handler_keepsD: "handler_keeps h \<Longrightarrow> h info packet st = Some (e, st') \<Longrightarrow> keeps st st'"
  by (simp add: handler_keeps_def)

lemma keeps_on_bad_server_salt:
  assumes "0 < se_cached env"
  shows "keeps st (snd (on_bad_server_salt env b salt st))"
proof -
  have "keeps st (emit OnServerSaltUpdated (st\<lparr>sc_auth := set_server_salt salt (se_cached env) (sc_auth st)\<rparr>))"
    by (rule keeps_simple) (simp_all add: emit_def)
  then show ?thesis
    using keeps_trans [OF _ keeps_on_message_failed [OF assms]] by (simp add: on_bad_server_salt_def)
qed

lemma keeps_on_future_salts: "keeps st (snd (on_future_salts env salts st))"
  by (rule keeps_simple) (simp_all add: on_future_salts_def emit_def Let_def)

lemma keeps_on_destroy_auth_key: "keeps st (snd (on_destroy_auth_key env st))"
  by (simp add: on_destroy_auth_key_def keeps_refl keeps_ask)

lemma keeps_pair: "keeps st (snd x) \<Longrightarrow> x = (e, st') \<Longrightarrow> keeps st st'"
  by simp

lemma keeps_on_packet:
  assumes pos: "0 < se_cached env" and h: "handler_keeps h" and r: "on_packet env h info object st = Some (e, st')"
  shows "keeps st st'"
proof (cases object)
  case (GzipPacked d)
  then show ?thesis using r handler_keepsD [OF h] by simp
qed (use r in \<open>auto simp: on_new_session_created_def on_msgs_ack_def
    intro: inv_intros keeps_fold keeps_on_destroy_auth_key [THEN keeps_pair]
      keeps_bad_msg_notification [OF pos, THEN keeps_pair] keeps_on_bad_server_salt [OF pos, THEN keeps_pair]
      keeps_on_pong [THEN keeps_pair] keeps_on_future_salts [THEN keeps_pair]
      keeps_on_state_info_answer [THEN keeps_pair] keeps_on_msgs_state_info [THEN keeps_pair]\<close>)

lemma keeps_parse_packets:
  assumes h: "handler_keeps h"
  shows "parse_packets h n p st = Some (e, p', st') \<Longrightarrow> keeps st st'"
proof (induction n arbitrary: p st)
  case (Suc n)
  obtain e1 p1 st1 where 1: "parse_packet h p st = Some (e1, p1, st1)"
    using Suc.prems by (auto split: option.splits)
  have "keeps st st1"
    using 1 handler_keepsD [OF h] unfolding parse_packet_def
    by (auto simp: keeps_refl split: option.splits if_splits)
  moreover have "keeps st1 st'"
    using Suc.prems 1 Suc.IH [of p1 st1] by (auto simp: keeps_refl split: if_splits)
  ultimately show ?case by (rule keeps_trans)
qed (simp add: keeps_refl)

lemma keeps_on_packet_container:
  assumes "handler_keeps h" and "on_packet_container h info packet st = Some (e, st')"
  shows "keeps st st'"
proof -
  let ?st1 = "st\<lparr>sc_container_message_id := mi_message_id info\<rparr>"
  have s: "keeps st ?st1" "keeps ?st1 (?st1\<lparr>sc_container_message_id := c\<rparr>)" for c by (rule keeps_simple, simp_all)+
  have r: "keeps st2 (st2\<lparr>sc_container_message_id := c\<rparr>)" for st2 c by (rule keeps_simple) simp_all
  show ?thesis
    using assms(2) keeps_trans [OF s] keeps_trans [OF keeps_trans [OF s(1) keeps_parse_packets [OF assms(1)]] r]
    unfolding on_packet_container_def Let_def by (auto simp: keeps_refl split: option.splits if_splits)
qed

lemma keeps_on_packet_rpc_result:
  assumes "on_packet_rpc_result env info packet st = Some (e, st')"
  shows "keeps st st'"
proof -
  obtain req p where f: "fetch_long (tl_parser_of packet) = Some (req, p)"
    using assms by (auto simp: on_packet_rpc_result_def split: option.splits)
  let ?st1 = "if mi_message_id info < req - push_bit 32 15 then sc_reset_server_time_difference env (mi_message_id info) st else st"
  have 1: "keeps st ?st1" by (simp add: keeps_reset_time keeps_refl)
  have "st' = st \<or> st' = ?st1 \<or> (\<exists>ev. st' = emit ev ?st1)"
    using assms unfolding on_packet_rpc_result_def f Let_def ask_def
    by (auto split: option.splits if_splits sum.splits)
  then show ?thesis using 1 keeps_trans [OF 1 keeps_emit] keeps_refl [of st] by auto
qed

lemma keeps_on_update_packet: "keeps st (snd (on_update_packet env info packet st))"
proof -
  obtain s1 ad1 where 1: "check_update (mi_message_id info) (sc_auth st) = (s1, ad1)" by fastforce
  obtain s2 ad2 where 2: "recheck_update (mi_message_id info) ad1 = (s2, ad2)" by fastforce
  have k: "keeps st (st\<lparr>sc_auth := ad2\<rparr>)"
    by (rule keeps_auth) (use 1 2 in \<open>auto simp: check_update_def recheck_update_def split: prod.splits\<close>)
  show ?thesis
    using k keeps_trans [OF k keeps_emit] keeps_trans [OF k keeps_ask]
    by (simp add: on_update_packet_def 1 2 Let_def)
qed

lemma on_slice_packet_step:
  assumes pos: "0 < se_cached env" and h: "handler_keeps (on_slice_packet env n)"
    and r: "on_slice_packet env (Suc n) info packet st = Some (e, st')"
  shows "keeps (if bit (mi_seq_no info) 0 then send_ack env (mi_message_id info) st else st) st'"
  using r keeps_on_packet [OF pos h] keeps_on_packet_container [OF h] keeps_on_packet_rpc_result
    keeps_on_update_packet [THEN keeps_pair]
  unfolding on_slice_packet.simps Let_def
  by (auto simp: keeps_refl keeps_emit split: if_splits option.splits sum.splits)

lemma keeps_on_slice_packet:
  assumes pos: "0 < se_cached env"
  shows "handler_keeps (on_slice_packet env n)"
proof (induction n)
  case (Suc n)
  have "keeps st (if b then send_ack env m st else st)" for b m st by (simp add: send_ack_queues(1) [OF pos] keeps_refl)
  then show ?case unfolding handler_keeps_def using on_slice_packet_step [OF pos Suc.IH] keeps_trans by blast
qed (simp add: handler_keeps_def)

text \<open>A content-related message is queued for acknowledgement, whatever its contents are.\<close>

lemma on_slice_packet_acks:
  assumes pos: "0 < se_cached env" and r: "on_slice_packet env n info packet st = Some (e, st')" and b: "bit (mi_seq_no info) 0"
  shows "mi_message_id info \<in> set (sc_to_ack st')"
proof (cases n)
  case (Suc k)
  have "keeps (send_ack env (mi_message_id info) st) st'"
    using on_slice_packet_step [OF pos keeps_on_slice_packet [OF pos] r [unfolded Suc]] b by simp
  then show ?thesis using send_ack_queues(2) [OF pos] by (auto simp: keeps_def dest: set_mono_prefix)
qed (use r in simp)

lemma parse_packets_acks:
  assumes pos: "0 < se_cached env"
  shows "clean p \<Longrightarrow> p_data p = concat (map message_bytes ms) @ rest \<Longrightarrow> \<forall>m\<in>set ms. message_ok m \<Longrightarrow>
    parse_packets (on_slice_packet env n) (length ms) p st = Some (OK, p', st') \<Longrightarrow> (i, s, body) \<in> set ms \<Longrightarrow> bit s 0 \<Longrightarrow>
    i \<in> set (sc_to_ack st')"
proof (induction ms arbitrary: p st)
  case (Cons m ms)
  obtain j q b where m: "m = (j, q, b)" by (cases m)
  have ok: "length b mod 4 = 0" "length b < 2 ^ 32" using Cons.prems(3) m by (simp_all add: message_ok_def)
  have d: "p_data p = message_bytes (j, q, b) @ concat (map message_bytes ms) @ rest" using Cons.prems(2) m by simp
  note pm = parse_message_bytes [OF Cons.prems(1) d ok]
  let ?info = "\<lparr>mi_message_id = j, mi_seq_no = q, mi_size = length b\<rparr>"
  obtain st1 where h: "on_slice_packet env n ?info b st = Some (OK, st1)"
      and rest: "parse_packets (on_slice_packet env n) (length ms) (consume (16 + length b) p) st1 = Some (OK, p', st')"
    using Cons.prems(4) pm(1) by (auto simp: parse_packet_def split: option.splits if_splits)
  have k: "keeps st1 st'" by (rule keeps_parse_packets [OF keeps_on_slice_packet [OF pos] rest])
  show ?case
  proof (cases "(i, s, body) = m")
    case True
    then have "i \<in> set (sc_to_ack st1)" using on_slice_packet_acks [OF pos h] Cons.prems(6) m by simp
    then show ?thesis using k by (auto simp: keeps_def dest: set_mono_prefix)
  next
    case False
    then show ?thesis using Cons.IH [OF pm(2,3) _ rest] Cons.prems(3,5,6) by simp
  qed
qed simp

section \<open>Handlers return\<close>

lemma parse_message_returns:
  assumes wf: "wf_parser p"
  shows "\<exists>e info packet p'. parse_message True p = Some (e, info, packet, p') \<and> wf_parser p' \<and>
    (e = OK \<longrightarrow> length packet + 16 \<le> p_left_len p \<and> p_left_len p' \<le> p_left_len p)"
proof (cases "p_left_len p < 16")
  case True
  then show ?thesis
    using wf_failed [OF wf, of "''Not enough data to read''"] wf
    by (auto simp: parse_message_def Let_def check_len_eq [OF wf] failed_def split: if_splits)
next
  case False
  have e: "p_error p = []" and l: "p_left_len p = length (p_data p)"
    using False wf by (auto simp: wf_parser_def split: if_splits)
  let ?p4 = "consume 16 p"
  have wf4: "wf_parser ?p4" using False by (intro wf_consume [OF wf]) simp
  have sw: "p\<lparr>p_left_len := a, p_data := d\<rparr> = p\<lparr>p_data := d, p_left_len := a\<rparr>" for a d by simp
  define n where "n = u32_of_bytes (take 4 (drop 12 (p_data p)))"
  let ?info = "\<lparr>mi_message_id = u64_of_bytes (take 8 (p_data p)), mi_seq_no = u32_of_bytes (take 4 (drop 8 (p_data p))), mi_size = 0\<rparr>"
  have ge: "\<not> length (p_data p) < 8" "\<not> length (p_data p) - 8 < 4" "\<not> length (p_data p) - 12 < 4" "\<not> length (p_data p) < 16"
    using False l by linarith+
  have m: "parse_message True p =
      (if unat n mod 4 \<noteq> 0 then Some (Err ''Failed to parse mtproto_api::message: '', ?info, [], ?p4)
       else (case fetch_string_raw (unat n) ?p4 of None \<Rightarrow> None
             | Some (packet, p5) \<Rightarrow>
               if p_error p5 \<noteq> [] then Some (Err ''Failed to parse mtproto_api::message: '', ?info, packet, p5)
               else Some (OK, ?info\<lparr>mi_size := unat n\<rparr>, packet, p5)))"
    using e l ge unfolding parse_message_def Let_def check_len_eq [OF wf] n_def
    by (simp add: fetch_long_unsafe_def fetch_int_unsafe_def fetch_binary_unsafe_def fbind_def fret_def consume_def sw)
  show ?thesis
  proof (cases "unat n \<le> length (p_data ?p4)")
    case True
    have "clean ?p4" using wf4 e by (simp add: clean_def)
    then show ?thesis
      using fetch_string_raw_clean [of ?p4 "unat n"] True m e False l wf4 wf_consume [OF wf4, of "unat n"] by auto
  next
    case False': False
    have l4: "p_left_len ?p4 = length (p_data ?p4)" using l by simp
    have "fetch_string_raw (unat n) ?p4 = Some ([], failed ''Not enough data to read'' ?p4)"
      using False' l4 by (simp add: fetch_string_raw_def fbind_def check_len_eq [OF wf4] failed_def)
    then show ?thesis
      using m wf4 wf_failed [OF wf4, of "''Not enough data to read''"] e by (auto simp: failed_def)
  qed
qed

definition handler_total :: "packet_handler \<Rightarrow> nat \<Rightarrow> bool" where
  "handler_total h n \<longleftrightarrow> (\<forall>info packet st. length packet \<le> n \<longrightarrow> (\<exists>r. h info packet st = Some r))"

lemma parse_packet_returns:
  assumes "wf_parser p" and "handler_total h (p_left_len p)"
  shows "\<exists>e p' st'. parse_packet h p st = Some (e, p', st') \<and> wf_parser p' \<and> (e = OK \<longrightarrow> p_left_len p' \<le> p_left_len p)"
proof -
  obtain e info packet p' where m: "parse_message True p = Some (e, info, packet, p')" "wf_parser p'"
      "e = OK \<longrightarrow> length packet + 16 \<le> p_left_len p \<and> p_left_len p' \<le> p_left_len p"
    using parse_message_returns [OF assms(1)] by blast
  show ?thesis
  proof (cases "e = OK")
    case True
    then obtain r where "h info packet st = Some r" using assms(2) m(3) by (fastforce simp: handler_total_def)
    then show ?thesis using m True by (cases r) (simp add: parse_packet_def)
  next
    case False
    then show ?thesis using m by (simp add: parse_packet_def)
  qed
qed

lemma parse_packets_returns:
  "wf_parser p \<Longrightarrow> handler_total h (p_left_len p) \<Longrightarrow> \<exists>r. parse_packets h n p st = Some r"
proof (induction n arbitrary: p st)
  case (Suc n)
  obtain e p' st' where 1: "parse_packet h p st = Some (e, p', st')" "wf_parser p'" "e = OK \<longrightarrow> p_left_len p' \<le> p_left_len p"
    using parse_packet_returns [OF Suc.prems] by blast
  have "handler_total h (p_left_len p')" if "e = OK"
    using Suc.prems(2) 1(3) that by (auto simp: handler_total_def)
  then show ?case using 1 Suc.IH [OF 1(2)] by (cases "e = OK") simp_all
qed simp

lemma fetch_int_len:
  assumes "wf_parser p"
  shows "\<exists>x p'. fetch_int p = Some (x, p') \<and> wf_parser p' \<and> p_left_len p' \<le> p_left_len p"
  using assms wf_consume [OF assms, of 4] wf_failed_data [OF assms]
  by (auto simp: fetch_int_eq fbind_def fret_def fetch_binary_eq failed_def wf_parser_def split: if_splits)

lemma on_packet_container_returns:
  assumes "handler_total h (length packet)" and "length packet < size_max"
  shows "\<exists>r. on_packet_container h info packet st = Some r"
proof -
  obtain x p where f: "fetch_int (tl_parser_of packet) = Some (x, p)" "wf_parser p" "p_left_len p \<le> length packet"
    using fetch_int_len [OF wf_tl_parser_of [OF assms(2)]] by (auto simp: tl_parser_of_def)
  have "handler_total h (p_left_len p)" using assms(1) f(3) by (auto simp: handler_total_def)
  then obtain r where "parse_packets h (nat (sint x)) p (st\<lparr>sc_container_message_id := mi_message_id info\<rparr>) = Some r"
    using parse_packets_returns [OF f(2)] by blast
  then show ?thesis using f(1) by (simp add: on_packet_container_def Let_def)
qed

lemma on_packet_rpc_result_returns:
  assumes "length packet < size_max"
  shows "\<exists>r. on_packet_rpc_result env info packet st = Some r"
proof -
  obtain x p where f: "fetch_long (tl_parser_of packet) = Some (x, p)" "wf_parser p"
    using safe_fetch_long wf_tl_parser_of [OF assms] unfolding safe_fetch_def by blast
  obtain y q where g: "fetch_int p = Some (y, q)"
    using safe_fetch_int f(2) unfolding safe_fetch_def by blast
  show ?thesis unfolding on_packet_rpc_result_def f(1) Let_def by (auto simp: g ask_def split: sum.split)
qed

definition no_gzip :: "session_env \<Rightarrow> bool" where
  "no_gzip env \<longleftrightarrow> (\<forall>i data d. se_fetch env i data \<noteq> Some (Inr (GzipPacked d)))"

lemma on_slice_packet_returns:
  assumes g: "no_gzip env"
  shows "length packet < n \<Longrightarrow> length packet < size_max \<Longrightarrow> \<exists>r. on_slice_packet env n info packet st = Some r"
proof (induction n arbitrary: info packet st)
  case (Suc n)
  let ?st = "if bit (mi_seq_no info) 0 then send_ack env (mi_message_id info) st else st"
  have c: "\<exists>r. on_packet_container (on_slice_packet env n) info (drop 4 packet) ?st = Some r" if "4 \<le> length packet"
    by (rule on_packet_container_returns)
      (use Suc that in \<open>auto simp: handler_total_def\<close>)
  have o: "\<exists>r. on_packet env (on_slice_packet env n) info ob ?st = Some r" if "se_fetch env i d = Some (Inr ob)" for i d ob
    using that g by (cases ob) (auto simp: no_gzip_def)
  have "length (drop 4 packet) < size_max" using Suc.prems(2) by simp
  then show ?case
    using c o on_packet_rpc_result_returns [of "drop 4 packet" env info ?st]
    unfolding on_slice_packet.simps Let_def by (auto split: option.split sum.split)
qed simp

end
