(* ===== verification/SenderProps.thy ===== *)
theory SenderProps
  imports SessionProps RawProps
begin

text \<open>
  Building a packet never aborts, its size stays within what a raw connection accepts, and the
  authorization data keeps its keys and salt meanwhile.
\<close>

section \<open>Authorization data while a packet is built\<close>

definition salt_ok :: "session_env \<Rightarrow> session_connection \<Rightarrow> bool" where
  "salt_ok env st = fst (has_salt (se_cached env) (sc_auth st))"

definition ad_same :: "time \<Rightarrow> auth_data \<Rightarrow> auth_data \<Rightarrow> bool" where
  "ad_same now ad ad' \<longleftrightarrow> fst (has_salt now ad') = fst (has_salt now ad) \<and> ad_session_id ad' = ad_session_id ad \<and>
     ad_duplicate_checker ad' = ad_duplicate_checker ad \<and> ad_use_pfs ad' = ad_use_pfs ad \<and>
     ad_main_auth_key ad' = ad_main_auth_key ad \<and> ad_tmp_auth_key ad' = ad_tmp_auth_key ad \<and> ad_header ad' = ad_header ad"

lemma ad_same_refl: "ad_same now ad ad"
  by (simp add: ad_same_def)

lemma ad_same_trans: "ad_same now a b \<Longrightarrow> ad_same now b c \<Longrightarrow> ad_same now a c"
  by (simp add: ad_same_def)

lemma ad_same_simple:
  assumes "ad_server_salt ad' = ad_server_salt ad" and "ad_future_salts ad' = ad_future_salts ad"
    and "ad_server_time_difference ad' = ad_server_time_difference ad" and "ad_session_id ad' = ad_session_id ad"
    and "ad_duplicate_checker ad' = ad_duplicate_checker ad" and "ad_use_pfs ad' = ad_use_pfs ad"
    and "ad_main_auth_key ad' = ad_main_auth_key ad" and "ad_tmp_auth_key ad' = ad_tmp_auth_key ad"
    and "ad_header ad' = ad_header ad"
  shows "ad_same now ad ad'"
  using assms
  by (simp add: ad_same_def has_salt_def Let_def update_salt_def is_server_salt_valid_def get_server_time_def split: prod.split)

lemma update_salt_loop_idem:
  "update_salt_loop t s fs = (s', fs') \<Longrightarrow> update_salt_loop t s' fs' = (s', fs')"
proof (induction t s fs rule: update_salt_loop.induct)
  case (1 t s fs)
  show ?case
  proof (cases "fs \<noteq> [] \<and> ss_valid_since (last fs) < t")
    case True
    then show ?thesis using 1 update_salt_loop.simps [of t s fs] by simp
  next
    case False
    then show ?thesis using 1(2) update_salt_loop.simps [of t s fs] by auto
  qed
qed

lemma update_salt_idem: "update_salt now (update_salt now ad) = update_salt now ad"
proof -
  obtain s fs where l: "update_salt_loop (get_server_time now ad) (ad_server_salt ad) (ad_future_salts ad) = (s, fs)" by fastforce
  then show ?thesis
    using update_salt_loop_idem [OF l] by (simp add: update_salt_def get_server_time_def)
qed

lemma ad_same_update_salt: "ad_same now ad (update_salt now ad)"
  by (simp add: ad_same_def has_salt_def Let_def update_salt_idem) (simp add: update_salt_def split: prod.split)

lemma ad_same_next_id: "ad_same now ad (snd (next_id rx now' ad))"
  by (rule ad_same_simple) (simp_all add: next_id_def next_message_id_def Let_def)

lemma ad_same_next_seq_no: "ad_same now ad (snd (next_seq_no b ad))"
  by (rule ad_same_simple) (simp_all add: next_seq_no_def)

lemma ad_same_object: "ad_same now ad (snd (object_impl_new rx now' ne ob ad))"
  using ad_same_trans [OF ad_same_next_id ad_same_next_seq_no]
  by (simp add: object_impl_new_def case_prod_beta ad_same_refl)

lemma ad_same_cancel: "ad_same now ad (snd (cancel_vector_new rx now' ids ad))"
proof (induction ids arbitrary: ad)
  case (Cons i ids)
  show ?case
    using ad_same_trans [OF ad_same_object Cons.IH] by (simp add: case_prod_beta)
qed (simp add: ad_same_refl)

lemma ad_same_members: "ad_same now ad (snd (crypto_members rx now' a ad))"
  unfolding crypto_members_def case_prod_beta snd_conv
  by (rule ad_same_trans [OF _ ad_same_object], rule ad_same_trans [OF _ ad_same_object],
      rule ad_same_trans [OF _ ad_same_cancel], (rule ad_same_trans [OF _ ad_same_object])+, rule ad_same_refl)

lemma ad_same_crypto:
  assumes "crypto_impl_new rx now' a ad = Some (c, ids, ad')"
  shows "ad_same now ad ad'"
proof -
  obtain c0 ad0 where c0: "crypto_members rx now' a ad = (c0, ad0)" by fastforce
  have 0: "ad_same now ad ad0" using ad_same_members [of now ad rx now' a] c0 by simp
  have "ad' = ad0 \<or> ad' = snd (next_seq_no False (snd (next_id rx now' ad0)))"
    using assms unfolding crypto_impl_new_def c0 Let_def
    by (simp add: case_prod_beta split: if_splits option.splits)
  then show ?thesis using 0 ad_same_trans [OF 0 ad_same_trans [OF ad_same_next_id ad_same_next_seq_no]] by auto
qed

section \<open>Building a packet never aborts\<close>

lemma single_type_None:
  assumes "single_type c = None" and "ci_to_send c = []" and "length (ci_cancel c) \<le> 1"
  shows "\<not> oi_not_empty (ci_ack c) \<and> \<not> oi_not_empty (ci_ping c) \<and> \<not> oi_not_empty (ci_http_wait c) \<and>
    \<not> oi_not_empty (ci_get_future_salts c) \<and> \<not> oi_not_empty (ci_get_info c) \<and> \<not> oi_not_empty (ci_resend c) \<and>
    ci_cancel c = [] \<and> \<not> oi_not_empty (ci_destroy_key c)"
proof -
  have "ci_cancel c = [] \<or> (\<exists>oi. ci_cancel c = [oi])" using assms(3) by (cases "ci_cancel c") auto
  then have "cancel_vector_get_message_id (ci_cancel c) \<noteq> None \<or> ci_cancel c = []"
    by (auto simp: cancel_vector_get_message_id_def)
  then show ?thesis
    using assms(1,2) unfolding single_type_def by (simp split: if_split_asm)
qed

lemma single_type_returns:
  assumes ok: "members_ok c" and one: "ci_cnt c = 1"
  shows "\<exists>t i. single_type c = Some (t, i)"
proof (cases "ci_to_send c")
  case Nil
  have "length (ci_cancel c) \<le> 1" using ok one by (simp add: members_ok_def)
  then have "single_type c = None \<Longrightarrow> ci_cnt c = 0"
    using single_type_None [OF _ Nil] ok Nil by (simp add: members_ok_def)
  then have "single_type c \<noteq> None" using one by linarith
  then show ?thesis by force
next
  case (Cons q qs)
  then have "qs = []" using ok one by (simp add: members_ok_def)
  then show ?thesis using Cons by (simp add: single_type_def)
qed

lemma crypto_impl_new_returns:
  assumes "ca_to_send a \<noteq> [] \<or> ca_to_ack a \<noteq> [] \<or> 0 \<le> ca_max_delay a \<or> 0 < ca_future_salt_n a \<or> ca_get_info a \<noteq> [] \<or>
    ca_resend a \<noteq> [] \<or> ca_cancel a \<noteq> [] \<or> ca_destroy_key a \<or> ca_ping_id a \<noteq> 0"
  shows "\<exists>c ids ad'. crypto_impl_new rx now a ad = Some (c, ids, ad')"
proof -
  obtain c0 ad0 where c0: "crypto_members rx now a ad = (c0, ad0)" by fastforce
  note ok = crypto_members_ok [OF c0]
  have c: "c0 = fst (crypto_members rx now a ad)" using c0 by simp
  have ne: "oi_not_empty (fst (object_impl_new rx now b ob ad)) = b" for b ob ad
    by (simp add: object_impl_new_def case_prod_beta)
  have nz: "ci_cnt c0 \<noteq> 0"
    using assms unfolding c crypto_members_def case_prod_beta by (auto simp: ne)
  show ?thesis
  proof (cases "ci_cnt c0 > 1 \<or> (ca_to_send a \<noteq> [] \<and> \<not> is_valid_outbound_msg_id (mq_message_id (ca_to_send a ! 0)) now ad0)")
    case True
    obtain i ad1 where i: "next_id rx now ad0 = (i, ad1)" by fastforce
    obtain q ad2 where q: "next_seq_no False ad1 = (q, ad2)" by fastforce
    show ?thesis
      unfolding crypto_impl_new_def c0 prod.case Let_def if_not_P [OF nz] if_P [OF True] i q by blast
  next
    case False
    then have "ci_cnt c0 = 1" using nz by linarith
    then obtain t i where "single_type c0 = Some (t, i)" using single_type_returns [OF ok(1)] by blast
    then show ?thesis
      unfolding crypto_impl_new_def c0 prod.case Let_def if_not_P [OF nz] if_not_P [OF False] by simp
  qed
qed

lemma cut_tail_parts:
  "cut_tail ids n = (a, b) \<Longrightarrow> b @ a = ids"
  "cut_tail ids n = (a, b) \<Longrightarrow> length a = min n (length ids)"
  by (auto simp: cut_tail_def Let_def split: if_splits)

section \<open>The size of a packet\<close>

text \<open>What the generated storers of the requests need at most.\<close>

fun request_bound :: "mt_request \<Rightarrow> nat" where
  "request_bound (ReqMsgsAck ids) = 16 + 8 * length ids"
| "request_bound (ReqMsgResendReq ids) = 16 + 8 * length ids"
| "request_bound (ReqMsgsStateReq ids) = 16 + 8 * length ids"
| "request_bound (ReqGzipPacked data) = 16 + length data"
| "request_bound _ = 64"

definition api_bounded :: "(mt_request \<Rightarrow> bytes) \<Rightarrow> bool" where
  "api_bounded api \<longleftrightarrow> (\<forall>req. length (api req) \<le> request_bound req)"

definition query_bounded :: "mtproto_query \<Rightarrow> bool" where
  "query_bounded q \<longleftrightarrow> length (mq_packet q) \<le> 2 ^ 22 \<and> length (mq_invoke_after q) \<le> 100"

lemma length_message_bytes: "length (message_bytes (i, s, b)) = 16 + length b"
  by (simp add: message_bytes_def)

lemma length_concat_bytes_of_u64: "length (concat (map bytes_of_u64 ids)) = 8 * length ids"
  by (induction ids) simp_all

lemma length_invoke_after: "length (invoke_after_bytes ids) \<le> 12 + 8 * length ids"
  by (auto simp: invoke_after_bytes_def length_concat_bytes_of_u64 split: list.split)

lemma query_size:
  assumes "api_bounded api" and "query_bounded q" and "length header \<le> 4096"
  shows "length (message_bytes (query_message api header q)) \<le> 5000 + length (mq_packet q)"
proof -
  have "length (api (ReqGzipPacked (mq_packet q))) \<le> 16 + length (mq_packet q)"
    using assms(1) by (metis api_bounded_def request_bound.simps(4))
  then show ?thesis
    using assms(2,3) length_invoke_after [of "mq_invoke_after q"]
    by (simp add: query_message_def length_message_bytes query_bounded_def)
qed

lemma queries_size:
  assumes "api_bounded api" and "\<forall>q\<in>set qs. query_bounded q" and "length header \<le> 4096"
  shows "length (concat (map message_bytes (map (query_message api header) qs))) \<le>
    5000 * length qs + sum_list (map (\<lambda>q. length (mq_packet q)) qs)"
  using assms(2)
proof (induction qs)
  case (Cons q qs)
  then show ?case using query_size [OF assms(1) _ assms(3), of q] by simp
qed simp

lemma object_size:
  assumes "api_bounded api"
  shows "length (concat (map message_bytes (object_messages api oi))) \<le> 16 + request_bound (oi_object oi)"
  using assms by (simp add: object_messages_def length_message_bytes api_bounded_def)

lemma cancel_size:
  assumes "api_bounded api" and "\<forall>oi\<in>set ois. \<exists>m. oi_object oi = ReqRpcDropAnswer m"
  shows "length (concat (map message_bytes (concat (map (object_messages api) ois)))) \<le> 80 * length ois"
  using assms(2)
proof (induction ois)
  case (Cons oi ois)
  then obtain m where "oi_object oi = ReqRpcDropAnswer m" by auto
  then show ?case using Cons object_size [OF assms(1), of oi] by simp
qed simp

lemma object_impl_new_object:
  "oi_object (fst (object_impl_new rx now b ob ad)) = ob" "oi_not_empty (fst (object_impl_new rx now b ob ad)) = b"
  by (simp_all add: object_impl_new_def case_prod_beta)

lemma cancel_vector_new_object:
  "oi \<in> set (fst (cancel_vector_new rx now ids ad)) \<Longrightarrow> \<exists>m. oi_object oi = ReqRpcDropAnswer m"
  by (induction ids arbitrary: ad) (auto simp: case_prod_beta object_impl_new_object)

lemma crypto_members_objects:
  assumes "crypto_members rx now a ad = (c, ad')"
  shows "oi_object (ci_ack c) = ReqMsgsAck (ca_to_ack a)" "oi_not_empty (ci_ack c) \<longleftrightarrow> ca_to_ack a \<noteq> []"
    "oi_object (ci_get_info c) = ReqMsgsStateReq (ca_get_info a)" "oi_object (ci_resend c) = ReqMsgResendReq (ca_resend a)"
    "request_bound (oi_object (ci_http_wait c)) = 64" "request_bound (oi_object (ci_get_future_salts c)) = 64"
    "request_bound (oi_object (ci_destroy_key c)) = 64" "request_bound (oi_object (ci_ping c)) = 64"
    "length (ci_cancel c) = length (ca_cancel a)" "\<forall>oi\<in>set (ci_cancel c). \<exists>m. oi_object oi = ReqRpcDropAnswer m"
    "ci_header c = ca_header a"
proof -
  have c: "c = fst (crypto_members rx now a ad)" using assms by simp
  note un = c crypto_members_def case_prod_beta
  show "oi_object (ci_ack c) = ReqMsgsAck (ca_to_ack a)" "oi_not_empty (ci_ack c) \<longleftrightarrow> ca_to_ack a \<noteq> []"
    "oi_object (ci_get_info c) = ReqMsgsStateReq (ca_get_info a)" "oi_object (ci_resend c) = ReqMsgResendReq (ca_resend a)"
    "request_bound (oi_object (ci_http_wait c)) = 64" "request_bound (oi_object (ci_get_future_salts c)) = 64"
    "request_bound (oi_object (ci_destroy_key c)) = 64" "request_bound (oi_object (ci_ping c)) = 64"
    "length (ci_cancel c) = length (ca_cancel a)" "ci_header c = ca_header a"
    unfolding un by (simp_all add: object_impl_new_object cancel_vector_new_ok)
  show "\<forall>oi\<in>set (ci_cancel c). \<exists>m. oi_object oi = ReqRpcDropAnswer m"
    unfolding un by (simp add: cancel_vector_new_object)
qed

text \<open>The limits \<open>flush_packet\<close> keeps when it fills a packet.\<close>

definition args_bounded :: "crypto_args \<Rightarrow> bool" where
  "args_bounded a \<longleftrightarrow> length (ca_to_send a) \<le> 1000 \<and> (\<forall>q\<in>set (ca_to_send a). query_bounded q) \<and>
     sum_list (map (\<lambda>q. length (mq_packet q)) (ca_to_send a)) \<le> 2 ^ 15 + 2 ^ 22 \<and> length (ca_header a) \<le> 4096 \<and>
     length (ca_to_ack a) \<le> 8192 \<and> length (ca_get_info a) \<le> 8192 \<and> length (ca_resend a) \<le> 8192 \<and> length (ca_cancel a) \<le> 1000"

lemma crypto_messages_size:
  assumes api: "api_bounded api" and a: "args_bounded a" and c: "crypto_members rx now a ad = (c, ad')"
  shows "length (concat (map message_bytes (crypto_messages api c))) < 2 ^ 24 - 2 ^ 12"
proof -
  note ok = crypto_members_ok [OF c] crypto_members_objects [OF c]
  have q: "length (concat (map message_bytes (map (query_message api (ci_header c)) (ci_to_send c)))) \<le> 5000000 + 2 ^ 15 + 2 ^ 22"
    using queries_size [OF api, of "ci_to_send c" "ci_header c"] a ok by (simp add: args_bounded_def)
  have s: "length (concat (map message_bytes (object_messages api (ci_ack c)))) \<le> 70000"
    "length (concat (map message_bytes (object_messages api (ci_get_info c)))) \<le> 70000"
    "length (concat (map message_bytes (object_messages api (ci_resend c)))) \<le> 70000"
    using object_size [OF api, of "ci_ack c"] object_size [OF api, of "ci_get_info c"] object_size [OF api, of "ci_resend c"] a ok
    by (simp_all add: args_bounded_def)
  have o: "length (concat (map message_bytes (object_messages api (ci_http_wait c)))) \<le> 80"
    "length (concat (map message_bytes (object_messages api (ci_get_future_salts c)))) \<le> 80"
    "length (concat (map message_bytes (object_messages api (ci_destroy_key c)))) \<le> 80"
    "length (concat (map message_bytes (object_messages api (ci_ping c)))) \<le> 80"
    using object_size [OF api, of "ci_http_wait c"] object_size [OF api, of "ci_get_future_salts c"]
      object_size [OF api, of "ci_destroy_key c"] object_size [OF api, of "ci_ping c"] ok by simp_all
  have v: "length (concat (map message_bytes (concat (map (object_messages api) (ci_cancel c))))) \<le> 80000"
    using cancel_size [OF api ok(13)] a ok by (simp add: args_bounded_def)
  have "(2::nat) ^ 24 - 2 ^ 12 = 16773120" "(2::nat) ^ 15 = 32768" "(2::nat) ^ 22 = 4194304" by simp_all
  then show ?thesis
    using q s o v unfolding crypto_messages_def map_append concat_append length_append by linarith
qed

lemma crypto_impl_new_members:
  assumes n: "crypto_impl_new rx now a ad = Some (c, ids, ad')" and c0: "crypto_members rx now a ad = (c0, ad0)"
  shows "crypto_messages api c = crypto_messages api c0"
  using crypto_impl_new_cases [OF c0 n] by (elim disjE exE conjE) (simp_all add: crypto_messages_def)

lemma crypto_bytes_size:
  assumes "api_bounded api" and "args_bounded a" and n: "crypto_impl_new rx now a ad = Some (c, ids, ad')"
  shows "length (crypto_bytes api c) < 2 ^ 24 - 2 ^ 11"
proof -
  obtain c0 ad0 where c0: "crypto_members rx now a ad = (c0, ad0)" by fastforce
  show ?thesis
    using crypto_messages_size [OF assms(1,2) c0] crypto_impl_new_members [OF n c0, of api]
    by (simp add: crypto_bytes_def Let_def length_message_bytes)
qed

section \<open>The interface to the raw connection\<close>

text \<open>A sender accepts every storer of moderate size with a real key, and can send again.\<close>

locale raw_sender =
  fixes send :: "'r sender" and ready :: "'r \<Rightarrow> bool"
  assumes send_returns: "ready r \<Longrightarrow> run_unsafe storer [] = Some data \<Longrightarrow> length data < 2 ^ 24 - 2 ^ 11 \<Longrightarrow>
    length (ak_key key) = 256 \<Longrightarrow> \<exists>n r'. send storer session_id salt key token r = Some (n, r') \<and> ready r'"

text \<open>A raw connection with its sources of random bytes.\<close>

definition raw_send ::
  "crypto_lib \<Rightarrow> (raw_connection \<Rightarrow> u32) \<Rightarrow> (raw_connection \<Rightarrow> nat \<Rightarrow> bytes) \<Rightarrow> (raw_connection \<Rightarrow> u32) \<Rightarrow>
     (raw_connection \<Rightarrow> nat \<Rightarrow> bytes) \<Rightarrow> raw_connection sender" where
  "raw_send L rnd pad frnd fpad storer session_id salt key token r =
     send_crypto L (rnd r) (pad r) (frnd r) (fpad r) storer session_id salt key token r"

lemma raw_send_sender:
  assumes L: "crypto_laws L" and pad: "\<And>r n. length (pad r n) = n" "\<And>r n. length (fpad r n) = n"
  shows "raw_sender (raw_send L rnd pad frnd fpad) (\<lambda>r. tr_writable (rc_transport r))"
proof
  fix r :: raw_connection and storer data session_id salt token and key :: auth_key
  assume t: "tr_writable (rc_transport r)" and d: "run_unsafe storer [] = Some data" and n: "length data < 2 ^ 24 - 2 ^ 11"
    and k: "length (ak_key key) = 256"
  have "run_calc storer 0 = Some (length data)" using run_calc_unsafe(2) [OF d] by simp
  then show "\<exists>n r'. raw_send L rnd pad frnd fpad storer session_id salt key token r = Some (n, r') \<and> tr_writable (rc_transport r')"
    using send_crypto_returns [OF L k t d _ n, where pad = "pad r" and fpad = "fpad r" and rnd = "rnd r" and frnd = "frnd r"
        and session = session_id and salt = salt and token = token] pad
    by (auto simp: raw_send_def)
qed

interpretation toy_raw: raw_sender "raw_send toy_lib (\<lambda>_. 0) (\<lambda>_ n. replicate n 0) (\<lambda>_. 0) (\<lambda>_ n. replicate n 0)"
  "\<lambda>r. tr_writable (rc_transport r)"
  by (rule raw_send_sender) (simp_all add: toy_laws)

text \<open>A sender that also writes down the packets it was given.\<close>

definition logged :: "'r sender \<Rightarrow> ('r \<times> bytes list) sender" where
  "logged send storer session_id salt key token s =
     (case s of (r, sent) \<Rightarrow>
      (case run_unsafe storer [] of None \<Rightarrow> None
       | Some bs \<Rightarrow> (case send storer session_id salt key token r of None \<Rightarrow> None
          | Some (n, r') \<Rightarrow> Some (n, r', sent @ [bs]))))"

section \<open>One packet\<close>

definition pending :: "session_connection \<Rightarrow> nat" where
  "pending st = length (sc_to_ack st) + length (sc_to_resend_answer st) + length (sc_to_cancel_answer st)
     + length (sc_to_get_state_info st)"

text \<open>What sending never changes.\<close>

definition same_frame :: "session_env \<Rightarrow> session_connection \<Rightarrow> session_connection \<Rightarrow> bool" where
  "same_frame env st st' \<longleftrightarrow> sc_mode st' = sc_mode st \<and> sc_state st' = sc_state st \<and> sc_online_flag st' = sc_online_flag st \<and>
     sc_is_main st' = sc_is_main st \<and> sc_raw_rtt st' = sc_raw_rtt st \<and> sc_random_delay st' = sc_random_delay st \<and>
     sc_need_destroy_auth_key st' = sc_need_destroy_auth_key st \<and> ad_same (se_cached env) (sc_auth st) (sc_auth st')"

lemma same_frame_trans: "same_frame env a b \<Longrightarrow> same_frame env b c \<Longrightarrow> same_frame env a c"
  by (auto simp: same_frame_def intro: ad_same_trans)

definition session_ready :: "session_env \<Rightarrow> session_connection \<Rightarrow> bool" where
  "session_ready env st \<longleftrightarrow> sc_state st \<noteq> StateClosed \<and> sc_mode st \<noteq> ModeHttpLongPoll \<and>
     has_auth_key (se_cached env) (sc_auth st) \<and> ad_session_id (sc_auth st) \<noteq> 0 \<and>
     length (ak_key (get_auth_key (sc_auth st))) = 256 \<and> length (ad_header (sc_auth st)) \<le> 4096 \<and>
     (\<forall>q\<in>set (sc_to_send st). query_bounded q) \<and> 0 \<le> sc_random_delay st"

lemma ad_same_key:
  "ad_same now ad ad' \<Longrightarrow> has_auth_key now' ad' = has_auth_key now' ad"
  "ad_same now ad ad' \<Longrightarrow> get_auth_key ad' = get_auth_key ad"
  "ad_same now ad ad' \<Longrightarrow> get_header now' ad' = get_header now' ad"
  by (simp_all add: ad_same_def has_auth_key_def has_tmp_auth_key_def has_main_auth_key_def get_auth_key_def get_header_def)

lemma session_ready_frame:
  assumes "session_ready env st" and f: "same_frame env st st'" and "set (sc_to_send st') \<subseteq> set (sc_to_send st)"
  shows "session_ready env st'"
proof -
  have ad: "ad_same (se_cached env) (sc_auth st) (sc_auth st')" using f by (simp add: same_frame_def)
  then have "ad_session_id (sc_auth st') = ad_session_id (sc_auth st)" "ad_header (sc_auth st') = ad_header (sc_auth st)"
    by (simp_all add: ad_same_def)
  then show ?thesis
    using assms ad_same_key(1,2) [OF ad] unfolding session_ready_def same_frame_def subset_eq by simp
qed

lemma remember_frame:
  fixes ids ping_id to_resend to_get_info queries st
  defines "st' \<equiv> remember_service_queries ids ping_id to_resend to_get_info queries st"
  shows "sc_mode st' = sc_mode st" "sc_state st' = sc_state st" "sc_online_flag st' = sc_online_flag st"
    "sc_is_main st' = sc_is_main st" "sc_raw_rtt st' = sc_raw_rtt st" "sc_random_delay st' = sc_random_delay st"
    "sc_need_destroy_auth_key st' = sc_need_destroy_auth_key st" "sc_auth st' = sc_auth st"
    "sc_to_send st' = sc_to_send st" "sc_to_ack st' = sc_to_ack st" "sc_to_resend_answer st' = sc_to_resend_answer st"
    "sc_to_cancel_answer st' = sc_to_cancel_answer st" "sc_to_get_state_info st' = sc_to_get_state_info st"
    "sc_last_ping_at st' = sc_last_ping_at st" "sc_last_get_future_salt_at st' = sc_last_get_future_salt_at st"
    "sc_sent_destroy_auth_key st' = sc_sent_destroy_auth_key st" "sc_force_send_at st' = sc_force_send_at st"
  unfolding st'_def remember_service_queries_def Let_def by (simp_all add: emit_def)

end
