(* ===== verification/SessionLive.thy ===== *)
theory SessionLive
  imports SenderProps
begin

text \<open>
  Sending: the loop of \<open>before_write\<close> ends and leaves nothing behind that is due.
\<close>

section \<open>One packet\<close>

lemma sublist_concat: "x \<in> set xs \<Longrightarrow> sublist (f x) (concat (map f xs))"
proof -
  assume "x \<in> set xs"
  then obtain a b where "xs = a @ x # b" by (meson split_list)
  then show ?thesis by (simp add: sublist_appendI)
qed

lemma message_in_packet: "m \<in> set (crypto_messages api c) \<Longrightarrow> sublist (message_bytes m) (crypto_bytes api c)"
proof -
  assume "m \<in> set (crypto_messages api c)"
  then have s: "sublist (message_bytes m) (concat (map message_bytes (crypto_messages api c)))" by (rule sublist_concat)
  show ?thesis
  proof (cases "ci_type c = Mixed")
    case True
    then obtain ps where ps: "crypto_bytes api c = ps @ concat (map message_bytes (crypto_messages api c))"
      by (simp add: crypto_bytes_def Let_def message_bytes_def)
    obtain x y where "concat (map message_bytes (crypto_messages api c)) = x @ message_bytes m @ y"
      using s unfolding sublist_def by blast
    then have "crypto_bytes api c = (ps @ x) @ message_bytes m @ y" using ps by simp
    then show ?thesis unfolding sublist_def by blast
  qed (use s in \<open>simp add: crypto_bytes_def\<close>)
qed

text \<open>The packet holds the queries, and one acknowledgement with all the identifiers.\<close>

definition carries :: "session_env \<Rightarrow> bytes \<Rightarrow> mtproto_query list \<Rightarrow> u64 list \<Rightarrow> bytes \<Rightarrow> bool" where
  "carries env header queries to_ack packet \<longleftrightarrow>
     (\<forall>q\<in>set queries. sublist (message_bytes (query_message (se_api env) header q)) packet) \<and>
     (to_ack \<noteq> [] \<longrightarrow> (\<exists>i s. sublist (message_bytes (i, s, se_api env (ReqMsgsAck to_ack))) packet))"

lemma crypto_impl_new_carries:
  assumes n: "crypto_impl_new rx now a ad = Some (c, ids, ad')"
  shows "carries env (ca_header a) (ca_to_send a) (ca_to_ack a) (crypto_bytes (se_api env) c)"
proof -
  obtain c0 ad0 where c0: "crypto_members rx now a ad = (c0, ad0)" by fastforce
  note ok = crypto_members_ok [OF c0] crypto_members_objects [OF c0]
  have "set (crypto_messages (se_api env) c0) \<subseteq> set (crypto_messages (se_api env) c)"
    by (simp add: crypto_impl_new_members [OF n c0])
  moreover have "q \<in> set (ca_to_send a) \<Longrightarrow> query_message (se_api env) (ca_header a) q \<in> set (crypto_messages (se_api env) c0)" for q
    using ok by (simp add: crypto_messages_def)
  moreover have "ca_to_ack a \<noteq> [] \<Longrightarrow> (oi_message_id (ci_ack c0), oi_seq_no (ci_ack c0), se_api env (ReqMsgsAck (ca_to_ack a)))
      \<in> set (crypto_messages (se_api env) c0)"
    using ok by (simp add: crypto_messages_def object_messages_def)
  ultimately show ?thesis unfolding carries_def by (blast intro: message_in_packet)
qed

lemma sent_storer:
  assumes "api_bounded api" and "args_bounded a" and n: "crypto_impl_new rx now a ad = Some (c, ids, ad')"
  shows "run_unsafe (crypto_store api c) [] = Some (crypto_bytes api c)" and "length (crypto_bytes api c) < 2 ^ 24 - 2 ^ 11"
proof -
  have "length (mq_invoke_after q) < 2 ^ 31" if "q \<in> set (ca_to_send a)" for q
    using assms(2) that by (fastforce simp: args_bounded_def query_bounded_def)
  then have "queries_ok c" using crypto_impl_new_ok(1) [OF n] by (simp add: queries_ok_def)
  then show "run_unsafe (crypto_store api c) [] = Some (crypto_bytes api c)"
    using run_crypto_store crypto_impl_new_ok(2) [OF n] by blast
  show "length (crypto_bytes api c) < 2 ^ 24 - 2 ^ 11" by (rule crypto_bytes_size [OF assms])
qed

text \<open>The session after a packet with the given queries was sent.\<close>

definition packet_sent :: "session_env \<Rightarrow> nat \<Rightarrow> session_connection \<Rightarrow> session_connection \<Rightarrow> bool" where
  "packet_sent env n st st' \<longleftrightarrow> same_frame env st st' \<and> sc_to_send st' = sc_to_send st \<and>
     sc_last_ping_at st' = sc_last_ping_at st \<and> sc_last_get_future_salt_at st' = sc_last_get_future_salt_at st \<and>
     sc_sent_destroy_auth_key st' = sc_sent_destroy_auth_key st \<and> pending st' \<le> pending st \<and>
     (0 < pending st \<and> n < 1000 \<longrightarrow> pending st' < pending st) \<and>
     sc_force_send_at st' = (if sc_to_send st = [] \<and> nothing_pending st' then 0 else sc_force_send_at st)"

text \<open>What \<open>flush_packet\<close> does before the packet is built.\<close>

lemma count_queries_bounds:
  "k \<le> count_queries k sz qs \<and> count_queries k sz qs \<le> k + length qs \<and> count_queries k sz qs \<le> max k 1000"
  by (induction k sz qs rule: count_queries.induct) (auto simp: MAX_QUERY_COUNT_def)

lemma count_queries_size:
  "\<forall>q\<in>set qs. length (mq_packet q) \<le> b \<Longrightarrow>
    sz + sum_list (map (\<lambda>q. length (mq_packet q)) (take (count_queries k sz qs - k) qs)) \<le> max sz (2 ^ 15 + b)"
proof (induction k sz qs rule: count_queries.induct)
  case (2 k sz q qs)
  show ?case
  proof (cases "k < MAX_QUERY_COUNT \<and> sz < 2 ^ 15")
    case True
    let ?n = "count_queries (k + 1) (sz + length (mq_packet q)) qs"
    have n: "?n - k = Suc (?n - (k + 1))" using count_queries_bounds [of "k + 1" "sz + length (mq_packet q)" qs] by linarith
    have "sz + length (mq_packet q) + sum_list (map (\<lambda>q. length (mq_packet q)) (take (?n - (k + 1)) qs))
        \<le> max (sz + length (mq_packet q)) (2 ^ 15 + b)"
      using 2 True by simp
    moreover have "length (mq_packet q) \<le> b" using 2(2) by simp
    ultimately show ?thesis using True unfolding count_queries.simps if_P [OF True] n by simp
  next
    case False
    show ?thesis unfolding count_queries.simps if_not_P [OF False] by simp
  qed
qed simp

lemma flush_ping_frame:
  assumes "flush_ping env salt st = (ping_id, st1)"
  shows "\<exists>ad. st1 = st\<lparr>sc_last_ping_at := (if salt \<and> may_ping env st then se_cached env else sc_last_ping_at st), sc_auth := ad\<rparr> \<and>
    ad_same now (sc_auth st) ad"
proof (cases "salt \<and> may_ping env st")
  case True
  then show ?thesis
    using assms ad_same_next_id [of now "sc_auth st" "se_rx env" "se_cached env"] by (auto simp: flush_ping_def case_prod_beta)
qed (use assms in \<open>auto simp: flush_ping_def ad_same_refl intro!: exI [of _ "sc_auth st"]\<close>)

lemma flush_future_salts_frame:
  assumes "flush_future_salts env st = (n, st1)" and "sc_mode st \<noteq> ModeHttpLongPoll"
  shows "\<exists>ad g. st1 = st\<lparr>sc_auth := ad, sc_last_get_future_salt_at := g\<rparr> \<and> ad_same (se_cached env) (sc_auth st) ad \<and>
    (\<not> salt_ok env st \<and> (sc_last_get_future_salt_at st = 0 \<or> sc_last_get_future_salt_at st + 60 < se_cached env)
      \<longrightarrow> g = se_cached env \<and> 0 < n) \<and> 0 \<le> n"
proof -
  let ?ad = "update_salt (se_cached env) (sc_auth st)"
  let ?c = "(ad_future_salts ?ad = [] \<or> \<not> is_server_salt_valid (se_cached env) ?ad) \<and>
    (sc_last_get_future_salt_at st = 0 \<or> sc_last_get_future_salt_at st + 60 < se_cached env)"
  have "salt_ok env st = is_server_salt_valid (se_cached env) ?ad" by (simp add: salt_ok_def has_salt_def Let_def)
  moreover have "st1 = st\<lparr>sc_auth := ?ad, sc_last_get_future_salt_at := (if ?c then se_cached env else sc_last_get_future_salt_at st)\<rparr>"
    "n = (if ?c then 64 else 0)"
    using assms by (auto simp: flush_future_salts_def need_future_salts_def Let_def split: if_splits)
  ultimately show ?thesis using ad_same_update_salt [of "se_cached env" "sc_auth st"] by (intro exI conjI) auto
qed

definition work :: "session_connection \<Rightarrow> nat" where
  "work st = length (sc_to_send st) + pending st"

definition flushed :: "session_env \<Rightarrow> session_connection \<Rightarrow> session_connection \<Rightarrow> bool" where
  "flushed env st st' \<longleftrightarrow> same_frame env st st' \<and>
     sc_last_ping_at st' = (if salt_ok env st \<and> may_ping env st then se_cached env else sc_last_ping_at st) \<and>
     (\<not> salt_ok env st \<longrightarrow> sc_last_get_future_salt_at st' = se_cached env) \<and>
     sc_sent_destroy_auth_key st' = (sc_sent_destroy_auth_key st \<or> sc_need_destroy_auth_key st) \<and>
     work st' \<le> work st \<and> (salt_ok env st \<and> 0 < work st \<longrightarrow> work st' < work st) \<and>
     (salt_ok env st \<and> work st = 0 \<longrightarrow> sc_force_send_at st' = 0) \<and>
     (sc_force_send_at st' = sc_force_send_at st \<or> (sc_force_send_at st' = 0 \<and> work st' = 0))"

lemma flush_prepare:
  assumes mode: "sc_mode st \<noteq> ModeHttpLongPoll" and q: "\<forall>q\<in>set (sc_to_send st). query_bounded q"
    and due: "salt_ok env st \<or> sc_last_get_future_salt_at st = 0 \<or> sc_last_get_future_salt_at st + 60 < se_cached env"
    and ad: "has_salt (se_cached env) (sc_auth st) = (salt, ad)"
    and p: "flush_ping env salt (st\<lparr>sc_auth := ad\<rparr>) = (ping_id, st1)"
    and f: "flush_future_salts env st1 = (n, st2)" and s: "flush_queries salt st2 = (queries, st3)"
  shows "same_frame env st st3" and "sc_to_send st = queries @ sc_to_send st3" and "salt \<Longrightarrow> sc_to_send st \<noteq> [] \<Longrightarrow> queries \<noteq> []"
    and "sc_last_ping_at st3 = (if salt_ok env st \<and> may_ping env st then se_cached env else sc_last_ping_at st)"
    and "\<not> salt \<Longrightarrow> sc_last_get_future_salt_at st3 = se_cached env \<and> 0 < n" and "0 \<le> n"
    and "sc_to_ack st3 = sc_to_ack st" "sc_to_resend_answer st3 = sc_to_resend_answer st"
      "sc_to_cancel_answer st3 = sc_to_cancel_answer st" "sc_to_get_state_info st3 = sc_to_get_state_info st"
      "sc_force_send_at st3 = sc_force_send_at st" "sc_sent_destroy_auth_key st3 = sc_sent_destroy_auth_key st"
    and "length queries \<le> 1000" "\<forall>q\<in>set queries. query_bounded q"
      "sum_list (map (\<lambda>q. length (mq_packet q)) queries) \<le> 2 ^ 15 + 2 ^ 22"
proof -
  have salt: "salt = salt_ok env st" using ad by (simp add: salt_ok_def)
  have 0: "ad_same (se_cached env) (sc_auth st) ad"
    using ad ad_same_update_salt [of "se_cached env" "sc_auth st"] by (auto simp: has_salt_def Let_def)
  obtain ad1 where 1: "st1 = st\<lparr>sc_auth := ad\<rparr>\<lparr>sc_last_ping_at :=
      (if salt \<and> may_ping env (st\<lparr>sc_auth := ad\<rparr>) then se_cached env else sc_last_ping_at (st\<lparr>sc_auth := ad\<rparr>)), sc_auth := ad1\<rparr>"
      and "ad_same (se_cached env) (sc_auth (st\<lparr>sc_auth := ad\<rparr>)) ad1"
    using flush_ping_frame [OF p, of "se_cached env"] by blast
  then have s1: "ad_same (se_cached env) ad ad1" by simp
  have mp: "may_ping env (st\<lparr>sc_auth := ad\<rparr>) = may_ping env st" by (simp add: may_ping_def ping_may_delay_def rtt_def)
  have salt1: "salt_ok env st1 = salt_ok env st"
    using ad_same_trans [OF 0 s1] 1 by (simp add: salt_ok_def ad_same_def)
  obtain ad2 g where 2: "st2 = st1\<lparr>sc_auth := ad2, sc_last_get_future_salt_at := g\<rparr>" and s2: "ad_same (se_cached env) ad1 ad2"
      and g: "\<not> salt_ok env st1 \<and> (sc_last_get_future_salt_at st1 = 0 \<or> sc_last_get_future_salt_at st1 + 60 < se_cached env)
        \<longrightarrow> g = se_cached env \<and> 0 < n" "0 \<le> n"
    using flush_future_salts_frame [OF f] 1 mode by auto
  let ?n = "if salt then count_queries 0 0 (sc_to_send st) else 0"
  have 3: "queries = take ?n (sc_to_send st)" "st3 = st2\<lparr>sc_to_send := drop ?n (sc_to_send st)\<rparr>"
    using s by (auto simp: flush_queries_def Let_def 1 2)
  note un = 1 2 3
  show "same_frame env st st3" using ad_same_trans [OF ad_same_trans [OF 0 s1] s2] by (simp add: same_frame_def un)
  show "sc_to_send st = queries @ sc_to_send st3" by (simp add: un)
  show "salt \<Longrightarrow> sc_to_send st \<noteq> [] \<Longrightarrow> queries \<noteq> []"
    using count_queries_bounds [of 1 "length (mq_packet (hd (sc_to_send st)))" "tl (sc_to_send st)"]
    unfolding 3 by (cases "sc_to_send st") (auto simp: MAX_QUERY_COUNT_def)
  show "sc_last_ping_at st3 = (if salt_ok env st \<and> may_ping env st then se_cached env else sc_last_ping_at st)"
    by (simp add: un mp salt)
  show "\<not> salt \<Longrightarrow> sc_last_get_future_salt_at st3 = se_cached env \<and> 0 < n" "0 \<le> n"
    using g due salt1 salt by (simp_all add: un)
  show "sc_to_ack st3 = sc_to_ack st" "sc_to_resend_answer st3 = sc_to_resend_answer st"
      "sc_to_cancel_answer st3 = sc_to_cancel_answer st" "sc_to_get_state_info st3 = sc_to_get_state_info st"
      "sc_force_send_at st3 = sc_force_send_at st" "sc_sent_destroy_auth_key st3 = sc_sent_destroy_auth_key st"
    by (simp_all add: un)
  show "length queries \<le> 1000" using count_queries_bounds [of 0 0 "sc_to_send st"] by (simp add: 3)
  show "\<forall>q\<in>set queries. query_bounded q" using q in_set_takeD by (fastforce simp: 3)
  show "sum_list (map (\<lambda>q. length (mq_packet q)) queries) \<le> 2 ^ 15 + 2 ^ 22"
    using count_queries_size [of "sc_to_send st" "2 ^ 22" 0 0] q by (simp add: 3 query_bounded_def)
qed

section \<open>The loop\<close>

definition flush_due :: "session_env \<Rightarrow> session_connection \<Rightarrow> bool" where
  "flush_due env st \<longleftrightarrow>
     (if salt_ok env st
      then (sc_force_send_at st \<noteq> 0 \<and> sc_force_send_at st < se_cached env) \<or> must_ping env st \<or>
           (sc_need_destroy_auth_key st \<and> \<not> sc_sent_destroy_auth_key st)
      else sc_last_get_future_salt_at st = 0 \<or> sc_last_get_future_salt_at st + 60 < se_cached env)"

lemma ex_flush_packet_at:
  "\<exists>t. st = st\<lparr>sc_flush_packet_at := t\<rparr>" "\<exists>t. st\<lparr>sc_flush_packet_at := x\<rparr> = st\<lparr>sc_flush_packet_at := t\<rparr>"
  by (rule exI [of _ "sc_flush_packet_at st"], simp) (rule exI, rule refl)

lemma must_flush_salts_due:
  "\<exists>t. must_flush_salts env salt st =
    (if salt then sc_need_destroy_auth_key st \<and> \<not> sc_sent_destroy_auth_key st
     else sc_last_get_future_salt_at st = 0 \<or> sc_last_get_future_salt_at st + 60 < se_cached env, st\<lparr>sc_flush_packet_at := t\<rparr>)"
  unfolding must_flush_salts_def relax_flush_def Let_def by (cases salt) (simp_all add: ex_flush_packet_at)

lemma must_flush_ping_due:
  "\<exists>t. must_flush_ping env salt st =
    (if salt then must_ping env st \<or> (sc_need_destroy_auth_key st \<and> \<not> sc_sent_destroy_auth_key st)
     else sc_last_get_future_salt_at st = 0 \<or> sc_last_get_future_salt_at st + 60 < se_cached env, st\<lparr>sc_flush_packet_at := t\<rparr>)"
proof (cases "salt \<and> \<not> must_ping env st")
  case True
  then show ?thesis
    using must_flush_salts_due [of env salt "relax_flush (sc_last_ping_at st + ping_must_delay st) st"]
    by (simp add: must_flush_ping_def relax_flush_def)
next
  case False
  then show ?thesis
    using must_flush_salts_due [of env salt st] unfolding must_flush_ping_def
    by (cases salt) (simp_all add: ex_flush_packet_at)
qed

lemma must_flush_packet_due:
  assumes "session_ready env st"
  shows "\<exists>t. must_flush_packet env True st =
    (flush_due env st, st\<lparr>sc_auth := update_salt (se_cached env) (sc_auth st), sc_flush_packet_at := t\<rparr>)"
proof -
  let ?ad = "update_salt (se_cached env) (sc_auth st)"
  define st1 where "st1 = st\<lparr>sc_flush_packet_at := 0, sc_auth := ?ad\<rparr>"
  have st1: "st1 = st\<lparr>sc_auth := ?ad, sc_flush_packet_at := 0\<rparr>" by (simp add: st1_def)
  have h: "has_salt (se_cached env) (sc_auth st) = (salt_ok env st, ?ad)"
    by (simp add: salt_ok_def has_salt_def Let_def)
  have mp: "must_ping env (st\<lparr>sc_auth := a, sc_flush_packet_at := b\<rparr>) = must_ping env st" for a b
    by (simp add: must_ping_def ping_must_delay_def rtt_def)
  have run: "must_flush_packet env True st =
      (if salt_ok env st \<and> sc_force_send_at st \<noteq> 0
       then (if sc_force_send_at st < se_cached env then (True, st1)
             else must_flush_ping env (salt_ok env st) (relax_flush (sc_force_send_at st) st1))
       else must_flush_ping env (salt_ok env st) st1)"
    using assms h by (simp add: must_flush_packet_def session_ready_def st1_def Let_def)
  have ping: "\<exists>t. must_flush_ping env (salt_ok env st) (st\<lparr>sc_auth := ?ad, sc_flush_packet_at := x\<rparr>) =
      (flush_due env st, st\<lparr>sc_auth := ?ad, sc_flush_packet_at := t\<rparr>)"
    if n: "\<not> (salt_ok env st \<and> sc_force_send_at st \<noteq> 0 \<and> sc_force_send_at st < se_cached env)" for x
  proof -
    have "flush_due env st = (if salt_ok env st then must_ping env st \<or> (sc_need_destroy_auth_key st \<and> \<not> sc_sent_destroy_auth_key st)
        else sc_last_get_future_salt_at st = 0 \<or> sc_last_get_future_salt_at st + 60 < se_cached env)"
      using n unfolding flush_due_def by argo
    then show ?thesis
      using must_flush_ping_due [of env "salt_ok env st" "st\<lparr>sc_auth := ?ad, sc_flush_packet_at := x\<rparr>"]
      by (cases "salt_ok env st") (simp_all add: mp)
  qed
  show ?thesis
  proof (cases "salt_ok env st \<and> sc_force_send_at st \<noteq> 0 \<and> sc_force_send_at st < se_cached env")
    case True
    then have "must_flush_packet env True st = (flush_due env st, st1)" unfolding run by (simp add: flush_due_def)
    then show ?thesis using st1 by blast
  next
    case False
    note p = ping [OF False]
    show ?thesis
    proof (cases "salt_ok env st \<and> sc_force_send_at st \<noteq> 0")
      case True
      then show ?thesis using False p [of "relax_timeout_at 0 (sc_force_send_at st)"]
        unfolding run st1 relax_flush_def by simp
    next
      case ne: False
      show ?thesis unfolding run if_not_P [OF ne] st1 by (rule p)
    qed
  qed
qed

text \<open>A bound on the packets left to send.\<close>

definition flush_bound :: "session_env \<Rightarrow> session_connection \<Rightarrow> nat" where
  "flush_bound env st =
     (if salt_ok env st
      then work st + of_bool (must_ping env st) + of_bool (sc_need_destroy_auth_key st \<and> \<not> sc_sent_destroy_auth_key st)
        + of_bool (sc_force_send_at st \<noteq> 0)
      else of_bool (flush_due env st))"

lemma flushed_ping:
  assumes f: "flushed env st st'" and salt: "salt_ok env st" and now: "0 < se_cached env" and "0 \<le> sc_random_delay st"
  shows "\<not> must_ping env st'"
proof -
  have d: "ping_must_delay st' = ping_must_delay st" "ping_may_delay st \<le> ping_must_delay st" "0 \<le> ping_must_delay st"
    using assms by (auto simp: flushed_def same_frame_def ping_must_delay_def ping_may_delay_def rtt_def max_def)
  have m: "sc_mode st' = sc_mode st" using f by (simp add: flushed_def same_frame_def)
  show ?thesis
  proof (cases "may_ping env st")
    case True
    then have "sc_last_ping_at st' = se_cached env" using f salt by (simp add: flushed_def)
    then show ?thesis using now d by (simp add: must_ping_def)
  next
    case False
    then have "sc_last_ping_at st' = sc_last_ping_at st" using f by (simp add: flushed_def)
    then show ?thesis using False d m by (auto simp: must_ping_def may_ping_def)
  qed
qed

lemma flushed_bound:
  assumes f: "flushed env st st'" and due: "flush_due env st" and now: "0 < se_cached env" and r: "0 \<le> sc_random_delay st"
  shows "flush_bound env st' < flush_bound env st"
proof -
  have s: "salt_ok env st' = salt_ok env st" using f by (simp add: flushed_def same_frame_def salt_ok_def ad_same_def)
  show ?thesis
  proof (cases "salt_ok env st")
    case True
    have b: "flush_bound env st' = work st' + of_bool (sc_force_send_at st' \<noteq> 0)"
      using flushed_ping [OF f True now r] f True s by (auto simp: flush_bound_def flushed_def same_frame_def)
    show ?thesis
    proof (cases "work st = 0")
      case True': True
      then have "flush_bound env st' = 0" using f True b by (auto simp: flushed_def)
      moreover have "0 < flush_bound env st" using due True by (auto simp: flush_bound_def flush_due_def)
      ultimately show ?thesis by simp
    next
      case False
      then have "work st' < work st" using f True by (simp add: flushed_def)
      moreover have "of_bool (sc_force_send_at st' \<noteq> 0) \<le> (of_bool (sc_force_send_at st \<noteq> 0) :: nat)"
        using f by (auto simp: flushed_def)
      ultimately show ?thesis unfolding b using True by (simp add: flush_bound_def)
    qed
  next
    case False
    then have "\<not> flush_due env st'" using f s now by (simp add: flush_due_def flushed_def)
    then show ?thesis using False s due by (simp add: flush_bound_def)
  qed
qed

text \<open>Every query and every acknowledged identifier is in one of the packets.\<close>

definition delivered :: "session_env \<Rightarrow> bytes \<Rightarrow> bytes list \<Rightarrow> mtproto_query list \<Rightarrow> u64 list \<Rightarrow> bool" where
  "delivered env header packets queries acks \<longleftrightarrow>
     (\<forall>q\<in>set queries. \<exists>bs\<in>set packets. sublist (message_bytes (query_message (se_api env) header q)) bs) \<and>
     (\<forall>m\<in>set acks. \<exists>bs\<in>set packets. \<exists>i s ids. m \<in> set ids \<and> sublist (message_bytes (i, s, se_api env (ReqMsgsAck ids))) bs)"

lemma carries_delivered:
  "queries = [] \<and> acks = [] \<or> (\<exists>bs\<in>set packets. carries env header queries acks bs) \<Longrightarrow> delivered env header packets queries acks"
proof (elim disjE bexE)
  fix bs assume bs: "bs \<in> set packets" and c: "carries env header queries acks bs"
  have "\<exists>i s ids. m \<in> set ids \<and> sublist (message_bytes (i, s, se_api env (ReqMsgsAck ids))) bs" if "m \<in> set acks" for m
  proof -
    have "acks \<noteq> []" using that by auto
    then show ?thesis using c that unfolding carries_def by blast
  qed
  then show "delivered env header packets queries acks" using c bs unfolding delivered_def carries_def by blast
qed (simp add: delivered_def)

lemma delivered_append:
  "delivered env h ps qs as \<Longrightarrow> delivered env h ps' qs' as' \<Longrightarrow> delivered env h (ps @ ps') (qs @ qs') (as' @ as)"
  unfolding delivered_def set_append by blast

context raw_sender
begin

lemma logged_returns:
  assumes "ready r" and bs: "run_unsafe storer [] = Some bs" and "length bs < 2 ^ 24 - 2 ^ 11" and "length (ak_key key) = 256"
  shows "\<exists>n r'. logged send storer session_id salt key token (r, sent) = Some (n, r', sent @ [bs]) \<and> ready r'"
proof -
  obtain n r' where "send storer session_id salt key token r = Some (n, r')" "ready r'" using send_returns [OF assms] by blast
  then show ?thesis using bs by (simp add: logged_def)
qed

lemma sc_send_crypto_returns:
  assumes "session_ready env st" and r: "ready r" and bs: "run_unsafe storer [] = Some bs" and n: "length bs < 2 ^ 24 - 2 ^ 11"
  shows "\<exists>ad w r'. sc_send_crypto env (logged send) storer token (st, r, sent) =
    Some (st\<lparr>sc_auth := ad, sc_last_write_size := w\<rparr>, r', sent @ [bs]) \<and> ready r' \<and> ad_same (se_cached env) (sc_auth st) ad"
proof -
  let ?ad = "update_salt (se_cached env) (sc_auth st)"
  note same = ad_same_update_salt [of "se_cached env" "sc_auth st"]
  have k: "length (ak_key (get_auth_key ?ad)) = 256"
    using assms(1) ad_same_key(2) [OF same] by (simp add: session_ready_def)
  obtain m r' where "logged send storer (ad_session_id (sc_auth st)) (ss_salt (ad_server_salt ?ad)) (get_auth_key ?ad) token
      (r, sent) = Some (m, r', sent @ [bs])" "ready r'" using logged_returns [OF r bs n k] by blast
  then show ?thesis
    using assms(1) same
    by (auto simp: sc_send_crypto_def session_ready_def get_session_id_def get_server_salt_def Let_def)
qed

lemma send_packet_returns:
  assumes ready: "session_ready env st" and r: "ready r" and api: "api_bounded (se_api env)"
    and q: "length queries \<le> 1000" "\<forall>q\<in>set queries. query_bounded q"
      "sum_list (map (\<lambda>q. length (mq_packet q)) queries) \<le> 2 ^ 15 + 2 ^ 22"
    and some: "queries \<noteq> [] \<or> \<not> nothing_pending st \<or> ping_id \<noteq> 0 \<or> 0 \<le> fst wait \<or> 0 < future_salt_n \<or> destroy"
  shows "\<exists>st' r' bs acks. send_packet env (logged send) ping_id wait future_salt_n queries destroy (st, r, sent) =
      Some (st', r', sent @ [bs]) \<and> ready r' \<and> packet_sent env (length queries) st st' \<and> sc_to_ack st = sc_to_ack st' @ acks \<and>
      carries env (get_header (se_cached env) (sc_auth st)) queries acks bs"
proof -
  obtain d1 d2 d3 where w: "wait = (d1, d2, d3)" by (cases wait)
  obtain rs rrest where rs: "cut_tail (sc_to_resend_answer st) 8192 = (rs, rrest)" by fastforce
  obtain cs crest where cs: "cut_tail (sc_to_cancel_answer st) (1000 - length queries) = (cs, crest)" by fastforce
  obtain gs grest where gs: "cut_tail (sc_to_get_state_info st) 8192 = (gs, grest)" by fastforce
  obtain as arest where as: "cut_tail (sc_to_ack st) 8192 = (as, arest)" by fastforce
  note cut = rs [THEN cut_tail_parts(1)] cs [THEN cut_tail_parts(1)] gs [THEN cut_tail_parts(1)] as [THEN cut_tail_parts(1)]
    and len = rs [THEN cut_tail_parts(2)] cs [THEN cut_tail_parts(2)] gs [THEN cut_tail_parts(2)] as [THEN cut_tail_parts(2)]
  define st1 where "st1 = st\<lparr>sc_to_resend_answer := rrest, sc_to_cancel_answer := crest, sc_to_get_state_info := grest, sc_to_ack := arest\<rparr>"
  define a where "a = \<lparr>ca_to_send = queries, ca_header = get_header (se_cached env) (sc_auth st1), ca_to_ack = as,
    ca_ping_id = ping_id, ca_ping_timeout = \<lfloor>ping_disconnect_delay st1 + 2\<rfloor>, ca_max_delay = d1,
    ca_max_after = d2, ca_max_wait = d3, ca_future_salt_n = future_salt_n,
    ca_get_info = gs, ca_resend = rs, ca_cancel = cs, ca_destroy_key = destroy\<rparr>"
  have "length (get_header (se_cached env) (sc_auth st1)) \<le> 4096"
    using ready by (simp add: st1_def get_header_def session_ready_def)
  then have ab: "args_bounded a" using q len by (simp add: a_def args_bounded_def)
  have "queries \<noteq> [] \<or> as \<noteq> [] \<or> rs \<noteq> [] \<or> cs \<noteq> [] \<or> gs \<noteq> [] \<or> ping_id \<noteq> 0 \<or> 0 \<le> d1 \<or> 0 < future_salt_n \<or> destroy"
    using some len w by (auto simp: nothing_pending_def min_def split: if_splits)
  then obtain c ids ad where n: "crypto_impl_new (se_rx env) (se_cached env) a (sc_auth st1) = Some (c, ids, ad)"
    using crypto_impl_new_returns [of a "se_rx env" "se_cached env" "sc_auth st1"] by (auto simp: a_def)
  have ad: "ad_same (se_cached env) (sc_auth st) ad" using ad_same_crypto [OF n] by (simp add: st1_def)
  have ready1: "session_ready env (st1\<lparr>sc_auth := ad\<rparr>)"
    using session_ready_frame [OF ready, of "st1\<lparr>sc_auth := ad\<rparr>"] ad by (simp add: same_frame_def st1_def)
  note st = sent_storer [OF api ab n]
  let ?token = "if \<exists>q\<in>set queries. mq_use_quick_ack q then id_parent ids else 0"
  obtain ad' wsz r' where s: "sc_send_crypto env (logged send) (crypto_store (se_api env) c) ?token (st1\<lparr>sc_auth := ad\<rparr>, r, sent) =
      Some (st1\<lparr>sc_auth := ad\<rparr>\<lparr>sc_auth := ad', sc_last_write_size := wsz\<rparr>, r', sent @ [crypto_bytes (se_api env) c])"
      and r': "ready r'" and ad': "ad_same (se_cached env) ad ad'"
    using sc_send_crypto_returns [OF ready1 r st] by fastforce
  define st3 where "st3 = remember_service_queries ids ping_id rs gs queries (st1\<lparr>sc_auth := ad\<rparr>\<lparr>sc_auth := ad', sc_last_write_size := wsz\<rparr>)"
  let ?st' = "if sc_to_send st3 = [] \<and> nothing_pending st3 then st3\<lparr>sc_force_send_at := 0\<rparr> else st3"
  have mq: "\<not> length queries > 1000" using q by simp
  have "send_packet env (logged send) ping_id wait future_salt_n queries destroy (st, r, sent) =
      Some (?st', r', sent @ [crypto_bytes (se_api env) c])"
    unfolding send_packet_def w prod.case rs if_not_P [OF mq] MAX_QUERY_COUNT_def cs gs as Let_def
      st1_def [symmetric] a_def [symmetric] n option.case s st3_def [symmetric] ..
  moreover have "packet_sent env (length queries) st ?st'"
  proof -
    have f: "same_frame env st ?st'"
      using ad_same_trans [OF ad ad'] by (simp add: same_frame_def st3_def remember_frame st1_def)
    have p: "pending st = pending st1 + (length as + length rs + length cs + length gs)"
      by (simp add: pending_def st1_def cut [symmetric])
    have lt: "0 < length as + length rs + length cs + length gs" if "0 < pending st" "length queries < 1000"
      using that unfolding len pending_def by (simp add: min_def)
    have p': "pending ?st' = pending st1" by (simp add: pending_def st3_def remember_frame st1_def)
    have "nothing_pending ?st' = nothing_pending st3" by (simp add: nothing_pending_def)
    moreover have "sc_to_send ?st' = sc_to_send st" "sc_last_ping_at ?st' = sc_last_ping_at st"
      "sc_last_get_future_salt_at ?st' = sc_last_get_future_salt_at st" "sc_sent_destroy_auth_key ?st' = sc_sent_destroy_auth_key st"
      "sc_force_send_at ?st' = (if sc_to_send st3 = [] \<and> nothing_pending st3 then 0 else sc_force_send_at st)"
      "sc_to_send st3 = sc_to_send st"
      by (simp_all add: st3_def remember_frame st1_def)
    moreover have "pending ?st' \<le> pending st" "0 < pending st \<and> length queries < 1000 \<longrightarrow> pending ?st' < pending st"
      unfolding p' using p lt by linarith+
    ultimately show ?thesis using f unfolding packet_sent_def by presburger
  qed
  moreover have "sc_to_ack st = sc_to_ack ?st' @ as" using cut by (simp add: st3_def remember_frame st1_def)
  moreover have "carries env (get_header (se_cached env) (sc_auth st)) queries as (crypto_bytes (se_api env) c)"
    using crypto_impl_new_carries [OF n] by (simp add: a_def st1_def)
  ultimately show ?thesis using r' by blast
qed

lemma flush_packet_returns:
  assumes ready: "session_ready env st" and r: "ready r" and api: "api_bounded (se_api env)"
    and due: "salt_ok env st \<or> sc_last_get_future_salt_at st = 0 \<or> sc_last_get_future_salt_at st + 60 < se_cached env"
  shows "\<exists>st' r' packets queries acks. flush_packet env (logged send) (st, r, sent) = Some (st', r', sent @ packets) \<and> ready r' \<and>
    flushed env st st' \<and> sc_to_send st = queries @ sc_to_send st' \<and> sc_to_ack st = sc_to_ack st' @ acks \<and>
    (queries = [] \<and> acks = [] \<or> (\<exists>bs\<in>set packets. carries env (get_header (se_cached env) (sc_auth st)) queries acks bs))"
proof -
  obtain salt ad where ad: "has_salt (se_cached env) (sc_auth st) = (salt, ad)" by fastforce
  obtain ping_id st1 where p: "flush_ping env salt (st\<lparr>sc_auth := ad\<rparr>) = (ping_id, st1)" by fastforce
  obtain n st2 where f: "flush_future_salts env st1 = (n, st2)" by fastforce
  obtain queries st3 where q: "flush_queries salt st2 = (queries, st3)" by fastforce
  have m: "sc_mode st \<noteq> ModeHttpLongPoll" "\<forall>q\<in>set (sc_to_send st). query_bounded q"
    using ready by (simp_all add: session_ready_def)
  have salt: "salt = salt_ok env st" using ad by (simp add: salt_ok_def)
  note pre = flush_prepare [OF m due ad p f q]
  have need: "sc_need_destroy_auth_key st3 = sc_need_destroy_auth_key st" using pre(1) by (simp add: same_frame_def)
  let ?w = "flush_http_wait env st1"
  let ?d = "sc_need_destroy_auth_key st3 \<and> \<not> sc_sent_destroy_auth_key st3"
  let ?empty = "queries = [] \<and> nothing_pending st3 \<and> ping_id = 0 \<and> fst ?w < 0 \<and> n = 0 \<and> \<not> ?d"
  have pend: "pending st3 = pending st" "nothing_pending st3 \<longleftrightarrow> pending st = 0"
    using pre(7-10) by (auto simp: pending_def nothing_pending_def)
  note run = flush_packet_def prod.case ad p Let_def f q
  show ?thesis
  proof (cases ?empty)
    case True
    then have s: salt and e: "sc_to_send st = []" using pre(3,5) by fastforce+
    have fr: "same_frame env st (st3\<lparr>sc_force_send_at := 0\<rparr>)" using pre(1) by (simp add: same_frame_def)
    have "work st = 0" "work (st3\<lparr>sc_force_send_at := 0\<rparr>) = 0"
      using True e pre(2) pend by (auto simp: work_def pending_def nothing_pending_def)
    then have "flushed env st (st3\<lparr>sc_force_send_at := 0\<rparr>)"
      using fr s salt True pre(4,12) need by (auto simp: flushed_def)
    moreover have "flush_packet env (logged send) (st, r, sent) = Some (st3\<lparr>sc_force_send_at := 0\<rparr>, r, sent @ [])"
      unfolding run if_P [OF True] by simp
    ultimately show ?thesis using r e pre(2,7) by fastforce
  next
    case False
    define st4 where "st4 = (if ?d then st3\<lparr>sc_sent_destroy_auth_key := True, sc_destroy_auth_key_send_time := se_now env\<rparr> else st3)"
    have fr: "same_frame env st st4" using pre(1) by (simp add: same_frame_def st4_def)
    have f4: "sc_to_send st4 = sc_to_send st3" "sc_to_ack st4 = sc_to_ack st" "pending st4 = pending st"
        "nothing_pending st4 = nothing_pending st3" "sc_force_send_at st4 = sc_force_send_at st"
        "sc_last_ping_at st4 = sc_last_ping_at st3" "sc_last_get_future_salt_at st4 = sc_last_get_future_salt_at st3"
        "sc_sent_destroy_auth_key st4 = (sc_sent_destroy_auth_key st \<or> sc_need_destroy_auth_key st)"
      using pre(7,11,12) pend need by (auto simp add: st4_def pending_def nothing_pending_def)
    have ready4: "session_ready env st4"
      using session_ready_frame [OF ready fr] pre(2) f4(1) by (metis Un_iff set_append subsetI)
    have some: "queries \<noteq> [] \<or> \<not> nothing_pending st4 \<or> ping_id \<noteq> 0 \<or> 0 \<le> fst ?w \<or> 0 < n \<or> ?d"
      using False pre(6) f4(4) by linarith
    obtain st' r' bs acks where s: "send_packet env (logged send) ping_id ?w n queries ?d (st4, r, sent) = Some (st', r', sent @ [bs])"
        and r': "ready r'" and ps: "packet_sent env (length queries) st4 st'" and ak: "sc_to_ack st4 = sc_to_ack st' @ acks"
        and c: "carries env (get_header (se_cached env) (sc_auth st4)) queries acks bs"
      using send_packet_returns [OF ready4 r api pre(13-15) some] by blast
    have h: "get_header (se_cached env) (sc_auth st4) = get_header (se_cached env) (sc_auth st)"
      using ad_same_key(3) fr unfolding same_frame_def by blast
    have len: "length (sc_to_send st) = length queries + length (sc_to_send st')"
      using arg_cong [OF pre(2), of length] ps f4(1) by (simp add: packet_sent_def)
    have le: "pending st' \<le> pending st" "queries = [] \<Longrightarrow> 0 < pending st \<Longrightarrow> pending st' < pending st"
      using ps f4(3) by (simp_all add: packet_sent_def)
    have less: "salt_ok env st \<and> 0 < work st \<longrightarrow> work st' < work st"
    proof (cases "queries = []")
      case True
      then have "salt_ok env st \<longrightarrow> sc_to_send st = []" using pre(3) salt by blast
      then show ?thesis using le(2) [OF True] len True by (auto simp: work_def)
    next
      case False
      then have "0 < length queries" by simp
      then show ?thesis using le(1) len unfolding work_def by linarith
    qed
    have "nothing_pending st' \<longleftrightarrow> pending st' = 0" by (auto simp: pending_def nothing_pending_def)
    then have "flushed env st st'"
      using same_frame_trans [OF fr, of st'] ps f4 pre(4,5) salt len less
      by (auto simp: flushed_def packet_sent_def work_def)
    moreover have "flush_packet env (logged send) (st, r, sent) = Some (st', r', sent @ [bs])"
      unfolding run if_not_P [OF False] st4_def [symmetric] s by simp
    moreover have "sc_to_send st = queries @ sc_to_send st'" "sc_to_ack st = sc_to_ack st' @ acks"
      using pre(2) ps f4 ak by (simp_all add: packet_sent_def)
    ultimately show ?thesis using r' c h by (metis list.set_intros(1))
  qed
qed

lemma before_write_returns:
  assumes "session_ready env st" and "ready r" and api: "api_bounded (se_api env)" and now: "0 < se_cached env"
    and "flush_bound env st < n"
  shows "\<exists>st' r' packets queries acks. sc_before_write n env (logged send) (\<lambda>_. True) (st, r, sent) = Some (st', r', sent @ packets) \<and>
    ready r' \<and> \<not> flush_due env st' \<and> salt_ok env st' = salt_ok env st \<and> work st' \<le> work st \<and>
    (sc_force_send_at st' = sc_force_send_at st \<or> sc_force_send_at st' = 0 \<and> work st' = 0) \<and>
    sc_to_send st = queries @ sc_to_send st' \<and> sc_to_ack st = sc_to_ack st' @ acks \<and>
    delivered env (get_header (se_cached env) (sc_auth st)) packets queries acks"
  using assms(1,2,5)
proof (induction n arbitrary: st r sent)
  case (Suc n)
  obtain t where m: "must_flush_packet env True st =
      (flush_due env st, st\<lparr>sc_auth := update_salt (se_cached env) (sc_auth st), sc_flush_packet_at := t\<rparr>)" (is "_ = (_, ?st)")
    using must_flush_packet_due [OF Suc.prems(1)] by blast
  have same: "ad_same (se_cached env) (sc_auth st) (update_salt (se_cached env) (sc_auth st))" by (rule ad_same_update_salt)
  have fr: "same_frame env st ?st" using same by (simp add: same_frame_def)
  have salt: "salt_ok env ?st = salt_ok env st" using same by (simp add: salt_ok_def ad_same_def)
  have ready: "session_ready env ?st" by (rule session_ready_frame [OF Suc.prems(1) fr]) simp
  have due: "flush_due env ?st = flush_due env st" "flush_bound env ?st = flush_bound env st"
    unfolding flush_bound_def flush_due_def salt
    by (simp_all add: must_ping_def ping_must_delay_def rtt_def work_def pending_def)
  have h: "get_header (se_cached env) (sc_auth ?st) = get_header (se_cached env) (sc_auth st)"
    using ad_same_key(3) [OF same] by simp
  show ?case
  proof (cases "flush_due env st")
    case False
    then show ?thesis using m due salt Suc.prems(2) by (auto simp: delivered_def work_def pending_def)
  next
    case True
    have "salt_ok env ?st \<or> sc_last_get_future_salt_at ?st = 0 \<or> sc_last_get_future_salt_at ?st + 60 < se_cached env"
      using True [folded due(1)] by (simp only: flush_due_def simp_thms split: if_splits)
    then obtain st1 r1 ps qs as where f: "flush_packet env (logged send) (?st, r, sent) = Some (st1, r1, sent @ ps)" and r1: "ready r1"
        and fl: "flushed env ?st st1" and qs: "sc_to_send ?st = qs @ sc_to_send st1" "sc_to_ack ?st = sc_to_ack st1 @ as"
        and c: "qs = [] \<and> as = [] \<or> (\<exists>bs\<in>set ps. carries env (get_header (se_cached env) (sc_auth ?st)) qs as bs)"
      using flush_packet_returns [OF ready Suc.prems(2) api, of sent] by blast
    have fr1: "same_frame env ?st st1" using fl by (simp add: flushed_def)
    have ready1: "session_ready env st1" by (rule session_ready_frame [OF ready fr1]) (use qs in simp)
    have "0 \<le> sc_random_delay ?st" using Suc.prems(1) by (simp add: session_ready_def)
    then have b: "flush_bound env st1 < n" using flushed_bound [OF fl _ now] True due Suc.prems(3) by simp
    have h1: "get_header (se_cached env) (sc_auth st1) = get_header (se_cached env) (sc_auth st)"
      using ad_same_key(3) fr1 h unfolding same_frame_def by metis
    have s1: "salt_ok env st1 = salt_ok env st" using fr1 salt by (simp add: same_frame_def salt_ok_def ad_same_def)
    obtain st' r' ps' qs' as' where IH: "sc_before_write n env (logged send) (\<lambda>_. True) (st1, r1, sent @ ps) = Some (st', r', (sent @ ps) @ ps')"
        "ready r'" "\<not> flush_due env st'" "salt_ok env st' = salt_ok env st1" "work st' \<le> work st1"
        "sc_force_send_at st' = sc_force_send_at st1 \<or> sc_force_send_at st' = 0 \<and> work st' = 0"
        "sc_to_send st1 = qs' @ sc_to_send st'" "sc_to_ack st1 = sc_to_ack st' @ as'"
        "delivered env (get_header (se_cached env) (sc_auth st1)) ps' qs' as'"
      using Suc.IH [OF ready1 r1 b, of "sent @ ps"] by blast
    have d: "delivered env (get_header (se_cached env) (sc_auth st)) (ps @ ps') (qs @ qs') (as' @ as)"
      using delivered_append [OF carries_delivered [OF c]] IH(9) h h1 by simp
    have w: "work st' \<le> work st" using IH(5) fl by (simp add: flushed_def work_def pending_def)
    have "sc_before_write (Suc n) env (logged send) (\<lambda>_. True) (st, r, sent) = Some (st', r', sent @ (ps @ ps'))"
      using m True f IH(1) by simp
    moreover have "sc_force_send_at st' = sc_force_send_at st \<or> sc_force_send_at st' = 0 \<and> work st' = 0"
      using IH(5,6) fl by (auto simp: flushed_def)
    ultimately show ?thesis using IH(2-4,7,8) qs d s1 w by auto
  qed
qed simp

end

section \<open>Everything due is sent\<close>

text \<open>
  C6. Once the time of the next forced packet has come, one \<open>before_write\<close> over a
  working raw connection ends within a bound given by the queues, and leaves nothing queued: every
  query that was waiting, with its header and its dependencies, and every identifier that was
  waiting to be acknowledged is in the bytes of one of the packets handed to the connection, and no
  forced packet stays scheduled.
\<close>

theorem due_work_is_sent:
  assumes "crypto_laws L" and "\<And>r n. length (pad r n) = n" and "\<And>r n. length (fpad r n) = n"
    and "tr_writable (rc_transport r)" and "session_ready env st" and "api_bounded (se_api env)" and "0 < se_cached env"
    and "salt_ok env st" and "sc_force_send_at st \<noteq> 0" and "sc_force_send_at st < se_cached env" and "work st + 3 < n"
  shows "\<exists>st' r' packets. sc_before_write n env (logged (raw_send L rnd pad frnd fpad)) (\<lambda>_. True) (st, r, []) = Some (st', r', packets) \<and>
    sc_to_send st' = [] \<and> nothing_pending st' \<and> sc_force_send_at st' = 0 \<and>
    delivered env (get_header (se_cached env) (sc_auth st)) packets (sc_to_send st) (sc_to_ack st)"
proof -
  have rs: "raw_sender (raw_send L rnd pad frnd fpad) (\<lambda>r. tr_writable (rc_transport r))"
    using assms(1-3) by (rule raw_send_sender)
  have b: "flush_bound env st < n" using assms(8,11) by (simp add: flush_bound_def)
  obtain st' r' packets queries acks where run:
      "sc_before_write n env (logged (raw_send L rnd pad frnd fpad)) (\<lambda>_. True) (st, r, []) = Some (st', r', [] @ packets)"
      and d: "\<not> flush_due env st'" "salt_ok env st' = salt_ok env st"
      and f: "sc_force_send_at st' = sc_force_send_at st \<or> sc_force_send_at st' = 0 \<and> work st' = 0"
      and q: "sc_to_send st = queries @ sc_to_send st'" "sc_to_ack st = sc_to_ack st' @ acks"
      and v: "delivered env (get_header (se_cached env) (sc_auth st)) packets queries acks"
    using raw_sender.before_write_returns [OF rs assms(5,4,6,7) b, of "[]"] by blast
  have "sc_force_send_at st' \<noteq> sc_force_send_at st" using d assms(8-10) by (auto simp: flush_due_def)
  then have "sc_force_send_at st' = 0" "work st' = 0" using f by blast+
  then show ?thesis using run q v by (auto simp: work_def pending_def nothing_pending_def)
qed

definition sample_auth :: auth_data where
  "sample_auth = (auth_data_init 5)\<lparr>ad_use_pfs := False, ad_main_auth_key := auth_key_of 1 (replicate 256 3), ad_session_id := 9,
     ad_server_salt := \<lparr>ss_salt = 5, ss_valid_since = 0, ss_valid_until = 1000\<rparr>\<rparr>"

definition sample_session :: session_connection where
  "sample_session = (session_connection_new ModeTcp 0 0 1 sample_auth)\<lparr>sc_state := StateRun,
     sc_to_send := [sample_query], sc_to_ack := [77], sc_force_send_at := 1\<rparr>"

definition sample_env :: session_env where
  "sample_env = \<lparr>se_now = 100, se_cached = 100, se_rx = (\<lambda>_. 0), se_answer = (\<lambda>_. OK), se_gzdecode = (\<lambda>_. []),
     se_fetch = (\<lambda>_ _. None), se_fetch_rpc_error = (\<lambda>_. Inl []), se_fetch_gzip = (\<lambda>_. Inl []),
     se_api = (\<lambda>_. bytes_of_u32 7 @ bytes_of_u32 7)\<rparr>"

theorem due_work_is_sent_witness:
  "\<exists>st' r' packets. sc_before_write 9 sample_env (logged (raw_send toy_lib (\<lambda>_. 0) (\<lambda>_ n. replicate n 7) (\<lambda>_. 0) (\<lambda>_ n. replicate n 7)))
      (\<lambda>_. True) (sample_session, sample_connection [], []) = Some (st', r', packets) \<and>
    delivered sample_env (get_header 100 sample_auth) packets [sample_query] [77]"
proof -
  have salt: "salt_ok sample_env sample_session"
    by (simp add: salt_ok_def has_salt_def update_salt_def update_salt_loop.simps [of _ _ "[]"] is_server_salt_valid_def
        get_server_time_def sample_env_def sample_session_def session_connection_new_def sample_auth_def auth_data_init_def)
  have "length (bytes_of_u32 7 @ bytes_of_u32 7) \<le> request_bound req" for req by (cases req) simp_all
  then have api: "api_bounded (se_api sample_env)" by (simp add: api_bounded_def sample_env_def)
  have ready: "session_ready sample_env sample_session"
    by (simp add: session_ready_def sample_env_def sample_session_def session_connection_new_def sample_auth_def auth_data_init_def
        has_auth_key_def has_main_auth_key_def get_auth_key_def auth_key_of_def ak_empty_def query_bounded_def sample_query_def)
  have w: "work sample_session + 3 < 9" "sc_force_send_at sample_session = 1" "sc_to_send sample_session = [sample_query]"
      "sc_to_ack sample_session = [77]" "sc_auth sample_session = sample_auth" "se_cached sample_env = 100"
    by (simp_all add: work_def pending_def sample_session_def session_connection_new_def sample_env_def)
  show ?thesis
    using due_work_is_sent [OF toy_laws _ _ _ ready api _ salt _ _ w(1), where pad = "\<lambda>_ n. replicate n 7"
        and fpad = "\<lambda>_ n. replicate n 7" and r = "sample_connection []" and rnd = "\<lambda>_. 0" and frnd = "\<lambda>_. 0"] w(2-6)
    by (auto simp: sample_connection_def)
qed

end
