(* ===== verification/SessionSteps.thy ===== *)
theory SessionSteps
  imports SessionLive AuthRun
begin

text \<open>
  A session over its whole life: the requests of its owner, the packets and acknowledgements of its
  raw connection and the packets it sends, in any order.
\<close>

section \<open>What a step may change\<close>

definition advances :: "session_connection \<Rightarrow> session_connection \<Rightarrow> bool" where
  "advances st st' \<longleftrightarrow> sc_mode st' = sc_mode st \<and> prefix (sc_events st) (sc_events st') \<and> (scheduled st \<longrightarrow> scheduled st') \<and>
     (sc_mode st = ModeHttpLongPoll \<and> sc_to_send st = [] \<longrightarrow> sc_to_send st' = []) \<and>
     (ad_duplicate_checker (sc_auth st') = ad_duplicate_checker (sc_auth st) \<or>
      (\<exists>x. ad_duplicate_checker (sc_auth st') = snd (dc_check 1000 x (ad_duplicate_checker (sc_auth st)))))"

lemma keeps_advances: "keeps st st' \<Longrightarrow> advances st st'"
  by (auto simp: keeps_def advances_def)

lemma advances_keeps: "advances a b \<Longrightarrow> keeps b c \<Longrightarrow> advances a c"
  unfolding keeps_def advances_def by (auto intro: prefix_order.trans)

lemma keeps_advances_trans: "keeps a b \<Longrightarrow> advances b c \<Longrightarrow> advances a c"
  unfolding keeps_def advances_def by (auto intro: prefix_order.trans)

section \<open>Received packets\<close>

lemma keeps_on_main_packet:
  assumes pos: "0 < se_cached env" and r: "on_main_packet env n info packet st = Some (e, st')"
  shows "keeps st st'"
proof -
  let ?st1 = "st\<lparr>sc_last_pong_at := se_cached env, sc_real_last_pong_at := se_cached env\<rparr>"
  let ?st2 = "if \<not> sc_connected_flag ?st1 then emit OnConnected (?st1\<lparr>sc_connected_flag := True\<rparr>) else ?st1"
  have 2: "keeps st ?st2" by (rule keeps_simple) (simp_all add: emit_def)
  show ?thesis
  proof (cases "pi_no_crypto_flag info")
    case True
    then show ?thesis using r 2 by (simp add: on_main_packet_def Let_def)
  next
    case False
    obtain e1 p st3 where p: "parse_packet (on_slice_packet env n) (tl_parser_of packet) ?st2 = Some (e1, p, st3)" and "st' = st3"
      using r False unfolding on_main_packet_def Let_def by (auto split: option.splits if_splits)
    have "parse_packets (on_slice_packet env n) 1 (tl_parser_of packet) ?st2 = Some (e1, p, st3)" using p by simp
    then have "keeps ?st2 st3" using keeps_parse_packets [OF keeps_on_slice_packet [OF pos]] by blast
    then show ?thesis using keeps_trans [OF 2] \<open>st' = st3\<close> by blast
  qed
qed

text \<open>The packet passed the checks of the session: its contents are processed.\<close>

definition accepts :: "session_env \<Rightarrow> packet_info \<Rightarrow> session_connection \<Rightarrow> bool" where
  "accepts env info st \<longleftrightarrow> \<not> pi_no_crypto_flag info \<and>
     (case check_packet (pi_session_id info) (pi_message_id info) (se_cached env) (sc_auth st) of
        Some (status, _) \<Rightarrow> status = OK | None \<Rightarrow> False)"

lemma check_packet_marked:
  assumes "check_packet sid x now ad = Some (status, upd, ad')" and "dc_inv 1000 (ad_duplicate_checker ad)"
    and "dc_marked 1000 (ad_duplicate_checker ad) x"
  shows "status \<noteq> OK \<and> \<not> upd"
  using assms(1) dc1000.marked_refused [OF assms(2,3)]
  by (auto simp: check_packet_def is_error_def Let_def split: option.splits if_splits prod.splits)

lemma raw_packet_effect:
  assumes pos: "0 < se_cached env" and r: "sc_on_raw_packet env n info packet st = Some (e, st')"
    and c: "\<not> pi_no_crypto_flag info"
      "check_packet (pi_session_id info) (pi_message_id info) (se_cached env) (sc_auth st) = Some (status, upd, ad)"
  shows "advances st st'" and "ad_duplicate_checker (sc_auth st') = ad_duplicate_checker ad"
    and "\<not> upd \<Longrightarrow> status \<noteq> OK \<Longrightarrow> sc_events st' = sc_events st \<or>
      sc_events st' = sc_events st @ [OnSessionFailed (Err ''Receive too old packet'')]"
    and "ad_session_id (sc_auth st') = ad_session_id ad"
proof -
  let ?st1 = "st\<lparr>sc_main_message_id := pi_message_id info, sc_auth := ad\<rparr>"
  let ?st2 = "if upd then emit (OnServerTimeDifferenceUpdated False) ?st1 else ?st1"
  let ?restore = "\<lambda>s. s\<lparr>sc_main_message_id := sc_main_message_id st\<rparr>"
  note dc = check_packet_frame(3) [OF c(2)]
  have 1: "advances st ?st1" using dc by (auto simp: advances_def scheduled_def nothing_pending_def)
  have 2: "keeps ?st1 ?st2" by (rule keeps_simple) (simp_all add: emit_def)
  have k: "keeps s (?restore s)" for s by (rule keeps_simple) simp_all
  have ev: "sc_events (send_ack env m s) = sc_events s" for m s by (simp add: send_ack_def Let_def)
  obtain st3 where st3: "keeps ?st2 st3" "st' = ?restore st3"
      and e3: "\<not> upd \<Longrightarrow> status \<noteq> OK \<Longrightarrow> sc_events st3 = sc_events st \<or>
        sc_events st3 = sc_events st @ [OnSessionFailed (Err ''Receive too old packet'')]"
  proof (cases "is_error status")
    case True
    let ?s = "if st_code status = 1 then send_ack env (pi_message_id info) ?st2
      else if st_code status = 2 then emit (OnSessionFailed (Err ''Receive too old packet'')) ?st2 else ?st2"
    have "st' = ?restore ?s" using r c True by (auto simp: sc_on_raw_packet_def Let_def split: if_splits)
    moreover have "keeps ?st2 ?s" by (simp add: send_ack_queues(1) [OF pos] keeps_emit keeps_refl)
    ultimately show thesis using that [of ?s] by (simp add: ev emit_def)
  next
    case False
    then obtain s where s: "on_main_packet env n info packet ?st2 = Some (e, s)" "st' = ?restore s"
      using r c by (auto simp: sc_on_raw_packet_def Let_def split: option.splits)
    have "status = OK" using False by (simp add: is_error_def)
    then show thesis using that keeps_on_main_packet [OF pos s(1)] s(2) by blast
  qed
  show "advances st st'"
    unfolding st3(2) using advances_keeps [OF advances_keeps [OF advances_keeps [OF 1 2] st3(1)] k] .
  show "ad_duplicate_checker (sc_auth st') = ad_duplicate_checker ad" "ad_session_id (sc_auth st') = ad_session_id ad"
    using st3 2 by (simp_all add: keeps_def emit_def split: if_splits)
  show "\<not> upd \<Longrightarrow> status \<noteq> OK \<Longrightarrow> sc_events st' = sc_events st \<or>
      sc_events st' = sc_events st @ [OnSessionFailed (Err ''Receive too old packet'')]"
    using e3 st3(2) by simp
qed

lemma raw_packet_plain:
  assumes "pi_no_crypto_flag info" and "sc_on_raw_packet env n info packet st = Some (e, st')"
  shows "keeps st st'" and "sc_events st' = sc_events st"
proof -
  have "st' = st" using assms by (simp add: sc_on_raw_packet_def Let_def)
  then show "keeps st st'" "sc_events st' = sc_events st" by (simp_all add: keeps_refl)
qed

lemma raw_packet_advances:
  assumes pos: "0 < se_cached env" and r: "sc_on_raw_packet env n info packet st = Some (e, st')"
  shows "advances st st'"
proof (cases "pi_no_crypto_flag info")
  case True
  then show ?thesis using raw_packet_plain [OF _ r] keeps_advances by blast
next
  case False
  then obtain status upd ad where
    c: "check_packet (pi_session_id info) (pi_message_id info) (se_cached env) (sc_auth st) = Some (status, upd, ad)"
    using r by (auto simp: sc_on_raw_packet_def Let_def split: option.splits)
  show ?thesis by (rule raw_packet_effect(1) [OF pos r False c])
qed

section \<open>Sending\<close>

text \<open>Only the queues shrink, and the forced packet stays scheduled while they hold something.\<close>

definition shrinks :: "session_connection \<Rightarrow> session_connection \<Rightarrow> bool" where
  "shrinks st st' \<longleftrightarrow> sc_mode st' = sc_mode st \<and> prefix (sc_events st) (sc_events st') \<and>
     ad_duplicate_checker (sc_auth st') = ad_duplicate_checker (sc_auth st) \<and>
     (sc_to_send st = [] \<longrightarrow> sc_to_send st' = []) \<and> (nothing_pending st \<longrightarrow> nothing_pending st') \<and>
     (sc_force_send_at st' = sc_force_send_at st \<or> sc_to_send st' = [] \<and> nothing_pending st')"

lemma shrinks_advances: "shrinks st st' \<Longrightarrow> advances st st'"
  unfolding shrinks_def advances_def scheduled_def by auto

lemma shrinks_trans:
  assumes "shrinks a b" and "shrinks b c" and "sc_force_send_at b = sc_force_send_at a"
  shows "shrinks a c"
  using assms unfolding shrinks_def by (auto intro: prefix_order.trans)

lemma ad_same_dc: "ad_same now ad ad' \<Longrightarrow> ad_duplicate_checker ad' = ad_duplicate_checker ad"
  by (simp add: ad_same_def)

lemma sc_send_crypto_frame:
  assumes "sc_send_crypto env send storer token (st, r) = Some (st', r')"
  shows "\<exists>w. st' = st\<lparr>sc_auth := update_salt (se_cached env) (sc_auth st), sc_last_write_size := w\<rparr>"
  using assms unfolding sc_send_crypto_def get_server_salt_def Let_def
  by (auto split: if_splits option.splits)

lemma remember_events: "prefix (sc_events st) (sc_events (remember_service_queries ids p rs gs qs st))"
  by (simp add: remember_service_queries_def Let_def emit_def)

lemma cut_tail_Nil: "fst (cut_tail [] n) = []" "snd (cut_tail [] n) = []"
  by (simp_all add: cut_tail_def)

lemma send_packet_shrinks:
  assumes r: "send_packet env send ping_id wait n queries destroy (st, r) = Some (st', r')"
  shows "shrinks st st'"
proof -
  obtain d1 d2 d3 where w: "wait = (d1, d2, d3)" by (cases wait)
  obtain rs rrest where rs: "cut_tail (sc_to_resend_answer st) 8192 = (rs, rrest)" by fastforce
  obtain cs crest where cs: "cut_tail (sc_to_cancel_answer st) (MAX_QUERY_COUNT - length queries) = (cs, crest)" by fastforce
  obtain gs grest where gs: "cut_tail (sc_to_get_state_info st) 8192 = (gs, grest)" by fastforce
  obtain as arest where as: "cut_tail (sc_to_ack st) 8192 = (as, arest)" by fastforce
  let ?st1 = "st\<lparr>sc_to_resend_answer := rrest, sc_to_cancel_answer := crest, sc_to_get_state_info := grest, sc_to_ack := arest\<rparr>"
  have "\<exists>a c ids ad st2. crypto_impl_new (se_rx env) (se_cached env) a (sc_auth ?st1) = Some (c, ids, ad) \<and>
      (\<exists>storer token. sc_send_crypto env send storer token (?st1\<lparr>sc_auth := ad\<rparr>, r) = Some (st2, r')) \<and>
      (let st3 = remember_service_queries ids ping_id rs gs queries st2
       in st' = (if sc_to_send st3 = [] \<and> nothing_pending st3 then st3\<lparr>sc_force_send_at := 0\<rparr> else st3))"
    using r unfolding send_packet_def w prod.case rs cs gs as Let_def
    by (auto split: if_split_asm option.split_asm) blast+
  then obtain a c ids ad st2 storer token where n: "crypto_impl_new (se_rx env) (se_cached env) a (sc_auth ?st1) = Some (c, ids, ad)"
      and s: "sc_send_crypto env send storer token (?st1\<lparr>sc_auth := ad\<rparr>, r) = Some (st2, r')"
      and st': "st' = (let st3 = remember_service_queries ids ping_id rs gs queries st2
        in if sc_to_send st3 = [] \<and> nothing_pending st3 then st3\<lparr>sc_force_send_at := 0\<rparr> else st3)"
    by (auto simp: Let_def)
  obtain wsz where st2: "st2 = ?st1\<lparr>sc_auth := update_salt (se_cached env) ad, sc_last_write_size := wsz\<rparr>"
    using sc_send_crypto_frame [OF s] by auto
  have dc: "ad_duplicate_checker ad = ad_duplicate_checker (sc_auth st)" using ad_same_dc [OF ad_same_crypto [OF n]] by simp
  let ?st3 = "remember_service_queries ids ping_id rs gs queries st2"
  have ev: "prefix (sc_events st) (sc_events ?st3)" using remember_events [of st2] by (simp add: st2)
  have np: "nothing_pending ?st3 \<longleftrightarrow> arest = [] \<and> rrest = [] \<and> crest = [] \<and> grest = []"
    by (simp add: nothing_pending_def remember_frame st2)
  have emp: "nothing_pending st \<Longrightarrow> nothing_pending ?st3"
    unfolding np using rs cs gs as cut_tail_Nil(2) by (auto simp: nothing_pending_def cut_tail_def)
  have f: "sc_mode ?st3 = sc_mode st" "sc_to_send ?st3 = sc_to_send st" "sc_force_send_at ?st3 = sc_force_send_at st"
      "ad_duplicate_checker (sc_auth ?st3) = ad_duplicate_checker (sc_auth st)"
    using dc by (simp_all add: remember_frame st2)
  have np': "nothing_pending (?st3\<lparr>sc_force_send_at := 0\<rparr>) = nothing_pending ?st3" by (simp add: nothing_pending_def)
  show ?thesis
    using st' ev emp f np' unfolding shrinks_def Let_def
    by (cases "sc_to_send ?st3 = [] \<and> nothing_pending ?st3") simp_all
qed

lemma flush_packet_shrinks:
  assumes r: "flush_packet env send (st, r) = Some (st', r')"
    and due: "salt_ok env st \<or> sc_mode st \<noteq> ModeHttpLongPoll \<and>
      (sc_last_get_future_salt_at st = 0 \<or> sc_last_get_future_salt_at st + 60 < se_cached env)"
  shows "shrinks st st'"
proof -
  obtain salt ad where ad: "has_salt (se_cached env) (sc_auth st) = (salt, ad)" by fastforce
  obtain ping_id st1 where p: "flush_ping env salt (st\<lparr>sc_auth := ad\<rparr>) = (ping_id, st1)" by fastforce
  obtain n st2 where f: "flush_future_salts env st1 = (n, st2)" by fastforce
  obtain queries st3 where q: "flush_queries salt st2 = (queries, st3)" by fastforce
  have salt: "salt = salt_ok env st" using ad by (simp add: salt_ok_def)
  have 0: "ad_same (se_cached env) (sc_auth st) ad"
    using ad ad_same_update_salt [of "se_cached env" "sc_auth st"] by (auto simp: has_salt_def Let_def)
  obtain ad1 t where "st1 = st\<lparr>sc_auth := ad\<rparr>\<lparr>sc_last_ping_at := t, sc_auth := ad1\<rparr>"
      and "ad_same (se_cached env) (sc_auth (st\<lparr>sc_auth := ad\<rparr>)) ad1"
    using flush_ping_frame [OF p, of "se_cached env"] by blast
  then have 1: "st1 = st\<lparr>sc_last_ping_at := t, sc_auth := ad1\<rparr>" and s1: "ad_same (se_cached env) ad ad1" by simp_all
  have salt1: "salt_ok env st1 = salt_ok env st"
    using ad_same_trans [OF 0 s1] 1 by (simp add: salt_ok_def ad_same_def)
  have "\<exists>ad2 g. st2 = st1\<lparr>sc_auth := ad2, sc_last_get_future_salt_at := g\<rparr> \<and> ad_same (se_cached env) ad1 ad2 \<and> (salt \<or> n \<noteq> 0)"
  proof (cases "sc_mode st = ModeHttpLongPoll")
    case True
    then have "st2 = st1" "salt" using f 1 due salt by (simp_all add: flush_future_salts_def)
    then show ?thesis
      using 1 by (intro exI [of _ ad1] exI [of _ "sc_last_get_future_salt_at st1"]) (simp add: ad_same_refl)
  next
    case False
    then show ?thesis using flush_future_salts_frame [OF f] 1 due salt salt1 by auto
  qed
  then obtain ad2 g where 2: "st2 = st1\<lparr>sc_auth := ad2, sc_last_get_future_salt_at := g\<rparr>"
      and s2: "ad_same (se_cached env) ad1 ad2" and n: "salt \<or> n \<noteq> 0" by blast
  let ?n = "if salt then count_queries 0 0 (sc_to_send st) else 0"
  have 3: "queries = take ?n (sc_to_send st)" "st3 = st2\<lparr>sc_to_send := drop ?n (sc_to_send st)\<rparr>"
    using q by (auto simp: flush_queries_def Let_def 1 2)
  have e: "salt \<Longrightarrow> sc_to_send st \<noteq> [] \<Longrightarrow> queries \<noteq> []"
    using count_queries_bounds [of 1 "length (mq_packet (hd (sc_to_send st)))" "tl (sc_to_send st)"]
    unfolding 3 by (cases "sc_to_send st") (auto simp: MAX_QUERY_COUNT_def)
  have dc: "ad_duplicate_checker ad2 = ad_duplicate_checker (sc_auth st)"
    by (rule ad_same_dc [OF ad_same_trans [OF ad_same_trans [OF 0 s1] s2]])
  have fr: "shrinks st st3" "sc_force_send_at st3 = sc_force_send_at st" "nothing_pending st3 = nothing_pending st"
    using dc by (simp_all add: shrinks_def nothing_pending_def 1 2 3)
  let ?w = "flush_http_wait env st1"
  let ?d = "sc_need_destroy_auth_key st3 \<and> \<not> sc_sent_destroy_auth_key st3"
  let ?empty = "queries = [] \<and> nothing_pending st3 \<and> ping_id = 0 \<and> fst ?w < 0 \<and> n = 0 \<and> \<not> ?d"
  note run = r [unfolded flush_packet_def prod.case ad p Let_def f q]
  show ?thesis
  proof (cases ?empty)
    case True
    then have "sc_to_send st = []" using e n by blast
    then show ?thesis
      using run [unfolded if_P [OF True]] True fr by (auto simp: shrinks_def nothing_pending_def)
  next
    case False
    let ?st4 = "if ?d then st3\<lparr>sc_sent_destroy_auth_key := True, sc_destroy_auth_key_send_time := se_now env\<rparr> else st3"
    have "shrinks st3 ?st4" "sc_force_send_at ?st4 = sc_force_send_at st3" by (simp_all add: shrinks_def nothing_pending_def)
    then have "shrinks st ?st4" "sc_force_send_at ?st4 = sc_force_send_at st" using shrinks_trans [OF fr(1)] fr(2) by simp_all
    then show ?thesis using shrinks_trans send_packet_shrinks [OF run [unfolded if_not_P [OF False]]] by blast
  qed
qed

definition salt_due :: "session_env \<Rightarrow> session_connection \<Rightarrow> bool" where
  "salt_due env st \<longleftrightarrow> sc_last_get_future_salt_at st = 0 \<or> sc_last_get_future_salt_at st + 60 < se_cached env"

lemma must_flush_ping_effect:
  assumes "must_flush_ping env salt st = (must, st')"
  shows "\<exists>t. st' = st\<lparr>sc_flush_packet_at := t\<rparr>" and "must \<Longrightarrow> salt \<or> salt_due env st"
  using assms must_flush_ping_due [of env salt st] by (auto simp: salt_due_def split: if_splits)

lemma must_flush_packet_effect:
  assumes m: "must_flush_packet env can_send st = (must, st')"
  shows "keeps st st'" and "must \<Longrightarrow> salt_ok env st' \<or> sc_mode st' \<noteq> ModeHttpLongPoll \<and> salt_due env st'"
proof -
  let ?ad = "update_salt (se_cached env) (sc_auth st)"
  define st1 where "st1 = st\<lparr>sc_flush_packet_at := 0, sc_auth := ?ad\<rparr>"
  have h: "has_salt (se_cached env) (sc_auth st) = (salt_ok env st, ?ad)"
    by (simp add: salt_ok_def has_salt_def Let_def)
  have k1: "keeps st (st1\<lparr>sc_flush_packet_at := t\<rparr>)" "keeps st st1" for t by (rule keeps_simple, simp_all add: st1_def)+
  have salt: "salt_ok env (st1\<lparr>sc_flush_packet_at := t\<rparr>) = salt_ok env st" "salt_ok env st1 = salt_ok env st" for t
    by (simp_all add: st1_def salt_ok_def has_salt_def Let_def update_salt_idem)
  have due: "salt_due env (st1\<lparr>sc_flush_packet_at := t\<rparr>) = salt_due env st1" for t by (simp add: salt_due_def)
  let ?goal = "keeps st st' \<and> (must \<longrightarrow> salt_ok env st' \<or> sc_mode st' \<noteq> ModeHttpLongPoll \<and> salt_due env st')"
  have ping: ?goal if mf: "must_flush_ping env (salt_ok env st) (st1\<lparr>sc_flush_packet_at := x\<rparr>) = (must, st')"
      and mode: "sc_mode st \<noteq> ModeHttpLongPoll" for x
  proof -
    obtain t where "st' = st1\<lparr>sc_flush_packet_at := t\<rparr>" using must_flush_ping_effect(1) [OF mf] by auto
    moreover have "sc_mode st1 = sc_mode st" by (simp add: st1_def)
    ultimately show ?thesis using must_flush_ping_effect(2) [OF mf] k1 salt due mode by auto
  qed
  have ?goal
  proof (cases "has_auth_key (se_cached env) (sc_auth st) \<and> can_send")
    case False
    then have "must_flush_packet env can_send st = (False, st\<lparr>sc_flush_packet_at := 0\<rparr>)"
      by (cases can_send) (simp_all add: must_flush_packet_def Let_def)
    then have "st' = st\<lparr>sc_flush_packet_at := 0\<rparr>" "\<not> must" using m by simp_all
    then show ?thesis by (simp add: keeps_simple)
  next
    case True
    then have "must_flush_packet env can_send st = (if sc_mode st = ModeHttpLongPoll then (salt_ok env st, st1)
        else if salt_ok env st \<and> sc_force_send_at st \<noteq> 0
        then (if se_cached env > sc_force_send_at st then (True, st1)
              else must_flush_ping env (salt_ok env st) (st1\<lparr>sc_flush_packet_at := relax_timeout_at 0 (sc_force_send_at st)\<rparr>))
        else must_flush_ping env (salt_ok env st) st1)"
      using h by (cases "sc_mode st = ModeHttpLongPoll"; cases "salt_ok env st")
        (simp_all add: must_flush_packet_def Let_def st1_def relax_flush_def)
    note run = this [unfolded m]
    show ?thesis
    proof (cases "sc_mode st = ModeHttpLongPoll \<or> salt_ok env st \<and> sc_force_send_at st \<noteq> 0 \<and> se_cached env > sc_force_send_at st")
      case True
      then have "st' = st1" "must \<longrightarrow> salt_ok env st" using run by (auto split: if_splits)
      then show ?thesis using k1 salt by simp
    next
      case False
      have "st1 = st1\<lparr>sc_flush_packet_at := 0\<rparr>" by (simp add: st1_def)
      then have "must_flush_ping env (salt_ok env st) st1 = (must, st') \<Longrightarrow>
          must_flush_ping env (salt_ok env st) (st1\<lparr>sc_flush_packet_at := 0\<rparr>) = (must, st')" by metis
      then have "\<exists>x. must_flush_ping env (salt_ok env st) (st1\<lparr>sc_flush_packet_at := x\<rparr>) = (must, st')"
        using run False by (auto split: if_splits)
      then show ?thesis using ping False by blast
    qed
  qed
  then show "keeps st st'" "must \<Longrightarrow> salt_ok env st' \<or> sc_mode st' \<noteq> ModeHttpLongPoll \<and> salt_due env st'" by blast+
qed

lemma advances_trans2: "keeps a b \<Longrightarrow> shrinks b c \<Longrightarrow> advances a c"
  using keeps_advances_trans shrinks_advances by blast

lemma before_write_effect:
  "sc_before_write n env send can_send (st, r) = Some (st', r') \<Longrightarrow>
    advances st st' \<and> ad_duplicate_checker (sc_auth st') = ad_duplicate_checker (sc_auth st)"
proof (induction n arbitrary: st r)
  case (Suc n)
  obtain must st1 where m: "must_flush_packet env (can_send r) st = (must, st1)" by fastforce
  note k = must_flush_packet_effect [OF m]
  show ?case
  proof (cases must)
    case False
    then show ?thesis using Suc.prems m k keeps_advances by (auto simp: keeps_def)
  next
    case True
    obtain st2 r2 where f: "flush_packet env send (st1, r) = Some (st2, r2)" and b: "sc_before_write n env send can_send (st2, r2) = Some (st', r')"
      using Suc.prems m True by (auto split: option.splits)
    have s: "shrinks st1 st2" using flush_packet_shrinks [OF f] k(2) True by (auto simp: salt_due_def)
    have dc: "ad_duplicate_checker (sc_auth st2) = ad_duplicate_checker (sc_auth st)" using k(1) s by (simp add: keeps_def shrinks_def)
    have "advances st st2" by (rule advances_trans2 [OF k(1) s])
    then show ?thesis
      using Suc.IH [OF b] dc unfolding advances_def by (auto intro: prefix_order.trans)
  qed
qed simp

section \<open>The life of a session\<close>

text \<open>One operation of a session; \<open>env\<close> holds the clocks and answers of that moment.\<close>

inductive session_step :: "session_connection \<Rightarrow> session_connection \<Rightarrow> bool" where
  SendQuery: "0 < se_cached env \<Longrightarrow> send_query env buffer gzip message_id invoke_after quick st = Some (i, st') \<Longrightarrow> session_step st st'"
| GetState: "0 < se_cached env \<Longrightarrow> session_step st (get_state_info env m st)"
| Resend: "0 < se_cached env \<Longrightarrow> session_step st (resend_answer env m st)"
| Cancel: "0 < se_cached env \<Longrightarrow> session_step st (cancel_answer env m st)"
| ForceAck: "0 < se_cached env \<Longrightarrow> session_step st (force_ack env st)"
| DestroyKey: "session_step st (destroy_key st)"
| SetOnline: "session_step st (set_online env online main st)"
| Init: "sc_init env st = Some st' \<Longrightarrow> session_step st st'"
| ForceClose: "force_close st = Some st' \<Longrightarrow> session_step st st'"
| RawPacket: "0 < se_cached env \<Longrightarrow> sc_on_raw_packet env n info packet st = Some (e, st') \<Longrightarrow> session_step st st'"
| QuickAck: "session_step st (sc_on_quick_ack token st)"
| Read: "session_step st (sc_on_read env sz st)"
| BeforeWrite: "sc_before_write n env (send :: raw_connection sender) can_send (st, r) = Some (st', r') \<Longrightarrow> session_step st st'"

inductive session_reachable :: "session_connection \<Rightarrow> bool" where
  New: "session_reachable (session_connection_new mode random_delay now raw_rtt (auth_data_init salt))"
| SetSession: "session_reachable st \<Longrightarrow> session_reachable (st\<lparr>sc_auth := (sc_auth st)\<lparr>ad_session_id := i\<rparr>\<rparr>)"
| Step: "session_reachable st \<Longrightarrow> session_step st st' \<Longrightarrow> session_reachable st'"

lemma send_query_advances:
  assumes pos: "0 < se_cached env" and r: "send_query env buffer gzip m ia quick st = Some (i, st')"
  shows "advances st st'"
proof -
  obtain j ad1 where 1: "(if m = 0 then next_id (se_rx env) (se_cached env) (sc_auth st) else (m, sc_auth st)) = (j, ad1)" by fastforce
  obtain q ad2 where 2: "next_seq_no True ad1 = (q, ad2)" by fastforce
  have s1: "ad_same (se_cached env) (sc_auth st) ad1"
    using 1 ad_same_next_id [of "se_cached env" "sc_auth st" "se_rx env" "se_cached env"]
    by (cases "m = 0") (simp_all add: ad_same_refl)
  have s2: "ad_same (se_cached env) ad1 ad2" using ad_same_next_seq_no [of "se_cached env" ad1 True] 2 by simp
  have dc: "ad_duplicate_checker ad2 = ad_duplicate_checker (sc_auth st)" by (rule ad_same_dc [OF ad_same_trans [OF s1 s2]])
  have mode: "sc_mode st \<noteq> ModeHttpLongPoll" using r by (auto simp: send_query_def)
  have p: "0 < se_cached env + QUERY_DELAY" using pos by (simp add: QUERY_DELAY_def)
  let ?st1 = "st\<lparr>sc_auth := ad2\<rparr>"
  let ?st2 = "if sc_to_send ?st1 = [] then send_before (se_cached env + QUERY_DELAY) ?st1 else ?st1"
  obtain x where st': "st' = ?st2\<lparr>sc_to_send := sc_to_send ?st2 @ [x]\<rparr>"
    using r mode 1 2 unfolding send_query_def Let_def by auto
  have "scheduled st \<Longrightarrow> sc_force_send_at ?st2 \<noteq> 0" using p by (simp add: scheduled_def)
  moreover have "sc_force_send_at st' = sc_force_send_at ?st2" by (simp add: st')
  ultimately show ?thesis
    using mode dc by (simp add: advances_def st' scheduled_def)
qed

lemma session_step_advances: "session_step st st' \<Longrightarrow> advances st st'"
proof (induction rule: session_step.induct)
  case (ForceAck env st)
  then show ?case by (auto simp: force_ack_def advances_def scheduled_def nothing_pending_def)
next
  case (SetOnline st env online main)
  show ?case by (rule keeps_advances, rule keeps_simple) (simp_all add: set_online_def Let_def)
next
  case (ForceClose st st')
  then have "st' = do_close OK st" by (simp add: force_close_def split: if_splits)
  then show ?case by (simp add: do_close_def emit_def advances_def scheduled_def nothing_pending_def)
next
  case (Init env st st')
  then show ?case by (auto simp: sc_init_def advances_def scheduled_def nothing_pending_def split: if_splits)
next
  case (DestroyKey st)
  show ?case by (rule keeps_advances, rule keeps_simple) (simp_all add: destroy_key_def)
next
  case (Read st env sz)
  show ?case by (rule keeps_advances, rule keeps_simple) (simp_all add: sc_on_read_def)
next
  case (BeforeWrite n env send can_send st r st' r')
  then show ?case by (rule before_write_effect [THEN conjunct1])
qed (auto intro: send_query_advances raw_packet_advances keeps_advances keeps_get_state_info keeps_resend_answer
    keeps_cancel_answer keeps_emit simp: sc_on_quick_ack_def)

definition session_wf :: "session_connection \<Rightarrow> bool" where
  "session_wf st \<longleftrightarrow> dc_inv 1000 (ad_duplicate_checker (sc_auth st)) \<and> scheduled st \<and>
     (sc_mode st = ModeHttpLongPoll \<longrightarrow> sc_to_send st = [])"

lemma advances_wf: "advances st st' \<Longrightarrow> session_wf st \<Longrightarrow> session_wf st'"
  using dc1000.inv_chk by (auto simp: advances_def session_wf_def)

lemma advances_marked:
  "advances st st' \<Longrightarrow> session_wf st \<Longrightarrow> dc_marked 1000 (ad_duplicate_checker (sc_auth st)) x \<Longrightarrow>
    dc_marked 1000 (ad_duplicate_checker (sc_auth st')) x"
  using dc1000.marked_stays by (auto simp: advances_def session_wf_def)

lemma reachable_wf: "session_reachable st \<Longrightarrow> session_wf st"
proof (induction rule: session_reachable.induct)
  case (New mode random_delay now raw_rtt salt)
  show ?case
    by (simp add: session_wf_def session_connection_new_def auth_data_init_def dc_inv_init scheduled_def nothing_pending_def)
next
  case (SetSession st i)
  then show ?case by (simp add: session_wf_def scheduled_def nothing_pending_def)
next
  case (Step st st')
  then show ?case using advances_wf session_step_advances by blast
qed

lemma steps_marked:
  assumes "session_step\<^sup>*\<^sup>* st st'" and "session_wf st" and "dc_marked 1000 (ad_duplicate_checker (sc_auth st)) x"
  shows "session_wf st' \<and> dc_marked 1000 (ad_duplicate_checker (sc_auth st')) x"
  using assms by (induction rule: rtranclp_induct) (use session_step_advances advances_wf advances_marked in blast)+

lemma accepted_marked:
  assumes pos: "0 < se_cached env" and r: "sc_on_raw_packet env n info packet st = Some (e, st')" and a: "accepts env info st"
    and wf: "session_wf st"
  shows "dc_marked 1000 (ad_duplicate_checker (sc_auth st')) (pi_message_id info)"
proof -
  obtain upd ad where c: "\<not> pi_no_crypto_flag info"
      "check_packet (pi_session_id info) (pi_message_id info) (se_cached env) (sc_auth st) = Some (OK, upd, ad)"
    using a by (auto simp: accepts_def split: option.splits)
  have "dc_inv 1000 (ad_duplicate_checker (sc_auth st))" using wf by (simp add: session_wf_def)
  then show ?thesis
    using raw_packet_effect(2) [OF pos r c] check_packet_frame(3) [OF c(2)] dc1000.accept_marks by auto
qed

lemma marked_ignored:
  assumes pos: "0 < se_cached env" and r: "sc_on_raw_packet env n info packet st = Some (e, st')" and wf: "session_wf st"
    and m: "dc_marked 1000 (ad_duplicate_checker (sc_auth st)) (pi_message_id info)"
  shows "sc_events st' = sc_events st \<or> sc_events st' = sc_events st @ [OnSessionFailed (Err ''Receive too old packet'')]"
proof (cases "pi_no_crypto_flag info")
  case True
  then show ?thesis using raw_packet_plain(2) [OF _ r] by blast
next
  case False
  then obtain status upd ad where
    c: "check_packet (pi_session_id info) (pi_message_id info) (se_cached env) (sc_auth st) = Some (status, upd, ad)"
    using r by (auto simp: sc_on_raw_packet_def Let_def split: option.splits)
  have "status \<noteq> OK \<and> \<not> upd" using check_packet_marked [OF c] m wf by (simp add: session_wf_def)
  then show ?thesis using raw_packet_effect(3) [OF pos r False c] by blast
qed

end
