(* ===== verification/SessionRun.thy ===== *)
theory SessionRun
  imports SessionSteps
begin

text \<open>
  The properties of a session over its life, from the lemmas of the components.
\<close>

section \<open>Acknowledgements\<close>

definition container_body :: "(u64 \<times> u32 \<times> bytes) list \<Rightarrow> bytes" where
  "container_body ms = bytes_of_u32 msg_container_ID @ bytes_of_u32 (of_nat (length ms)) @ concat (map message_bytes ms)"

lemma container_acks:
  assumes pos: "0 < se_cached env" and ms: "\<forall>m\<in>set ms. message_ok m" "length ms < 2 ^ 31" "length (container_body ms) < 2 ^ 32"
    and r: "on_slice_packet env n info (container_body ms) st = Some (OK, st')" and m: "(i, s, body) \<in> set ms" "bit s 0"
  shows "i \<in> set (sc_to_ack st')"
proof (cases n)
  case (Suc k)
  let ?st = "if bit (mi_seq_no info) 0 then send_ack env (mi_message_id info) st else st"
  let ?q = "tl_parser_of (bytes_of_u32 (of_nat (length ms)) @ concat (map message_bytes ms))"
  have c: "on_packet_container (on_slice_packet env k) info (bytes_of_u32 (of_nat (length ms)) @ concat (map message_bytes ms)) ?st =
      Some (OK, st')"
    using r unfolding Suc on_slice_packet.simps Let_def by (simp add: container_body_def u32_of_bytes_of_u32')
  have cq: "clean ?q" by (intro clean_tl_parser_of) (use ms(3) in \<open>simp add: container_body_def size_max_def\<close>)
  have dq: "p_data ?q = bytes_of_u32 (of_nat (length ms)) @ concat (map message_bytes ms)" by (simp add: tl_parser_of_def)
  have fi: "fetch_int ?q = Some (of_nat (length ms), consume 4 ?q)" by (rule fetch_int_clean [OF cq dq])
  have cc: "clean (consume 4 ?q)" using cq dq by (intro clean_consume) simp_all
  have e: "p_error (consume 4 ?q) = []" using cc by (simp add: clean_def)
  obtain q' st2 where p: "parse_packets (on_slice_packet env k) (length ms) (consume 4 ?q)
      (?st\<lparr>sc_container_message_id := mi_message_id info\<rparr>) = Some (OK, q', st2)"
      and st': "st' = st2\<lparr>sc_container_message_id := sc_container_message_id ?st\<rparr>"
    using c fi e sint_of_nat_small [OF ms(2)] by (auto simp: on_packet_container_def Let_def)
  have "i \<in> set (sc_to_ack st2)"
    using parse_packets_acks [OF pos cc _ ms(1) p m] dq by simp
  then show ?thesis by (simp add: st')
qed (use r in simp)

lemma raw_packet_main:
  assumes r: "sc_on_raw_packet env n info packet st = Some (OK, st')" and a: "accepts env info st"
    and packet: "packet = message_bytes (i, s, body)" and b: "length body mod 4 = 0" "length body < 2 ^ 32"
  shows "\<exists>st2 st3. on_slice_packet env n \<lparr>mi_message_id = i, mi_seq_no = s, mi_size = length body\<rparr> body st2 = Some (OK, st3) \<and>
    sc_to_ack st' = sc_to_ack st3"
proof -
  obtain upd ad where c: "\<not> pi_no_crypto_flag info"
      "check_packet (pi_session_id info) (pi_message_id info) (se_cached env) (sc_auth st) = Some (OK, upd, ad)"
    using a by (auto simp: accepts_def split: option.splits)
  let ?st1 = "st\<lparr>sc_main_message_id := pi_message_id info, sc_auth := ad\<rparr>"
  let ?st2 = "if upd then emit (OnServerTimeDifferenceUpdated False) ?st1 else ?st1"
  obtain s3 where m: "on_main_packet env n info packet ?st2 = Some (OK, s3)" "sc_to_ack st' = sc_to_ack s3"
    using r c by (auto simp: sc_on_raw_packet_def Let_def is_error_def split: option.splits)
  have cl: "clean (tl_parser_of packet)"
    by (intro clean_tl_parser_of) (use b(2) in \<open>simp add: packet message_bytes_def size_max_def\<close>)
  have d: "p_data (tl_parser_of packet) = message_bytes (i, s, body) @ []" by (simp add: tl_parser_of_def packet)
  note pm = parse_message_bytes(1) [OF cl d b]
  show ?thesis
    using m c(1) pm unfolding on_main_packet_def Let_def
    by (auto simp: parse_packet_def split: option.splits if_splits) blast+
qed

text \<open>
  C11. When a packet with a container passes the session's checks and is
  processed without an error, every content-related message (odd sequence number) in it, and the
  container itself if it is one, is queued for acknowledgement afterwards.
\<close>

theorem content_messages_acked:
  assumes "0 < se_cached env" and "accepts env info st" and "sc_on_raw_packet env n info packet st = Some (OK, st')"
    and "packet = message_bytes (i, s, container_body ms)" and "\<forall>m\<in>set ms. message_ok m" and "length ms < 2 ^ 31"
    and "length (container_body ms) < 2 ^ 32"
  shows "(bit s 0 \<longrightarrow> i \<in> set (sc_to_ack st')) \<and> (\<forall>(j, q, b)\<in>set ms. bit q 0 \<longrightarrow> j \<in> set (sc_to_ack st'))"
proof -
  have "length (message_bytes m) mod 4 = 0" if "m \<in> set ms" for m
    using assms(5) that by (cases m) (auto simp: message_ok_def message_bytes_def)
  then have "length (concat (map message_bytes ms)) mod 4 = 0" by (induction ms) auto
  then have m4: "length (container_body ms) mod 4 = 0"
    using mod_add_self1 [of 4 "4 + length (concat (map message_bytes ms))"] mod_add_self1 [of 4 "length (concat (map message_bytes ms))"]
    by (simp add: container_body_def)
  obtain st2 st3 where o: "on_slice_packet env n \<lparr>mi_message_id = i, mi_seq_no = s, mi_size = length (container_body ms)\<rparr>
      (container_body ms) st2 = Some (OK, st3)" and a: "sc_to_ack st' = sc_to_ack st3"
    using raw_packet_main [OF assms(3,2,4) m4 assms(7)] by blast
  have "bit s 0 \<Longrightarrow> i \<in> set (sc_to_ack st3)" using on_slice_packet_acks [OF assms(1) o] by simp
  moreover have "(j, q, b) \<in> set ms \<Longrightarrow> bit q 0 \<Longrightarrow> j \<in> set (sc_to_ack st3)" for j q b
    by (rule container_acks [OF assms(1,5,6,7) o])
  ultimately show ?thesis unfolding a by blast
qed

definition ack_env :: session_env where
  "ack_env = sample_env\<lparr>se_fetch := (\<lambda>_ _. Some (Inr (MsgsAck [])))\<rparr>"

definition sample_message :: "u64 \<times> u32 \<times> bytes" where
  "sample_message = (5, 1, bytes_of_u32 7 @ bytes_of_u32 7)"

lemma sample_message_processed: "\<exists>st'. on_slice_packet ack_env (Suc n) info (bytes_of_u32 7 @ bytes_of_u32 7) st = Some (OK, st')"
  by (simp add: ack_env_def on_msgs_ack_def u32_of_bytes_of_u32' msg_container_ID_def rpc_result_ID_def Let_def)

lemma sample_container_processed: "\<exists>st'. on_slice_packet ack_env 2 info (container_body [sample_message]) st = Some (OK, st')"
proof -
  let ?st = "if bit (mi_seq_no info) 0 then send_ack ack_env (mi_message_id info) st else st"
  let ?body = "bytes_of_u32 7 @ bytes_of_u32 7"
  let ?d = "bytes_of_u32 1 @ message_bytes (5, 1, ?body)"
  let ?q = "tl_parser_of ?d"
  have cq: "clean ?q" by (intro clean_tl_parser_of) (simp add: message_bytes_def size_max_def)
  have dq: "p_data ?q = bytes_of_u32 1 @ message_bytes (5, 1, ?body)" by (simp add: tl_parser_of_def)
  have fi: "fetch_int ?q = Some (1, consume 4 ?q)" by (rule fetch_int_clean [OF cq dq])
  have cc: "clean (consume 4 ?q)" using cq dq by (intro clean_consume) simp_all
  have e: "p_error (consume 4 ?q) = []" using cc by (simp add: clean_def)
  have d4: "p_data (consume 4 ?q) = message_bytes (5, 1, ?body) @ []" using dq by simp
  have pm: "parse_message True (consume 4 ?q) = Some (OK, \<lparr>mi_message_id = 5, mi_seq_no = 1, mi_size = length ?body\<rparr>, ?body,
      consume (16 + length ?body) (consume 4 ?q))"
    by (rule parse_message_bytes(1) [OF cc d4]) simp_all
  obtain st1 where "on_slice_packet ack_env (Suc 0) \<lparr>mi_message_id = 5, mi_seq_no = 1, mi_size = length ?body\<rparr> ?body
      (?st\<lparr>sc_container_message_id := mi_message_id info\<rparr>) = Some (OK, st1)"
    using sample_message_processed [of 0] by blast
  then have "parse_packets (on_slice_packet ack_env (Suc 0)) 1 (consume 4 ?q) (?st\<lparr>sc_container_message_id := mi_message_id info\<rparr>) =
      Some (OK, consume (16 + length ?body) (consume 4 ?q), st1)"
    using pm unfolding One_nat_def parse_packets.simps parse_packet_def by simp
  then have "\<exists>st'. on_packet_container (on_slice_packet ack_env (Suc 0)) info ?d ?st = Some (OK, st')"
    using fi e unfolding on_packet_container_def Let_def by simp
  moreover have "container_body [sample_message] = bytes_of_u32 msg_container_ID @ ?d" by (simp add: container_body_def sample_message_def)
  ultimately show ?thesis
    unfolding numeral_2_eq_2 on_slice_packet.simps(2) Let_def by (simp add: u32_of_bytes_of_u32')
qed

lemmas check_eval = check_packet_def get_session_id_def dc_check_def check_message_id_duplicates_def
  duplicate_checker_init_def update_server_time_difference_def is_valid_inbound_msg_id_def get_server_time_def id_time_def
  is_error_def Let_def lower_bound_def

definition sample_info :: packet_info where
  "sample_info = packet_info_init\<lparr>pi_no_crypto_flag := False, pi_session_id := 9, pi_message_id := 1\<rparr>"

definition fresh_session :: session_connection where
  "fresh_session = (session_connection_new ModeTcp 0 0 1 (auth_data_init 5))\<lparr>sc_auth := (auth_data_init 5)\<lparr>ad_session_id := 9\<rparr>\<rparr>"

lemma fresh_session_reachable: "session_reachable fresh_session"
  using SetSession [OF New [of ModeTcp 0 0 1 5], of 9] by (simp add: fresh_session_def session_connection_new_def)

lemma fresh_session_accepts: "accepts sample_env sample_info fresh_session"
  by (simp add: accepts_def sample_info_def fresh_session_def check_eval auth_data_init_def packet_info_init_def sample_env_def)

theorem content_messages_acked_witness:
  "\<exists>st'. sc_on_raw_packet ack_env 2 sample_info (message_bytes (3, 3, container_body [sample_message])) fresh_session = Some (OK, st') \<and>
    3 \<in> set (sc_to_ack st') \<and> 5 \<in> set (sc_to_ack st')"
proof -
  let ?body = "container_body [sample_message]" and ?p = "message_bytes (3, 3, container_body [sample_message])"
  have len: "length ?body = 32" by (simp add: container_body_def sample_message_def message_bytes_def)
  have cl: "clean (tl_parser_of ?p)" by (intro clean_tl_parser_of) (simp add: length_message_bytes len size_max_def)
  have d: "p_data (tl_parser_of ?p) = ?p @ []" by (simp add: tl_parser_of_def)
  note pm = parse_message_bytes [OF cl d]
  have fe: "fetch_end (consume (16 + length ?body) (tl_parser_of ?p)) = Some ((), consume (16 + length ?body) (tl_parser_of ?p))"
    using clean_len [OF pm(2)] pm(3) len by (simp add: fetch_end_def fret_def)
  have er: "p_error (consume (16 + length ?body) (tl_parser_of ?p)) = []" using pm(2) len by (simp add: clean_def)
  obtain upd ad where c: "\<not> pi_no_crypto_flag sample_info" "check_packet (pi_session_id sample_info) (pi_message_id sample_info)
      (se_cached ack_env) (sc_auth fresh_session) = Some (OK, upd, ad)"
    using fresh_session_accepts by (auto simp: accepts_def ack_env_def split: option.splits)
  have acc: "accepts ack_env sample_info fresh_session" using c by (simp add: accepts_def)
  have main: "\<exists>s. on_main_packet ack_env 2 sample_info ?p st = Some (OK, s)" for st
  proof -
    let ?st = "if \<not> sc_connected_flag (st\<lparr>sc_last_pong_at := se_cached ack_env, sc_real_last_pong_at := se_cached ack_env\<rparr>)
      then emit OnConnected (st\<lparr>sc_last_pong_at := se_cached ack_env, sc_real_last_pong_at := se_cached ack_env\<rparr>\<lparr>sc_connected_flag := True\<rparr>)
      else st\<lparr>sc_last_pong_at := se_cached ack_env, sc_real_last_pong_at := se_cached ack_env\<rparr>"
    obtain s1 where "on_slice_packet ack_env 2 \<lparr>mi_message_id = 3, mi_seq_no = 3, mi_size = length ?body\<rparr> ?body ?st = Some (OK, s1)"
      using sample_container_processed by blast
    then have "parse_packet (on_slice_packet ack_env 2) (tl_parser_of ?p) ?st =
        Some (OK, consume (16 + length ?body) (tl_parser_of ?p), s1)"
      using pm(1) len by (simp add: parse_packet_def)
    then show ?thesis using c(1) fe er unfolding on_main_packet_def Let_def by simp
  qed
  then obtain st' where r: "sc_on_raw_packet ack_env 2 sample_info ?p fresh_session = Some (OK, st')"
    using c unfolding sc_on_raw_packet_def Let_def by (fastforce simp: is_error_def)
  have pos: "0 < se_cached ack_env" by (simp add: ack_env_def sample_env_def)
  have "bit (3 :: u32) 0" "bit (1 :: u32) 0" by simp_all
  then show ?thesis
    using content_messages_acked [OF pos acc r refl] r len
    by (auto simp: sample_message_def message_ok_def)
qed

section \<open>Returning\<close>

lemma check_packet_session_id:
  "check_packet sid m now ad = Some (s, u, ad') \<Longrightarrow> ad_session_id ad' = ad_session_id ad"
  by (auto simp: check_packet_def update_server_time_difference_def Let_def split: option.splits if_splits prod.splits)

lemma check_packet_returns: "ad_session_id ad \<noteq> 0 \<Longrightarrow> \<exists>s u ad'. check_packet sid m now ad = Some (s, u, ad')"
  by (auto simp: check_packet_def get_session_id_def Let_def split: prod.split)

lemma raw_packet_total:
  assumes "no_gzip env" and "ad_session_id (sc_auth st) \<noteq> 0" and "length packet < n" and "length packet < size_max"
  shows "\<exists>e st'. sc_on_raw_packet env n info packet st = Some (e, st')"
proof -
  obtain s u ad where c: "check_packet (pi_session_id info) (pi_message_id info) (se_cached env) (sc_auth st) = Some (s, u, ad)"
    using check_packet_returns [OF assms(2)] by blast
  have h: "handler_total (on_slice_packet env n) (p_left_len (tl_parser_of packet))"
    using on_slice_packet_returns [OF assms(1)] assms(3,4) by (auto simp: handler_total_def tl_parser_of_def)
  have "\<exists>e' s'. on_main_packet env n info packet st2 = Some (e', s')" for st2
  proof -
    let ?st = "if \<not> sc_connected_flag (st2\<lparr>sc_last_pong_at := se_cached env, sc_real_last_pong_at := se_cached env\<rparr>)
      then emit OnConnected (st2\<lparr>sc_last_pong_at := se_cached env, sc_real_last_pong_at := se_cached env\<rparr>\<lparr>sc_connected_flag := True\<rparr>)
      else st2\<lparr>sc_last_pong_at := se_cached env, sc_real_last_pong_at := se_cached env\<rparr>"
    obtain e1 p1 s1 where p: "parse_packet (on_slice_packet env n) (tl_parser_of packet) ?st = Some (e1, p1, s1)" "wf_parser p1"
      using parse_packet_returns [OF wf_tl_parser_of [OF assms(4)] h] by blast
    obtain x p2 where "fetch_end p1 = Some (x, p2)" using safe_fetch_end p(2) unfolding safe_fetch_def by blast
    then show ?thesis using p(1) unfolding on_main_packet_def Let_def by (auto split: if_split)
  qed
  then obtain f where "\<And>st2. \<exists>s'. on_main_packet env n info packet st2 = Some (f st2, s')" by metis
  then show ?thesis using c unfolding sc_on_raw_packet_def Let_def by (fastforce split: if_split)
qed




section \<open>The life of a session\<close>





end
