(* ===== verification/BigNum.thy ===== *)
theory BigNum
  imports Crypto
begin

text \<open>
  \<open>tdutils/td/utils/BigNum.cpp\<close>: wrappers around the big numbers of OpenSSL.  A \<open>BIGNUM\<close> that
  the sources hold is never negative and is a natural number here.  OpenSSL is a parameter, the record
  \<open>bn_lib\<close>; a call that OpenSSL reports as failed ends in \<open>LOG_IF(FATAL)\<close> and is \<open>None\<close>.
\<close>

section \<open>The library\<close>

record bn_lib =
  bn_bin2bn :: "bytes \<Rightarrow> nat"
  bn_bn2bin :: "nat \<Rightarrow> bytes"
  bn_num_bits :: "nat \<Rightarrow> nat"
  bn_check_prime :: "nat \<Rightarrow> bool"
  bn_mod_word :: "nat \<Rightarrow> nat \<Rightarrow> nat"
  bn_mod_mul :: "nat \<Rightarrow> nat \<Rightarrow> nat \<Rightarrow> nat option"
  bn_mod_exp :: "nat \<Rightarrow> nat \<Rightarrow> nat \<Rightarrow> nat option"
  bn_gcd :: "nat \<Rightarrow> nat \<Rightarrow> nat option"
  bn_div :: "nat \<Rightarrow> nat \<Rightarrow> nat option"

text \<open>The big-endian value of a byte string, and the shortest string with a given value.\<close>

definition of_be :: "bytes \<Rightarrow> nat" where
  "of_be bs = of_le (rev bs)"

text \<open>
  What the sources rely on: conversions to and from big-endian strings, and modular arithmetic, which
  fails for the modulus zero.  Nothing is assumed of the primality test.
\<close>

definition bn_laws :: "bn_lib \<Rightarrow> bool" where
  "bn_laws N \<longleftrightarrow>
     (\<forall>bs. bn_bin2bn N bs = of_be bs) \<and>
     (\<forall>n. of_be (bn_bn2bin N n) = n \<and> length (bn_bn2bin N n) = (bn_num_bits N n + 7) div 8) \<and>
     (\<forall>n k. bn_num_bits N n \<le> k \<longleftrightarrow> n < 2 ^ k) \<and>
     (\<forall>n w. 0 < w \<longrightarrow> bn_mod_word N n w = n mod w) \<and>
     (\<forall>a b m. bn_mod_mul N a b m = (if m = 0 then None else Some (a * b mod m))) \<and>
     (\<forall>a p m. bn_mod_exp N a p m = (if m = 0 then None else Some (a ^ p mod m))) \<and>
     (\<forall>a b. bn_gcd N a b = Some (gcd a b)) \<and>
     (\<forall>a b. bn_div N a b = (if b = 0 then None else Some (a div b)))"

section \<open>Operations\<close>

definition get_num_bytes :: "bn_lib \<Rightarrow> nat \<Rightarrow> nat" where
  "get_num_bytes N n = (bn_num_bits N n + 7) div 8"

text \<open>\<open>to_binary()\<close> and \<open>to_binary(exact_size)\<close>.\<close>

definition to_binary :: "bn_lib \<Rightarrow> nat \<Rightarrow> bytes" where
  "to_binary N n = bn_bn2bin N n"

definition to_binary_exact :: "bn_lib \<Rightarrow> nat \<Rightarrow> nat \<Rightarrow> bytes option" where
  "to_binary_exact N exact_size n =
     (let num_size = get_num_bytes N n
      in if exact_size < num_size then None else Some (replicate (exact_size - num_size) 0 @ bn_bn2bin N n))"

section \<open>An instance\<close>

function num_bits :: "nat \<Rightarrow> nat" where
  "num_bits n = (if n = 0 then 0 else Suc (num_bits (n div 2)))"
  by pat_completeness auto

termination by (relation "measure id") auto

declare num_bits.simps [simp del]

definition nat_bn :: bn_lib where
  "nat_bn = \<lparr>bn_bin2bn = of_be, bn_bn2bin = (\<lambda>n. rev (le_bytes ((num_bits n + 7) div 8) n)), bn_num_bits = num_bits,
     bn_check_prime = (\<lambda>n. 1 < n \<and> (\<forall>d\<in>{2..<n}. \<not> d dvd n)), bn_mod_word = (mod),
     bn_mod_mul = (\<lambda>a b m. if m = 0 then None else Some (a * b mod m)),
     bn_mod_exp = (\<lambda>a p m. if m = 0 then None else Some (a ^ p mod m)),
     bn_gcd = (\<lambda>a b. Some (gcd a b)), bn_div = (\<lambda>a b. if b = 0 then None else Some (a div b))\<rparr>"

section \<open>Lemmas\<close>

lemma num_bits_le: "num_bits n \<le> k \<longleftrightarrow> n < 2 ^ k"
proof (induction n arbitrary: k rule: num_bits.induct)
  case (1 n)
  show ?case
  proof (cases "n = 0")
    case False
    then have s: "num_bits n = Suc (num_bits (n div 2))" using num_bits.simps [of n] by simp
    show ?thesis
    proof (cases k)
      case (Suc j)
      have "n div 2 < 2 ^ j \<longleftrightarrow> n < 2 * 2 ^ j" by linarith
      then show ?thesis using 1 [OF False, of j] unfolding s Suc by simp
    qed (use s False in simp)
  qed (simp add: num_bits.simps [of 0])
qed

lemma nat_bn_laws: "bn_laws nat_bn"
proof -
  have "n < 256 ^ ((num_bits n + 7) div 8)" for n
  proof -
    have "num_bits n \<le> 8 * ((num_bits n + 7) div 8)" by linarith
    then have "n < 2 ^ (8 * ((num_bits n + 7) div 8))" using num_bits_le by blast
    then show ?thesis by (simp add: power_mult)
  qed
  then show ?thesis by (simp add: bn_laws_def nat_bn_def of_be_def of_le_le_bytes num_bits_le)
qed

lemma of_be_zeros [simp]: "of_be (replicate k 0 @ bs) = of_be bs"
proof -
  have "of_le (xs @ replicate k 0) = of_le xs" for xs k
    by (induction xs) (auto, induction k, auto)
  then show ?thesis by (simp add: of_be_def)
qed

lemma of_be_bound: "of_be bs < 256 ^ length bs"
  using of_le_bound [of "rev bs"] by (simp add: of_be_def)

lemma to_binary_roundtrip: "bn_laws N \<Longrightarrow> bn_bin2bn N (to_binary N n) = n"
  by (simp add: bn_laws_def to_binary_def)

lemma to_binary_exact_returns:
  assumes N: "bn_laws N" and n: "n < 256 ^ k"
  shows "\<exists>bs. to_binary_exact N k n = Some bs \<and> length bs = k \<and> of_be bs = n"
proof -
  have "bn_num_bits N n \<le> 8 * k" using N n by (simp add: bn_laws_def power_mult)
  then have "get_num_bytes N n \<le> k" by (simp add: get_num_bytes_def)
  then show ?thesis
    using N by (simp add: to_binary_exact_def Let_def bn_laws_def get_num_bytes_def)
qed

lemma of_be_inject:
  assumes "length a = length b" and "of_be a = of_be b"
  shows "a = b"
proof -
  have "length xs = length ys \<Longrightarrow> of_le xs = of_le ys \<Longrightarrow> xs = ys" for xs ys
  proof (induction xs arbitrary: ys)
    case (Cons x xs)
    then obtain y ys' where ys: "ys = y # ys'" by (cases ys) auto
    have e: "unat x + 256 * of_le xs = unat y + 256 * of_le ys'" using Cons.prems ys by simp
    have "unat x < 256" "unat y < 256" using unsigned_less [of x] unsigned_less [of y] by simp_all
    then have u: "unat x = unat y" using arg_cong [OF e, of "\<lambda>n. n mod 256"] by simp
    then have "of_le xs = of_le ys'" using e by simp
    then show ?case using u Cons ys word_unat_eq_iff [of x y] by simp
  qed simp
  from this [of "rev a" "rev b"] show ?thesis using assms by (simp add: of_be_def)
qed

end
