(* ===== verification/Dh.thy ===== *)
theory Dh
  imports BigNum TlCore
begin

text \<open>
  \<open>td/mtproto/DhHandshake.h\<close> and \<open>.cpp\<close>: the Diffie-Hellman exchange and its checks.  The random
  exponent is an argument; \<open>None\<close> is a failing \<open>CHECK\<close> or a fatal error of the big numbers.
\<close>

section \<open>State\<close>

text \<open>The callback may know whether a prime is good (\<open>-1\<close>: it does not) and is told the outcome of a check.\<close>

datatype dh_event = AddGoodPrime bytes | AddBadPrime bytes

type_synonym dh_callback = "(bytes \<Rightarrow> int) option"

record dh_handshake =
  dh_prime_str :: bytes
  dh_prime :: nat
  dh_g :: nat
  dh_g_int :: u32
  dh_b :: nat
  dh_g_b :: nat
  dh_g_a :: nat
  dh_g_a_hash :: bytes
  dh_has_g_a_hash :: bool
  dh_ok_g_a_hash :: bool
  dh_has_config :: bool
  dh_has_g_a :: bool

definition dh_handshake_init :: dh_handshake where
  "dh_handshake_init = \<lparr>dh_prime_str = [], dh_prime = 0, dh_g = 0, dh_g_int = 0, dh_b = 0, dh_g_b = 0, dh_g_a = 0, dh_g_a_hash = [],
     dh_has_g_a_hash = False, dh_ok_g_a_hash = False, dh_has_config = False, dh_has_g_a = False\<rparr>"

section \<open>Checks\<close>

definition dh_mod_ok :: "bn_lib \<Rightarrow> nat \<Rightarrow> int \<Rightarrow> bool" where
  "dh_mod_ok N prime g_int =
     (if g_int = 2 then bn_mod_word N prime 8 = 7
      else if g_int = 3 then bn_mod_word N prime 3 = 2
      else if g_int = 4 then True
      else if g_int = 5 then bn_mod_word N prime 5 = 1 \<or> bn_mod_word N prime 5 = 4
      else if g_int = 6 then bn_mod_word N prime 24 = 19 \<or> bn_mod_word N prime 24 = 23
      else if g_int = 7 then bn_mod_word N prime 7 = 3 \<or> bn_mod_word N prime 7 = 5 \<or> bn_mod_word N prime 7 = 6
      else False)"

definition add_prime :: "dh_callback \<Rightarrow> dh_event \<Rightarrow> dh_event list" where
  "add_prime cb e = (if cb = None then [] else [e])"

definition dh_check_config :: "bn_lib \<Rightarrow> dh_callback \<Rightarrow> bytes \<Rightarrow> nat \<Rightarrow> u32 \<Rightarrow> status \<times> dh_event list" where
  "dh_check_config N cb prime_str prime g_int =
     (if bn_num_bits N prime \<noteq> 2048 then (Err ''p is not 2048-bit number'', [])
      else if \<not> dh_mod_ok N prime (sint g_int) then (Err ''Bad prime mod 4g'', [])
      else (let is_good_prime = (case cb of None \<Rightarrow> - 1 | Some f \<Rightarrow> f prime_str)
            in if is_good_prime \<noteq> - 1
               then (if is_good_prime \<noteq> 0 then (OK, []) else (Err ''p or (p - 1) / 2 is not a prime number'', []))
               else if \<not> bn_check_prime N prime
               then (Err ''p is not a prime number'', add_prime cb (AddBadPrime prime_str))
               else if \<not> bn_check_prime N ((prime - 1) div 2)
               then (Err ''(p - 1) / 2 is not a prime number'', add_prime cb (AddBadPrime prime_str))
               else (OK, add_prime cb (AddGoodPrime prime_str))))"

definition dh_check :: "bn_lib \<Rightarrow> nat \<Rightarrow> nat \<Rightarrow> nat \<Rightarrow> status option" where
  "dh_check N prime g_a g_b =
     (if bn_num_bits N prime \<noteq> 2048 then None
      else (let left = 2 ^ (2048 - 64);
                right = prime - left
            in if left > g_a \<or> g_a > right \<or> left > g_b \<or> g_b > right
               then Some (Err ''g^a or g^b is not between 2^{2048-64} and dh_prime - 2^{2048-64}'') else Some OK))"

section \<open>Operations\<close>

definition dh_set_config :: "bn_lib \<Rightarrow> nat \<Rightarrow> u32 \<Rightarrow> bytes \<Rightarrow> dh_handshake \<Rightarrow> dh_handshake option" where
  "dh_set_config N b g_int prime_str h =
     (let prime = bn_bin2bn N prime_str; g = unat g_int
      in map_option (\<lambda>g_b. h\<lparr>dh_has_config := True, dh_prime := prime, dh_prime_str := prime_str, dh_b := b,
                             dh_g_int := g_int, dh_g := g, dh_g_b := g_b\<rparr>) (bn_mod_exp N g b prime))"

definition dh_check_config_static :: "bn_lib \<Rightarrow> dh_callback \<Rightarrow> u32 \<Rightarrow> bytes \<Rightarrow> status \<times> dh_event list" where
  "dh_check_config_static N cb g_int prime_str = dh_check_config N cb prime_str (bn_bin2bn N prime_str) g_int"

definition dh_set_g_a_hash :: "bytes \<Rightarrow> dh_handshake \<Rightarrow> dh_handshake option" where
  "dh_set_g_a_hash g_a_hash h =
     (if dh_has_g_a h then None
      else Some (h\<lparr>dh_has_g_a_hash := True, dh_ok_g_a_hash := False, dh_g_a_hash := g_a_hash\<rparr>))"

definition dh_set_g_a :: "crypto_lib \<Rightarrow> bn_lib \<Rightarrow> bytes \<Rightarrow> dh_handshake \<Rightarrow> dh_handshake" where
  "dh_set_g_a L N g_a_str h =
     h\<lparr>dh_has_g_a := True, dh_g_a := bn_bin2bn N g_a_str,
       dh_ok_g_a_hash := (if dh_has_g_a_hash h then lib_sha256 L g_a_str = dh_g_a_hash h else dh_ok_g_a_hash h)\<rparr>"

definition dh_get_g_a :: "bn_lib \<Rightarrow> dh_handshake \<Rightarrow> bytes option" where
  "dh_get_g_a N h = (if dh_has_g_a h then Some (to_binary N (dh_g_a h)) else None)"

definition dh_get_g_b :: "bn_lib \<Rightarrow> dh_handshake \<Rightarrow> bytes option" where
  "dh_get_g_b N h = (if dh_has_config h then Some (to_binary N (dh_g_b h)) else None)"

definition dh_get_g_b_hash :: "crypto_lib \<Rightarrow> bn_lib \<Rightarrow> dh_handshake \<Rightarrow> bytes option" where
  "dh_get_g_b_hash L N h = map_option (lib_sha256 L) (dh_get_g_b N h)"

definition dh_run_checks :: "bn_lib \<Rightarrow> bool \<Rightarrow> dh_callback \<Rightarrow> dh_handshake \<Rightarrow> (status \<times> dh_event list) option" where
  "dh_run_checks N skip_config_check cb h =
     (if \<not> (dh_has_g_a h \<and> dh_has_config h) then None
      else if dh_has_g_a_hash h \<and> \<not> dh_ok_g_a_hash h then Some (Err ''g_a_hash mismatch'', [])
      else (let (st, evs) = (if skip_config_check then (OK, []) else dh_check_config N cb (dh_prime_str h) (dh_prime h) (dh_g_int h))
            in if st \<noteq> OK then Some (st, evs)
               else map_option (\<lambda>s. (s, evs)) (dh_check N (dh_prime h) (dh_g_a h) (dh_g_b h))))"

definition dh_get_g :: "dh_handshake \<Rightarrow> nat option" where
  "dh_get_g h = (if dh_has_config h then Some (dh_g h) else None)"

definition dh_get_p :: "dh_handshake \<Rightarrow> nat option" where
  "dh_get_p h = (if dh_has_config h then Some (dh_prime h) else None)"

definition dh_get_b :: "dh_handshake \<Rightarrow> nat option" where
  "dh_get_b h = (if dh_has_config h then Some (dh_b h) else None)"

definition dh_get_g_ab :: "bn_lib \<Rightarrow> dh_handshake \<Rightarrow> nat option" where
  "dh_get_g_ab N h = (if dh_has_g_a h \<and> dh_has_config h then bn_mod_exp N (dh_g_a h) (dh_b h) (dh_prime h) else None)"

definition dh_calc_key_id :: "crypto_lib \<Rightarrow> bytes \<Rightarrow> u64" where
  "dh_calc_key_id L auth_key = u64_of_bytes (take 8 (drop 12 (lib_sha1 L auth_key)))"

definition dh_gen_key :: "crypto_lib \<Rightarrow> bn_lib \<Rightarrow> dh_handshake \<Rightarrow> (u64 \<times> bytes) option" where
  "dh_gen_key L N h =
     (case dh_get_g_ab N h of None \<Rightarrow> None
      | Some g_ab \<Rightarrow> map_option (\<lambda>key. (dh_calc_key_id L key, key)) (to_binary_exact N (2048 div 8) g_ab))"

section \<open>Storing\<close>

definition HasConfig :: u32 where "HasConfig = 1"
definition HasGA :: u32 where "HasGA = 2"

definition dh_store :: "bn_lib \<Rightarrow> dh_handshake \<Rightarrow> store_call list" where
  "dh_store N h =
     [StoreBinary (bytes_of_u32 ((if dh_has_config h then HasConfig else 0) OR (if dh_has_g_a h then HasGA else 0)))]
     @ (if dh_has_config h
        then [StoreString (dh_prime_str h), StoreString (to_binary N (dh_b h)), StoreBinary (bytes_of_u32 (dh_g_int h)),
              StoreString (to_binary N (dh_g_b h))]
        else [])
     @ (if dh_has_g_a h then [StoreString (to_binary N (dh_g_a h))] else [])"

definition dh_parse_config :: "bn_lib \<Rightarrow> dh_handshake \<Rightarrow> dh_handshake fetch" where
  "dh_parse_config N h =
     fbind fetch_string (\<lambda>prime_str. fbind fetch_string (\<lambda>b. fbind fetch_int (\<lambda>g_int. fbind fetch_string (\<lambda>g_b.
       fret (h\<lparr>dh_prime_str := prime_str, dh_prime := bn_bin2bn N prime_str, dh_b := bn_bin2bn N b, dh_g_int := g_int,
               dh_g := unat g_int, dh_g_b := bn_bin2bn N g_b\<rparr>)))))"

definition dh_parse :: "bn_lib \<Rightarrow> dh_handshake \<Rightarrow> dh_handshake fetch" where
  "dh_parse N h0 =
     fbind fetch_int (\<lambda>flags.
       (let h1 = (if flags AND HasConfig \<noteq> 0 then h0\<lparr>dh_has_config := True\<rparr> else h0);
            h2 = (if flags AND HasGA \<noteq> 0 then h1\<lparr>dh_has_g_a := True\<rparr> else h1)
        in fbind (if dh_has_config h2 then dh_parse_config N h2 else fret h2) (\<lambda>h3.
           if dh_has_g_a h3 then fbind fetch_string (\<lambda>g_a. fret (h3\<lparr>dh_g_a := bn_bin2bn N g_a\<rparr>)) else fret h3)))"

end
