(* ===== verification/Factor.thy ===== *)
theory Factor
  imports BigNum
begin

text \<open>
  \<open>pq_factorize\<close> of \<open>tdutils/td/utils/crypto.cpp\<close>: Pollard's rho method, on 64-bit words for
  numbers below \<open>2 ^ 63\<close> and on big numbers above.  Random numbers are arguments: \<open>rnd i\<close> holds
  the two drawn in round \<open>i\<close>.
\<close>

section \<open>64-bit numbers\<close>

text \<open>\<open>while ((a & 1) == 0) a >>= 1\<close>; it never ends for \<open>0\<close>.\<close>

function odd_part :: "u64 \<Rightarrow> u64 option" where
  "odd_part a = (if a = 0 then None else if a AND 1 = 0 then odd_part (drop_bit 1 a) else Some a)"
  by pat_completeness auto

lemma unat_half: "unat (drop_bit (Suc 0) a) = unat (a :: u64) div 2"
  by (simp add: drop_bit_eq_div unat_div_distrib)

termination odd_part
proof (relation "measure unat")
  fix a :: u64
  assume "a \<noteq> 0"
  then show "(drop_bit 1 a, a) \<in> measure unat" using unat_gt_0 [of a] by (simp add: unat_half)
qed simp

declare odd_part.simps [simp del]

lemma odd_part_le: "odd_part a = Some b \<Longrightarrow> unat b \<le> unat a"
proof (induction a rule: odd_part.induct)
  case (1 a)
  then show ?case using odd_part.simps [of a] by (auto simp: unat_half split: if_splits)
qed

function pq_gcd_loop :: "u64 \<Rightarrow> u64 \<Rightarrow> u64 option" where
  "pq_gcd_loop a b =
     (if a > b then (case odd_part (drop_bit 1 (a - b)) of None \<Rightarrow> None | Some a' \<Rightarrow> pq_gcd_loop a' b)
      else if b > a then (case odd_part (drop_bit 1 (b - a)) of None \<Rightarrow> None | Some b' \<Rightarrow> pq_gcd_loop a b')
      else Some a)"
  by pat_completeness auto

lemma unat_half_diff: "b < (a :: u64) \<Longrightarrow> unat (drop_bit 1 (a - b)) = (unat a - unat b) div 2"
  using unat_sub [of b a] by (simp add: unat_half order_less_imp_le)

termination pq_gcd_loop
proof (relation "measure (\<lambda>(a, b). unat a + unat b)")
  fix a b a' :: u64
  assume l: "a > b" and o: "odd_part (drop_bit 1 (a - b)) = Some a'"
  have "unat a' \<le> (unat a - unat b) div 2" using odd_part_le [OF o] unat_half_diff [OF l] by simp
  moreover have "unat b < unat a" using l by (simp add: word_less_nat_alt)
  ultimately show "((a', b), (a, b)) \<in> measure (\<lambda>(a, b). unat a + unat b)" by simp
next
  fix a b b' :: u64
  assume l: "b > a" and o: "odd_part (drop_bit 1 (b - a)) = Some b'"
  have "unat b' \<le> (unat b - unat a) div 2" using odd_part_le [OF o] unat_half_diff [OF l] by simp
  moreover have "unat a < unat b" using l by (simp add: word_less_nat_alt)
  ultimately show "((a, b'), (a, b)) \<in> measure (\<lambda>(a, b). unat a + unat b)" by simp
qed simp

declare pq_gcd_loop.simps [simp del]

definition pq_gcd :: "u64 \<Rightarrow> u64 \<Rightarrow> u64 option" where
  "pq_gcd a b = (if a = 0 then Some b else (case odd_part a of None \<Rightarrow> None | Some a' \<Rightarrow> pq_gcd_loop a' b))"

function pq_add_mul :: "u64 \<Rightarrow> u64 \<Rightarrow> u64 \<Rightarrow> u64 \<Rightarrow> u64" where
  "pq_add_mul c a b pq =
     (if b = 0 then c
      else (let c1 = (if b AND 1 \<noteq> 0 then (let c' = c + a in if c' \<ge> pq then c' - pq else c') else c);
                a1 = (let a' = a + a in if a' \<ge> pq then a' - pq else a')
            in pq_add_mul c1 a1 (drop_bit 1 b) pq))"
  by pat_completeness auto

termination pq_add_mul
proof (relation "measure (\<lambda>(c, a, b, pq). unat b)")
  fix c a b pq c1 a1 :: u64
  assume "b \<noteq> 0"
  then show "((c1, a1, drop_bit 1 b, pq), (c, a, b, pq)) \<in> measure (\<lambda>(c, a, b, pq). unat b)"
    using unat_gt_0 [of b] by (simp add: unat_half)
qed simp

declare pq_add_mul.simps [simp del]

text \<open>The inner loop from \<open>j\<close> on, with \<open>n = lim - j\<close> rounds left.\<close>

fun pq_rounds :: "nat \<Rightarrow> u64 \<Rightarrow> u64 \<Rightarrow> u64 \<Rightarrow> u64 \<Rightarrow> nat \<Rightarrow> nat \<Rightarrow> u64 \<Rightarrow> (u64 \<times> nat) option" where
  "pq_rounds 0 q pq x y j iter g = Some (g, iter)"
| "pq_rounds (Suc n) q pq x y j iter g =
     (let x' = pq_add_mul q x x pq;
          z = (if x' < y then pq + x' - y else x' - y)
      in case pq_gcd z pq of
           None \<Rightarrow> None
         | Some g' \<Rightarrow>
           if g' \<noteq> 1 then Some (g', iter + 1)
           else pq_rounds n q pq x' (if j AND (j - 1) = 0 then x' else y) (j + 1) (iter + 1) g')"

definition pq_limit :: "nat \<Rightarrow> nat" where
  "pq_limit i = 2 ^ (min 5 i + 18)"

lemma pq_rounds_iter: "pq_rounds n q pq x y j iter g = Some (g', iter') \<Longrightarrow> 0 < n \<Longrightarrow> iter < iter'"
proof -
  have "pq_rounds n q pq x y j iter g = Some (g', iter') \<Longrightarrow> iter \<le> iter' \<and> (0 < n \<longrightarrow> iter < iter')"
    by (induction n arbitrary: x y j iter g) (fastforce simp: Let_def split: option.splits if_splits)+
  then show "pq_rounds n q pq x y j iter g = Some (g', iter') \<Longrightarrow> 0 < n \<Longrightarrow> iter < iter'" by blast
qed

function pq_search :: "(nat \<Rightarrow> u64 \<times> u64) \<Rightarrow> u64 \<Rightarrow> nat \<Rightarrow> nat \<Rightarrow> u64 \<Rightarrow> u64 option" where
  "pq_search rnd pq i iter g =
     (if i < 3 \<or> iter < 1000
      then (let q = fst (rnd i) mod (pq - 1);
                x = snd (rnd i) mod (pq - 1) + 1
            in case pq_rounds (pq_limit i - 1) q pq x x 1 iter g of
                 None \<Rightarrow> None
               | Some (g', iter') \<Rightarrow> if g' > 1 \<and> g' < pq then Some g' else pq_search rnd pq (i + 1) iter' g')
      else Some g)"
  by pat_completeness auto

termination pq_search
proof (relation "measure (\<lambda>(rnd, pq, i, iter, g). (3 - i) + (1000 - iter))")
  fix rnd :: "nat \<Rightarrow> u64 \<times> u64" and pq g q x g' :: u64 and i iter iter' p
  assume c: "i < 3 \<or> iter < 1000" and r: "pq_rounds (pq_limit i - 1) q pq x x 1 iter g = Some p" "(g', iter') = p"
  have "(2::nat) ^ 1 < 2 ^ (min 5 i + 18)" by (rule power_strict_increasing) simp_all
  then have "0 < pq_limit i - 1" by (simp add: pq_limit_def)
  then have "iter < iter'" using pq_rounds_iter r by blast
  then show "((rnd, pq, i + 1, iter', g'), (rnd, pq, i, iter, g)) \<in> measure (\<lambda>(rnd, pq, i, iter, g). (3 - i) + (1000 - iter))"
    using c by auto
qed simp

declare pq_search.simps [simp del]

definition pq_factorize :: "(nat \<Rightarrow> u64 \<times> u64) \<Rightarrow> u64 \<Rightarrow> u64 option" where
  "pq_factorize rnd pq =
     (if pq \<le> 2 \<or> pq > push_bit 63 1 then Some 1
      else if pq AND 1 = 0 then Some 2
      else (case pq_search rnd pq 0 0 0 of
              None \<Rightarrow> None
            | Some g \<Rightarrow> if g \<noteq> 0 then (let other = pq div g in Some (if other < g then other else g)) else Some g))"

section \<open>Big numbers\<close>

text \<open>The inner loop; the result holds the divisor that was found, if any.\<close>

fun pq_rounds_big ::
  "bn_lib \<Rightarrow> nat \<Rightarrow> nat \<Rightarrow> nat \<Rightarrow> nat \<Rightarrow> nat \<Rightarrow> nat \<Rightarrow> nat \<Rightarrow> (nat option \<times> nat) option" where
  "pq_rounds_big N 0 t pq a b j iter = Some (None, iter)"
| "pq_rounds_big N (Suc n) t pq a b j iter =
     (case bn_mod_mul N a a pq of None \<Rightarrow> None
      | Some a1 \<Rightarrow>
        (let a2 = a1 + t;
             a3 = (if a2 \<ge> pq then a2 - pq else a2);
             q = (if a3 > b then a3 - b else b - a3)
         in case bn_gcd N q pq of None \<Rightarrow> None
            | Some p \<Rightarrow>
              if p \<noteq> 1 then Some (Some p, iter + 1)
              else pq_rounds_big N n t pq a3 (if j AND (j - 1) = 0 then a3 else b) (j + 1) (iter + 1)))"

lemma pq_rounds_big_iter: "pq_rounds_big N n t pq a b j iter = Some (p, iter') \<Longrightarrow> 0 < n \<Longrightarrow> iter < iter'"
proof -
  have "pq_rounds_big N n t pq a b j iter = Some (p, iter') \<Longrightarrow> iter \<le> iter' \<and> (0 < n \<longrightarrow> iter < iter')"
    by (induction n arbitrary: a b j iter) (fastforce simp: Let_def split: option.splits if_splits)+
  then show "pq_rounds_big N n t pq a b j iter = Some (p, iter') \<Longrightarrow> 0 < n \<Longrightarrow> iter < iter'" by blast
qed

function pq_search_big :: "bn_lib \<Rightarrow> (nat \<Rightarrow> u32 \<times> u32) \<Rightarrow> nat \<Rightarrow> nat \<Rightarrow> nat \<Rightarrow> nat option option" where
  "pq_search_big N rnd pq i iter =
     (if i < 3 \<or> iter < 1000
      then (let t = unat (fst (rnd i)); a = unat (snd (rnd i))
            in case pq_rounds_big N (2 ^ (i + 23) - 1) t pq a a 1 iter of
                 None \<Rightarrow> None
               | Some (Some p, iter') \<Rightarrow> Some (Some p)
               | Some (None, iter') \<Rightarrow> pq_search_big N rnd pq (i + 1) iter')
      else Some None)"
  by pat_completeness auto

termination pq_search_big
proof (relation "measure (\<lambda>(N, rnd, pq, i, iter). (3 - i) + (1000 - iter))")
  fix N :: bn_lib and rnd :: "nat \<Rightarrow> u32 \<times> u32" and pq i iter iter' t a :: nat and x y
  assume c: "i < 3 \<or> iter < 1000" and r: "pq_rounds_big N (2 ^ (i + 23) - 1) t pq a a 1 iter = Some x" "(y, iter') = x"
  have "(2::nat) ^ 1 < 2 ^ (i + 23)" by (rule power_strict_increasing) simp_all
  then have "(0::nat) < 2 ^ (i + 23) - 1" by simp
  then have "iter < iter'" using pq_rounds_big_iter r by blast
  then show "((N, rnd, pq, i + 1, iter'), (N, rnd, pq, i, iter)) \<in> measure (\<lambda>(N, rnd, pq, i, iter). (3 - i) + (1000 - iter))"
    using c by auto
qed simp

declare pq_search_big.simps [simp del]

text \<open>\<open>Some None\<close> is the result \<open>-1\<close>.\<close>

definition pq_factorize_big :: "bn_lib \<Rightarrow> (nat \<Rightarrow> u32 \<times> u32) \<Rightarrow> bytes \<Rightarrow> (bytes \<times> bytes) option option" where
  "pq_factorize_big N rnd pq_str =
     (let pq = bn_bin2bn N pq_str
      in case pq_search_big N rnd pq 0 0 of
           None \<Rightarrow> None
         | Some None \<Rightarrow> Some None
         | Some (Some p) \<Rightarrow>
           (case bn_div N pq p of None \<Rightarrow> None
            | Some q \<Rightarrow> Some (Some (if p > q then (to_binary N q, to_binary N p) else (to_binary N p, to_binary N q)))))"

section \<open>Strings\<close>

definition as_big_endian_string :: "u64 \<Rightarrow> bytes" where
  "as_big_endian_string from = dropWhile (\<lambda>b. b = 0) (rev (bytes_of_u64 from))"

definition pq_factorize_str ::
  "bn_lib \<Rightarrow> (nat \<Rightarrow> u64 \<times> u64) \<Rightarrow> (nat \<Rightarrow> u32 \<times> u32) \<Rightarrow> bytes \<Rightarrow> (bytes \<times> bytes) option option" where
  "pq_factorize_str N rnd rnd_big pq_str =
     (let sz = sint (of_nat (length pq_str) :: u32)
      in if sz > 8 \<or> (sz = 8 \<and> pq_str ! 0 AND 128 \<noteq> 0) then pq_factorize_big N rnd_big pq_str
         else (let pq = foldl (\<lambda>pq b. push_bit 8 pq OR ucast b) 0 (take (nat sz) pq_str)
               in case pq_factorize rnd pq of
                    None \<Rightarrow> None
                  | Some p \<Rightarrow>
                    if p = 0 \<or> pq mod p \<noteq> 0 then Some None
                    else Some (Some (as_big_endian_string p, as_big_endian_string (pq div p)))))"

end
