(* ===== verification/Handshake.thy ===== *)
theory Handshake
  imports Dh Factor AuthData
begin

text \<open>
  The creation of an authorization key: \<open>td/mtproto/Handshake.h\<close> and \<open>.cpp\<close> and the encryption of
  \<open>td/mtproto/RSA.cpp\<close>.  The code generated from \<open>mtproto_api.tl\<close> is the parameter \<open>hs_api\<close>.
  Clocks, random numbers and the answers of the context are fields of \<open>hs_env\<close>.  \<open>None\<close> is a failing
  \<open>CHECK\<close>, \<open>UNREACHABLE\<close> or a fatal error, or the end of the fuel of the RSA loop.
\<close>

section \<open>Objects of the scheme\<close>

record res_pq =
  rp_nonce :: bytes
  rp_server_nonce :: bytes
  rp_pq :: bytes
  rp_fingerprints :: "u64 list"

record server_DH_params =
  dp_nonce :: bytes
  dp_server_nonce :: bytes
  dp_encrypted_answer :: bytes

record server_DH_inner =
  di_nonce :: bytes
  di_server_nonce :: bytes
  di_g :: u32
  di_dh_prime :: bytes
  di_g_a :: bytes
  di_server_time :: u32

datatype dh_gen_answer = DhGenOk bytes bytes bytes | DhGenRetry bytes bytes bytes | DhGenFail bytes bytes bytes

datatype hs_object =
    ReqPqMulti bytes
  | ReqDHParams bytes bytes bytes bytes u64 bytes
  | SetClientDHParams bytes bytes bytes
  | PQInnerDataDc bytes bytes bytes bytes bytes bytes u32
  | PQInnerDataTempDc bytes bytes bytes bytes bytes bytes u32 u32
  | ClientDHInnerData bytes bytes u64 bytes
  | RsaPublicKey bytes bytes

definition p_q_inner_data_dc_ID :: u32 where "p_q_inner_data_dc_ID = 0xa9f55f95"
definition p_q_inner_data_temp_dc_ID :: u32 where "p_q_inner_data_temp_dc_ID = 0x56fddf88"
definition server_DH_inner_data_ID :: u32 where "server_DH_inner_data_ID = 0xb5890dba"
definition client_DH_inner_data_ID :: u32 where "client_DH_inner_data_ID = 0x6643b654"

text \<open>The generated code: the result parsers of the three functions, the constructor of the inner
  data from a parser, and what \<open>store\<close> of an object passes to a storer.\<close>

record hs_api =
  api_fetch_res_pq :: "res_pq fetch"
  api_fetch_dh_params :: "server_DH_params fetch"
  api_fetch_dh_gen :: "dh_gen_answer fetch"
  api_fetch_dh_inner :: "server_DH_inner fetch"
  api_store :: "hs_object \<Rightarrow> store_call list"

section \<open>RSA\<close>

record rsa =
  rsa_n :: nat
  rsa_e :: nat

record rsa_key =
  rk_rsa :: rsa
  rk_fingerprint :: u64

definition rsa_get_fingerprint :: "crypto_lib \<Rightarrow> bn_lib \<Rightarrow> hs_api \<Rightarrow> rsa \<Rightarrow> u64 option" where
  "rsa_get_fingerprint L N A r =
     map_option (\<lambda>tmp. u64_of_bytes (take 8 (drop 12 (lib_sha1 L tmp))))
       (serialize (api_store A (RsaPublicKey (to_binary N (rsa_n r)) (to_binary N (rsa_e r)))))"

text \<open>\<open>Some None\<close> is the result \<open>false\<close>.\<close>

definition rsa_encrypt :: "bn_lib \<Rightarrow> rsa \<Rightarrow> bytes \<Rightarrow> nat \<Rightarrow> bytes option option" where
  "rsa_encrypt N r from to_size =
     (let bits = bn_num_bits N (rsa_n r)
      in if length from \<noteq> 256 \<or> to_size \<noteq> 256 \<or> \<not> (bits \<ge> 2041 \<and> bits \<le> 2048) then None
         else (let x = bn_bin2bn N from
               in if x \<ge> rsa_n r then Some None
                  else (case bn_mod_exp N x (rsa_e r) (rsa_n r) of None \<Rightarrow> None
                        | Some y \<Rightarrow> map_option Some (to_binary_exact N 256 y))))"

definition rsa_decrypt_signature :: "bn_lib \<Rightarrow> rsa \<Rightarrow> bytes \<Rightarrow> bytes option" where
  "rsa_decrypt_signature N r from =
     (if length from \<noteq> 256 then None
      else (case bn_mod_exp N (bn_bin2bn N from) (rsa_e r) (rsa_n r) of None \<Rightarrow> None
            | Some y \<Rightarrow> to_binary_exact N 256 y))"

section \<open>State\<close>

datatype hs_state = HsStart | HsResPQ | HsServerDHParams | HsDHGenResponse | HsFinish

datatype hs_mode = HsMain | HsTemp

record handshake =
  hs_state :: hs_state
  hs_mode :: hs_mode
  hs_dc_id :: u32
  hs_expires_in :: u32
  hs_expires_at :: time
  hs_start_time :: time
  hs_timeout_in :: time
  hs_auth_key :: auth_key
  hs_server_time_diff :: time
  hs_server_salt :: u64
  hs_nonce :: bytes
  hs_server_nonce :: bytes
  hs_new_nonce :: bytes
  hs_last_query :: bytes

text \<open>What a handshake does to the objects it was given: it sends bytes through its connection, drops the
  public keys and reports primes.\<close>

datatype hs_event = HsSend bytes | HsDropKeys | HsPrime dh_event

text \<open>\<open>he_now k\<close> is the \<open>k\<close>-th reading of the clock in one operation and \<open>he_aes_key i\<close> the key of the
  \<open>i\<close>-th round of the RSA loop; \<open>he_pad n\<close> are \<open>n\<close> random bytes.\<close>

record hs_env =
  he_now :: "nat \<Rightarrow> time"
  he_nonce :: bytes
  he_new_nonce :: bytes
  he_pad :: "nat \<Rightarrow> bytes"
  he_aes_key :: "nat \<Rightarrow> bytes"
  he_pq :: "nat \<Rightarrow> u64 \<times> u64"
  he_pq_big :: "nat \<Rightarrow> u32 \<times> u32"
  he_b :: nat
  he_get_rsa_key :: "u64 list \<Rightarrow> rsa_key result"
  he_dh_callback :: dh_callback

type_synonym hs_result = "(status \<times> handshake \<times> hs_event list) option"

definition handshake_new :: "time \<Rightarrow> u32 \<Rightarrow> u32 \<Rightarrow> handshake" where
  "handshake_new now dc_id expires_in =
     \<lparr>hs_state = HsStart, hs_mode = (if expires_in = 0 then HsMain else HsTemp), hs_dc_id = dc_id,
      hs_expires_in = expires_in, hs_expires_at = 0, hs_start_time = now, hs_timeout_in = 10 ^ 9,
      hs_auth_key = auth_key_default, hs_server_time_diff = 0, hs_server_salt = 0,
      hs_nonce = replicate 16 0, hs_server_nonce = replicate 16 0, hs_new_nonce = replicate 32 0, hs_last_query = []\<rparr>"

definition hs_set_timeout_in :: "time \<Rightarrow> time \<Rightarrow> handshake \<Rightarrow> handshake" where
  "hs_set_timeout_in now timeout_in h = h\<lparr>hs_start_time := now, hs_timeout_in := timeout_in\<rparr>"

definition hs_clear :: "time \<Rightarrow> handshake \<Rightarrow> handshake" where
  "hs_clear now h = h\<lparr>hs_last_query := [], hs_state := HsStart, hs_start_time := now, hs_timeout_in := 10 ^ 9\<rparr>"

definition is_ready_for_finish :: "handshake \<Rightarrow> bool" where
  "is_ready_for_finish h \<longleftrightarrow> hs_state h = HsFinish"

definition hs_on_finish :: "time \<Rightarrow> handshake \<Rightarrow> handshake" where
  "hs_on_finish now h = hs_clear now h"

definition release_auth_key :: "handshake \<Rightarrow> auth_key \<times> handshake" where
  "release_auth_key h = (hs_auth_key h, h\<lparr>hs_auth_key := ak_clear (hs_auth_key h)\<rparr>)"

section \<open>Parsing and sending\<close>

definition fetch_result :: "'a fetch \<Rightarrow> bytes \<Rightarrow> bool \<Rightarrow> ('a result) option" where
  "fetch_result fetch message check_end =
     (case fbind fetch (\<lambda>x. if check_end then fbind fetch_end (\<lambda>_. fret x) else fret x) (tl_parser_of message) of
        None \<Rightarrow> None
      | Some (x, p) \<Rightarrow> Some (if p_error p \<noteq> [] then Inl (Error 500 (p_error p)) else Inr x))"

definition store_object :: "hs_api \<Rightarrow> u32 \<Rightarrow> hs_object \<Rightarrow> bytes option" where
  "store_object A obj_id obj = serialize (StoreBinary (bytes_of_u32 obj_id) # api_store A obj)"

definition do_send :: "bytes \<Rightarrow> hs_event list" where
  "do_send bs = [HsSend bs]"

definition hs_send :: "hs_api \<Rightarrow> hs_object \<Rightarrow> handshake \<Rightarrow> (handshake \<times> hs_event list) option" where
  "hs_send A obj h =
     map_option (\<lambda>bs. (h\<lparr>hs_last_query := bs\<rparr>, do_send bs)) (serialize (api_store A obj))"

definition on_start :: "hs_api \<Rightarrow> hs_env \<Rightarrow> handshake \<Rightarrow> hs_result" where
  "on_start A env h =
     (if hs_state h \<noteq> HsStart then Some (Err ''on_start called after start '', hs_clear (he_now env 0) h, [])
      else (case hs_send A (ReqPqMulti (he_nonce env)) (h\<lparr>hs_nonce := he_nonce env\<rparr>) of
              None \<Rightarrow> None
            | Some (h', evs) \<Rightarrow> Some (OK, h'\<lparr>hs_state := HsResPQ\<rparr>, evs)))"

definition hs_resume :: "hs_api \<Rightarrow> hs_env \<Rightarrow> handshake \<Rightarrow> (handshake \<times> hs_event list) option" where
  "hs_resume A env h =
     (if hs_state h = HsStart then map_option snd (on_start A env h)
      else if hs_state h = HsFinish then Some (hs_clear (he_now env 0) h, [])
      else if hs_last_query h = [] then Some (hs_clear (he_now env 0) h, [])
      else Some (h, do_send (hs_last_query h)))"

section \<open>Answers of the server\<close>

text \<open>One round of the loop that encrypts the 192 bytes of padded data, from round \<open>i\<close> on.\<close>

definition rsa_pad :: "crypto_lib \<Rightarrow> bytes \<Rightarrow> bytes \<Rightarrow> bytes option" where
  "rsa_pad L aes_key data =
     (let data_with_hash = rev data @ lib_sha256 L (aes_key @ data)
      in case aes_ige_encrypt L aes_key (replicate 32 0) data_with_hash 224 of
           None \<Rightarrow> None
         | Some (out, _) \<Rightarrow> Some (xorb aes_key (lib_sha256 L out) @ out))"

fun rsa_loop :: "nat \<Rightarrow> crypto_lib \<Rightarrow> bn_lib \<Rightarrow> (nat \<Rightarrow> bytes) \<Rightarrow> rsa \<Rightarrow> bytes \<Rightarrow> nat \<Rightarrow> bytes option" where
  "rsa_loop 0 L N keys r data i = None"
| "rsa_loop (Suc n) L N keys r data i =
     (case rsa_pad L (keys i) data of
        None \<Rightarrow> None
      | Some decrypted_data \<Rightarrow>
        (case rsa_encrypt N r decrypted_data 256 of
           None \<Rightarrow> None
         | Some None \<Rightarrow> rsa_loop n L N keys r data (i + 1)
         | Some (Some encrypted_data) \<Rightarrow> Some encrypted_data))"

text \<open>The inner data of \<open>req_DH_params\<close>.\<close>

definition pq_inner_data :: "hs_api \<Rightarrow> res_pq \<Rightarrow> bytes \<Rightarrow> bytes \<Rightarrow> handshake \<Rightarrow> bytes option" where
  "pq_inner_data A res p q h =
     (case hs_mode h of
        HsMain \<Rightarrow> store_object A p_q_inner_data_dc_ID
          (PQInnerDataDc (rp_pq res) p q (hs_nonce h) (hs_server_nonce h) (hs_new_nonce h) (hs_dc_id h))
      | HsTemp \<Rightarrow> store_object A p_q_inner_data_temp_dc_ID
          (PQInnerDataTempDc (rp_pq res) p q (hs_nonce h) (hs_server_nonce h) (hs_new_nonce h) (hs_dc_id h) (hs_expires_in h)))"

definition send_req_DH_params ::
  "nat \<Rightarrow> crypto_lib \<Rightarrow> bn_lib \<Rightarrow> hs_api \<Rightarrow> hs_env \<Rightarrow> res_pq \<Rightarrow> rsa_key \<Rightarrow> bytes \<Rightarrow> bytes \<Rightarrow> handshake \<Rightarrow> hs_result" where
  "send_req_DH_params n L N A env res key p q h0 =
     (let h1 = h0\<lparr>hs_new_nonce := he_new_nonce env\<rparr>
      in case pq_inner_data A res p q h1 of
           None \<Rightarrow> None
         | Some data \<Rightarrow>
           (let h2 = (if hs_mode h1 = HsTemp then h1\<lparr>hs_expires_at := he_now env 1 + of_int (sint (hs_expires_in h1))\<rparr> else h1)
            in if length data > 144 then Some (Err ''Too big data'', h2, [])
               else (case rsa_loop n L N (he_aes_key env) (rk_rsa key) (data @ he_pad env (192 - length data)) 0 of
                       None \<Rightarrow> None
                     | Some encrypted_data \<Rightarrow>
                       (case hs_send A (ReqDHParams (hs_nonce h2) (hs_server_nonce h2) p q (rk_fingerprint key) encrypted_data) h2 of
                          None \<Rightarrow> None
                        | Some (h3, evs) \<Rightarrow> Some (OK, h3\<lparr>hs_state := HsServerDHParams\<rparr>, evs)))))"

definition on_res_pq :: "nat \<Rightarrow> crypto_lib \<Rightarrow> bn_lib \<Rightarrow> hs_api \<Rightarrow> hs_env \<Rightarrow> bytes \<Rightarrow> handshake \<Rightarrow> hs_result" where
  "on_res_pq n L N A env message h =
     (if he_now env 0 \<ge> hs_start_time h + hs_timeout_in h * (6 / 10) then Some (Err ''Handshake ResPQ timeout expired'', h, [])
      else (case fetch_result (api_fetch_res_pq A) message False of
              None \<Rightarrow> None
            | Some (Inl e) \<Rightarrow> Some (e, h, [])
            | Some (Inr res) \<Rightarrow>
              if rp_nonce res \<noteq> hs_nonce h then Some (Err ''Nonce mismatch'', h, [])
              else (let h1 = h\<lparr>hs_server_nonce := rp_server_nonce res\<rparr>
                    in case he_get_rsa_key env (rp_fingerprints res) of
                         Inl e \<Rightarrow> Some (e, h1, [HsDropKeys])
                       | Inr key \<Rightarrow>
                         (case pq_factorize_str N (he_pq env) (he_pq_big env) (rp_pq res) of
                            None \<Rightarrow> None
                          | Some None \<Rightarrow> Some (Err ''Failed to factorize'', h1, [])
                          | Some (Some (p, q)) \<Rightarrow> send_req_DH_params n L N A env res key p q h1))))"

text \<open>The decrypted answer: \<open>SHA1(answer) + answer + padding\<close>.\<close>

definition parse_dh_answer :: "crypto_lib \<Rightarrow> hs_api \<Rightarrow> bytes \<Rightarrow> handshake \<Rightarrow> (server_DH_inner result) option" where
  "parse_dh_answer L A answer h =
     (case fetch_binary 20 (tl_parser_of answer) of None \<Rightarrow> None
      | Some (answer_sha1, p1) \<Rightarrow>
      (case fetch_int p1 of None \<Rightarrow> None
       | Some (obj_id, p2) \<Rightarrow>
       if obj_id \<noteq> server_DH_inner_data_ID then Some (Inl (Err ''Failed to fetch server_DH_inner_data''))
       else (case api_fetch_dh_inner A p2 of None \<Rightarrow> None
        | Some (inner, p3) \<Rightarrow>
          if p_error p3 \<noteq> [] then Some (Inl (Err ''Failed to fetch server_DH_inner_data''))
          else if p_left_len p3 \<ge> 16 then Some (Inl (Err ''Too much pad''))
          else (case substr answer 20 (length answer - p_left_len p3 - 20) of None \<Rightarrow> None
            | Some body \<Rightarrow>
              if answer_sha1 \<noteq> lib_sha1 L body then Some (Inl (Err ''SHA1 mismatch''))
              else if di_nonce inner \<noteq> hs_nonce h then Some (Inl (Err ''Nonce mismatch''))
              else if di_server_nonce inner \<noteq> hs_server_nonce h then Some (Inl (Err ''Server nonce mismatch''))
              else Some (Inr inner)))))"

text \<open>What is sent once the checks succeeded.\<close>

definition client_DH_data :: "crypto_lib \<Rightarrow> hs_api \<Rightarrow> hs_env \<Rightarrow> bytes \<Rightarrow> handshake \<Rightarrow> bytes option" where
  "client_DH_data L A env g_b h =
     (case store_object A client_DH_inner_data_ID (ClientDHInnerData (hs_nonce h) (hs_server_nonce h) 0 g_b) of
        None \<Rightarrow> None
      | Some data \<Rightarrow>
        (let encrypted_data_size = 20 + length data;
             encrypted_data_size_with_pad = (encrypted_data_size + 15) div 16 * 16;
             encrypted_data = lib_sha1 L data @ data @ he_pad env (encrypted_data_size_with_pad - encrypted_data_size);
             (tmp_aes_key, tmp_aes_iv) = tmp_KDF L (hs_server_nonce h) (hs_new_nonce h)
         in map_option fst (aes_ige_encrypt L tmp_aes_key tmp_aes_iv encrypted_data (length encrypted_data))))"

definition finish_server_dh_params ::
  "crypto_lib \<Rightarrow> bn_lib \<Rightarrow> hs_api \<Rightarrow> hs_env \<Rightarrow> server_DH_inner \<Rightarrow> handshake \<Rightarrow> hs_result" where
  "finish_server_dh_params L N A env inner h0 =
     (let h1 = h0\<lparr>hs_server_time_diff := of_int (sint (di_server_time inner)) - he_now env 1\<rparr>
      in case dh_set_config N (he_b env) (di_g inner) (di_dh_prime inner) dh_handshake_init of None \<Rightarrow> None
         | Some d0 \<Rightarrow>
           (let d = dh_set_g_a L N (di_g_a inner) d0
            in case dh_run_checks N False (he_dh_callback env) d of None \<Rightarrow> None
               | Some (st, evs) \<Rightarrow>
                 if st \<noteq> OK then Some (st, h1, map HsPrime evs)
                 else (case (dh_get_g_b N d, dh_gen_key L N d) of
                         (Some g_b, Some (key_id, key)) \<Rightarrow>
                           (case client_DH_data L A env g_b h1 of None \<Rightarrow> None
                            | Some encrypted_data \<Rightarrow>
                              (case hs_send A (SetClientDHParams (hs_nonce h1) (hs_server_nonce h1) encrypted_data) h1 of None \<Rightarrow> None
                               | Some (h2, evs') \<Rightarrow>
                                 (let k0 = auth_key_of key_id key;
                                      k1 = (if hs_mode h2 = HsTemp then k0\<lparr>ak_expires_at := hs_expires_at h2\<rparr> else k0);
                                      k2 = k1\<lparr>ak_created_at := of_int (sint (di_server_time inner))\<rparr>
                                  in Some (OK, h2\<lparr>hs_auth_key := k2,
                                       hs_server_salt := u64_of_bytes (take 8 (hs_new_nonce h2)) XOR u64_of_bytes (take 8 (hs_server_nonce h2)),
                                       hs_state := HsDHGenResponse\<rparr>, map HsPrime evs @ evs'))))
                       | _ \<Rightarrow> None)))"

definition on_server_dh_params :: "crypto_lib \<Rightarrow> bn_lib \<Rightarrow> hs_api \<Rightarrow> hs_env \<Rightarrow> bytes \<Rightarrow> handshake \<Rightarrow> hs_result" where
  "on_server_dh_params L N A env message h =
     (if he_now env 0 \<ge> hs_start_time h + hs_timeout_in h * (8 / 10) then Some (Err ''Handshake DH params timeout expired'', h, [])
      else (case fetch_result (api_fetch_dh_params A) message False of
              None \<Rightarrow> None
            | Some (Inl e) \<Rightarrow> Some (e, h, [])
            | Some (Inr dh_params) \<Rightarrow>
              if dp_nonce dh_params \<noteq> hs_nonce h then Some (Err ''Nonce mismatch'', h, [])
              else if dp_server_nonce dh_params \<noteq> hs_server_nonce h then Some (Err ''Server nonce mismatch'', h, [])
              else if length (dp_encrypted_answer dh_params) mod 16 \<noteq> 0 then Some (Err ''Bad padding for encrypted part'', h, [])
              else (let (tmp_aes_key, tmp_aes_iv) = tmp_KDF L (hs_server_nonce h) (hs_new_nonce h);
                        enc = dp_encrypted_answer dh_params
                    in case aes_ige_decrypt L tmp_aes_key tmp_aes_iv enc (length enc) of None \<Rightarrow> None
                       | Some (answer, _) \<Rightarrow>
                         (case parse_dh_answer L A answer h of None \<Rightarrow> None
                          | Some (Inl e) \<Rightarrow> Some (e, h, [])
                          | Some (Inr inner) \<Rightarrow> finish_server_dh_params L N A env inner h))))"

definition new_nonce_hash :: "crypto_lib \<Rightarrow> bytes \<Rightarrow> bytes \<Rightarrow> bytes" where
  "new_nonce_hash L new_nonce key = drop 4 (lib_sha1 L (new_nonce @ [1] @ take 8 (lib_sha1 L key)))"

definition on_dh_gen_response :: "crypto_lib \<Rightarrow> hs_api \<Rightarrow> bytes \<Rightarrow> handshake \<Rightarrow> hs_result" where
  "on_dh_gen_response L A message h =
     (case fetch_result (api_fetch_dh_gen A) message False of
        None \<Rightarrow> None
      | Some (Inl e) \<Rightarrow> Some (e, h, [])
      | Some (Inr (DhGenOk nonce server_nonce hash1)) \<Rightarrow>
        if nonce \<noteq> hs_nonce h then Some (Err ''Nonce mismatch'', h, [])
        else if server_nonce \<noteq> hs_server_nonce h then Some (Err ''Server nonce mismatch'', h, [])
        else if hash1 \<noteq> new_nonce_hash L (hs_new_nonce h) (ak_key (hs_auth_key h)) then Some (Err ''New nonce hash mismatch'', h, [])
        else Some (OK, h\<lparr>hs_state := HsFinish\<rparr>, [])
      | Some (Inr (DhGenFail _ _ _)) \<Rightarrow> Some (Err ''DhGenFail'', h, [])
      | Some (Inr (DhGenRetry _ _ _)) \<Rightarrow> Some (Err ''DhGenRetry'', h, []))"

definition hs_on_message :: "nat \<Rightarrow> crypto_lib \<Rightarrow> bn_lib \<Rightarrow> hs_api \<Rightarrow> hs_env \<Rightarrow> bytes \<Rightarrow> handshake \<Rightarrow> hs_result" where
  "hs_on_message n L N A env message h =
     (case (case hs_state h of
              HsResPQ \<Rightarrow> on_res_pq n L N A env message h
            | HsServerDHParams \<Rightarrow> on_server_dh_params L N A env message h
            | HsDHGenResponse \<Rightarrow> on_dh_gen_response L A message h
            | _ \<Rightarrow> None) of
        None \<Rightarrow> None
      | Some (st, h', evs) \<Rightarrow> Some (st, if st \<noteq> OK then hs_clear (he_now env 2) h' else h', evs))"

end
