(* ===== verification/HandshakeConn.thy ===== *)
theory HandshakeConn
  imports Handshake RawConn Storers
begin

text \<open>
  The handshake over a raw connection (\<open>td/mtproto/HandshakeConnection.h\<close>) and the actor that runs it
  (\<open>td/mtproto/HandshakeActor.cpp\<close>).  A handshake processes at most one message in each of its states
  during a flush, so \<open>env s\<close> holds the clocks and random numbers for the message it receives in state \<open>s\<close>.
  What it sends while packets are read is appended to the output of the connection when reading is over,
  which gives the same output because reading does not look at it.
\<close>

section \<open>HandshakeConnection\<close>

text \<open>The random numbers of one packet: those of the padding of \<open>NoCryptoImpl\<close> and of the transport.\<close>

record hc_random =
  hr_rnd :: u32
  hr_pad :: "nat \<Rightarrow> bytes"
  hr_frame_rnd :: u32
  hr_frame_pad :: "nat \<Rightarrow> bytes"

definition hc_send_no_crypto :: "crypto_lib \<Rightarrow> (bytes \<Rightarrow> hc_random) \<Rightarrow> bytes \<Rightarrow> raw_connection \<Rightarrow> raw_connection option" where
  "hc_send_no_crypto L rx bs c =
     (let r = rx bs
      in send_no_crypto L (hr_rnd r) (hr_pad r) (hr_frame_rnd r) (hr_frame_pad r)
           (no_crypto_store (hr_rnd r) (hr_pad r) 0 [StoreSlice bs] True) c)"

fun hc_send_all :: "crypto_lib \<Rightarrow> (bytes \<Rightarrow> hc_random) \<Rightarrow> hs_event list \<Rightarrow> raw_connection \<Rightarrow> raw_connection option" where
  "hc_send_all L rx [] c = Some c"
| "hc_send_all L rx (HsSend bs # evs) c =
     (case hc_send_no_crypto L rx bs c of None \<Rightarrow> None | Some c' \<Rightarrow> hc_send_all L rx evs c')"
| "hc_send_all L rx (_ # evs) c = hc_send_all L rx evs c"

definition hc_new ::
  "crypto_lib \<Rightarrow> hs_api \<Rightarrow> hs_env \<Rightarrow> (bytes \<Rightarrow> hc_random) \<Rightarrow> handshake \<times> raw_connection \<Rightarrow> (handshake \<times> raw_connection) option" where
  "hc_new L A env rx s =
     (case hs_resume A env (fst s) of None \<Rightarrow> None
      | Some (h, evs) \<Rightarrow> map_option (\<lambda>c. (h, c)) (hc_send_all L rx evs (snd s)))"

definition hc_on_raw_packet ::
  "nat \<Rightarrow> crypto_lib \<Rightarrow> bn_lib \<Rightarrow> hs_api \<Rightarrow> (hs_state \<Rightarrow> hs_env) \<Rightarrow> packet_info \<Rightarrow> bytes \<Rightarrow> handshake \<Rightarrow> hs_result" where
  "hc_on_raw_packet n L N A env info packet h =
     (if \<not> pi_no_crypto_flag info then Some (Err ''Expected not encrypted packet'', h, [])
      else if length packet < 12 then Some (Err ''Result is too small'', h, [])
      else (let packet' = drop 12 packet;
                fixed_packet_size = length packet' div 4 * 4
            in hs_on_message n L N A (env (hs_state h)) (take fixed_packet_size packet') h))"

text \<open>The callback of the raw connection acts on the handshake and on what it has done so far; \<open>None\<close> after an abort.\<close>

definition hc_callback ::
  "nat \<Rightarrow> crypto_lib \<Rightarrow> bn_lib \<Rightarrow> hs_api \<Rightarrow> (hs_state \<Rightarrow> hs_env) \<Rightarrow> (bytes \<Rightarrow> hc_random)
     \<Rightarrow> (handshake \<times> hs_event list) option rc_callback" where
  "hc_callback n L N A env rx =
     \<lparr>cb_on_raw_packet = (\<lambda>info d s. case s of None \<Rightarrow> (OK, None)
        | Some (h, evs) \<Rightarrow> (case hc_on_raw_packet n L N A env info d h of None \<Rightarrow> (OK, None)
            | Some (e, h', evs') \<Rightarrow> (e, Some (h', evs @ evs')))),
      cb_on_quick_ack = (\<lambda>token s. s),
      cb_before_write = (\<lambda>s c. case s of None \<Rightarrow> (OK, None, c)
        | Some (h, evs) \<Rightarrow> (case hc_send_all L rx evs c of None \<Rightarrow> (OK, None, c) | Some c' \<Rightarrow> (OK, Some (h, evs), c'))),
      cb_on_read = (\<lambda>sz s. s)\<rparr>"

definition hc_flush ::
  "nat \<Rightarrow> crypto_lib \<Rightarrow> bn_lib \<Rightarrow> hs_api \<Rightarrow> (hs_state \<Rightarrow> hs_env) \<Rightarrow> (bytes \<Rightarrow> hc_random) \<Rightarrow> time \<Rightarrow> socket_io
     \<Rightarrow> handshake \<times> raw_connection \<Rightarrow> (status \<times> handshake \<times> raw_connection) option" where
  "hc_flush n L N A env rx now io s =
     (case rc_flush n L (hc_callback n L N A env rx) auth_key_default io (Some (fst s, []), snd s) of
        None \<Rightarrow> None
      | Some (_, None, _) \<Rightarrow> None
      | Some (e, Some (h, _), c) \<Rightarrow>
        Some (e, if e \<noteq> OK \<and> st_code e = - 404 then hs_clear now h else h, c))"

section \<open>HandshakeActor\<close>

text \<open>What the actor gives back, in order.  A promise is gone once it was answered.\<close>

datatype ha_event =
    RawConnectionError status
  | RawConnectionValue raw_connection
  | RawConnectionClosed raw_connection
  | HandshakeValue "handshake option"

record handshake_actor =
  ha_handshake :: "handshake option"
  ha_raw_connection :: "raw_connection option"
  ha_timeout :: time
  ha_raw_connection_promise :: bool
  ha_handshake_promise :: bool
  ha_stopped :: bool
  ha_out :: "ha_event list"

definition handshake_actor_new ::
  "crypto_lib \<Rightarrow> hs_api \<Rightarrow> hs_env \<Rightarrow> (bytes \<Rightarrow> hc_random) \<Rightarrow> handshake \<Rightarrow> raw_connection \<Rightarrow> time \<Rightarrow> bool \<Rightarrow> bool
     \<Rightarrow> handshake_actor option" where
  "handshake_actor_new L A env rx h c timeout raw_promise hs_promise =
     map_option (\<lambda>(h', c'). \<lparr>ha_handshake = Some h', ha_raw_connection = Some c', ha_timeout = timeout,
         ha_raw_connection_promise = raw_promise, ha_handshake_promise = hs_promise, ha_stopped = False, ha_out = []\<rparr>)
       (hc_new L A env rx (h, c))"

definition ha_emit :: "ha_event list \<Rightarrow> handshake_actor \<Rightarrow> handshake_actor" where
  "ha_emit evs a = a\<lparr>ha_out := ha_out a @ evs\<rparr>"

definition return_connection :: "status \<Rightarrow> handshake_actor \<Rightarrow> handshake_actor option" where
  "return_connection status a =
     (case ha_raw_connection a of
        None \<Rightarrow> if ha_raw_connection_promise a then None else Some a
      | Some c \<Rightarrow>
        (let a1 = a\<lparr>ha_raw_connection := None\<rparr>
         in if ha_raw_connection_promise a
            then (let a2 = a1\<lparr>ha_raw_connection_promise := False\<rparr>
                  in if status \<noteq> OK then Some (ha_emit [RawConnectionClosed (stat StatError c), RawConnectionError status] a2)
                     else Some (ha_emit [RawConnectionValue (stat StatPong c)] a2))
            else Some (ha_emit [RawConnectionClosed (stat StatError c)] a1)))"

definition return_handshake :: "handshake_actor \<Rightarrow> handshake_actor option" where
  "return_handshake a =
     (if \<not> ha_handshake_promise a then (if ha_handshake a \<noteq> None then None else Some a)
      else Some (ha_emit [HandshakeValue (ha_handshake a)] (a\<lparr>ha_handshake := None, ha_handshake_promise := False\<rparr>)))"

definition ha_finish :: "status \<Rightarrow> handshake_actor \<Rightarrow> handshake_actor option" where
  "ha_finish status a = (case return_connection status a of None \<Rightarrow> None | Some a1 \<Rightarrow> return_handshake a1)"

definition ha_stop :: "handshake_actor \<Rightarrow> handshake_actor" where
  "ha_stop a = a\<lparr>ha_stopped := True\<rparr>"

definition ha_close :: "handshake_actor \<Rightarrow> handshake_actor option" where
  "ha_close a = map_option ha_stop (ha_finish (Err ''Canceled'') a)"

text \<open>Start-up passes the timeout on to the handshake; the subscription to the socket is the scheduler's.\<close>

definition ha_start_up :: "time \<Rightarrow> handshake_actor \<Rightarrow> handshake_actor option" where
  "ha_start_up now a =
     (case ha_handshake a of None \<Rightarrow> None
      | Some h \<Rightarrow> Some (a\<lparr>ha_handshake := Some (hs_set_timeout_in now (ha_timeout a) h)\<rparr>))"

text \<open>\<open>flush\<close> is \<open>HandshakeConnection::flush\<close>.\<close>

definition ha_loop ::
  "(handshake \<times> raw_connection \<Rightarrow> (status \<times> handshake \<times> raw_connection) option) \<Rightarrow> handshake_actor \<Rightarrow> handshake_actor option" where
  "ha_loop flush a =
     (case (ha_handshake a, ha_raw_connection a) of
        (Some h, Some c) \<Rightarrow>
          (case flush (h, c) of None \<Rightarrow> None
           | Some (e, h', c') \<Rightarrow>
             (let a1 = a\<lparr>ha_handshake := Some h', ha_raw_connection := Some c'\<rparr>
              in if e \<noteq> OK then map_option ha_stop (ha_finish e a1)
                 else if is_ready_for_finish h' then map_option ha_stop (ha_finish OK a1)
                 else Some a1))
      | _ \<Rightarrow> None)"

definition ha_hangup :: "handshake_actor \<Rightarrow> handshake_actor option" where
  "ha_hangup a = map_option ha_stop (ha_finish (Error 1 ''Canceled'') a)"

definition ha_timeout_expired :: "handshake_actor \<Rightarrow> handshake_actor option" where
  "ha_timeout_expired a = map_option ha_stop (ha_finish (Err ''Timeout expired'') a)"

definition ha_tear_down :: "handshake_actor \<Rightarrow> handshake_actor option" where
  "ha_tear_down a = ha_finish OK a"

end
