(* ===== verification/TlObject.thy ===== *)
theory TlObject
  imports TlCore
begin

text \<open>
  The templates from which the generated TL code is composed: \<open>td/tl/tl_object_parse.h\<close> and
  \<open>td/tl/tl_object_store.h\<close>.  A template that takes another one is a function of it.
\<close>

section \<open>Fetching\<close>

text \<open>\<open>dflt\<close> is the value-initialized result.\<close>

definition TlFetchBoxed :: "u32 \<Rightarrow> 'a \<Rightarrow> 'a fetch \<Rightarrow> 'a fetch" where
  "TlFetchBoxed constructor_id dflt func =
     fbind fetch_int (\<lambda>parsed_constructor_id.
       if parsed_constructor_id \<noteq> constructor_id then fbind (set_error ''Wrong constructor '') (\<lambda>_. fret dflt)
       else func)"

definition ID_BOOL_FALSE :: u32 where "ID_BOOL_FALSE = 0xbc799737"
definition ID_BOOL_TRUE :: u32 where "ID_BOOL_TRUE = 0x997275b5"

definition TlFetchBool :: "bool fetch" where
  "TlFetchBool =
     fbind fetch_int (\<lambda>c. if c = ID_BOOL_TRUE then fret True
       else if c \<noteq> ID_BOOL_FALSE then fbind (set_error ''Bool expected'') (\<lambda>_. fret False) else fret False)"

definition TlFetchInt :: "u32 fetch" where "TlFetchInt = fetch_int"
definition TlFetchLong :: "u64 fetch" where "TlFetchLong = fetch_long"
definition TlFetchDouble :: "u64 fetch" where "TlFetchDouble = fetch_double"
definition TlFetchInt128 :: "bytes fetch" where "TlFetchInt128 = fetch_binary 16"
definition TlFetchInt256 :: "bytes fetch" where "TlFetchInt256 = fetch_binary 32"
definition TlFetchInt512 :: "bytes fetch" where "TlFetchInt512 = fetch_binary 64"
definition TlFetchString :: "bytes fetch" where "TlFetchString = fetch_string"

definition TlFetchVector :: "'a fetch \<Rightarrow> 'a list fetch" where
  "TlFetchVector func = fbind fetch_int (\<lambda>multiplicity p.
     if p_left_len p < unat multiplicity
     then fbind (set_error ''Wrong vector length'') (\<lambda>_. fret []) p
     else parse_vals func (unat multiplicity) p)"

section \<open>Storing\<close>

definition TlStoreBoxed :: "u32 \<Rightarrow> ('a \<Rightarrow> store_call list) \<Rightarrow> 'a \<Rightarrow> store_call list" where
  "TlStoreBoxed constructor_id func x = StoreBinary (bytes_of_u32 constructor_id) # func x"

definition TlStoreBool :: "bool \<Rightarrow> store_call list" where
  "TlStoreBool x = [StoreBinary (bytes_of_u32 (if x then ID_BOOL_TRUE else ID_BOOL_FALSE))]"

definition TlStoreBinary :: "bytes \<Rightarrow> store_call list" where
  "TlStoreBinary x = [StoreBinary x]"

definition TlStoreString :: "bytes \<Rightarrow> store_call list" where
  "TlStoreString x = [StoreString x]"

definition TlStoreVector :: "('a \<Rightarrow> store_call list) \<Rightarrow> 'a list \<Rightarrow> store_call list" where
  "TlStoreVector func vec =
     StoreCheck (length vec < 2 ^ 31) # StoreBinary (bytes_of_u32 (of_nat (length vec))) # concat (map func vec)"

section \<open>Fetching undoes storing\<close>

lemma run_unsafe_Cons:
  "run_unsafe (StoreBinary b # cs) [] = map_option ((@) b) (run_unsafe cs [])"
  "run_unsafe (StoreString s # cs) [] =
     (case unsafe_store_string s of None \<Rightarrow> None | Some b \<Rightarrow> map_option ((@) b) (run_unsafe cs []))"
proof -
  show "run_unsafe (StoreBinary b # cs) [] = map_option ((@) b) (run_unsafe cs [])"
    using run_unsafe_buf [of cs b] by simp
  show "run_unsafe (StoreString s # cs) [] =
     (case unsafe_store_string s of None \<Rightarrow> None | Some b \<Rightarrow> map_option ((@) b) (run_unsafe cs []))"
  proof (cases "unsafe_store_string s")
    case (Some b)
    then show ?thesis using run_unsafe_buf [of cs b] by simp
  qed simp
qed

lemma parses_binary: "length b = n \<Longrightarrow> n \<le> 64 \<Longrightarrow> parses (fetch_binary n) b b"
  by (auto simp: parses_def fetch_binary_clean)

lemma codecI:
  assumes "\<And>x. ok x \<Longrightarrow> \<exists>bs. run_unsafe (st x) [] = Some bs \<and> bs \<noteq> [] \<and> parses pa bs x" and "safe_fetch pa"
  shows "tl_codec st pa ok"
proof
  fix x bs p rest
  assume "ok x" "run_unsafe (st x) [] = Some bs" "clean p" "p_data p = bs @ rest"
  then show "pa p = Some (x, consume (length bs) p)" using assms(1) [of x] by (auto simp: parses_def)
next
  fix x assume "ok x"
  then show "\<exists>bs. run_unsafe (st x) [] = Some bs \<and> bs \<noteq> []" using assms(1) by blast
qed (rule assms(2))

lemma codec_parses:
  assumes "tl_codec st pa ok" and "ok x"
  obtains bs where "run_unsafe (st x) [] = Some bs" and "parses pa bs x"
  using tl_codec.st_returns [OF assms] tl_codec.pa_st [OF assms] unfolding parses_def by blast

context tl_codec
begin

lemma boxed_codec: "tl_codec (TlStoreBoxed i st) (TlFetchBoxed i d pa) ok"
proof (rule codecI)
  fix x assume "ok x"
  then obtain bs where bs: "run_unsafe (st x) [] = Some bs" "bs \<noteq> []" using st_returns by blast
  have "parses pa bs x" using pa_st [OF \<open>ok x\<close> bs(1)] by (simp add: parses_def)
  then have "parses (TlFetchBoxed i d pa) (bytes_of_u32 i @ bs) x"
    unfolding TlFetchBoxed_def by (intro parses_fbind [OF parses_fetch(1)]) simp
  then show "\<exists>bs. run_unsafe (TlStoreBoxed i st x) [] = Some bs \<and> bs \<noteq> [] \<and> parses (TlFetchBoxed i d pa) bs x"
    using bs unfolding TlStoreBoxed_def run_unsafe_Cons by simp
next
  show "safe_fetch (TlFetchBoxed i d pa)"
    unfolding TlFetchBoxed_def
  proof (rule safe_fbind [OF safe_fetch_int])
    fix c
    have "safe_fetch (fbind (set_error ''Wrong constructor '') (\<lambda>_. fret d))"
      by (intro safe_fbind safe_set_error safe_fret) simp
    then show "safe_fetch (if c \<noteq> i then fbind (set_error ''Wrong constructor '') (\<lambda>_. fret d) else pa)"
      using pa_safe by simp
  qed
qed

lemma tl_vector_codec: "tl_codec (TlStoreVector st) (TlFetchVector pa) (\<lambda>v. length v < 2 ^ 31 \<and> (\<forall>x \<in> set v. ok x))"
proof -
  have "TlStoreVector st = store_vector st" by (rule ext) (simp add: TlStoreVector_def store_vector_def)
  moreover have "TlFetchVector pa = parse_vector pa" by (simp add: TlFetchVector_def parse_vector_def)
  ultimately show ?thesis using vector_codec by simp
qed

end

interpretation tl_int128: tl_codec TlStoreBinary TlFetchInt128 "\<lambda>x. length x = 16"
  by unfold_locales (auto simp: TlStoreBinary_def TlFetchInt128_def fetch_binary_clean safe_fetch_binary)

interpretation tl_int256: tl_codec TlStoreBinary TlFetchInt256 "\<lambda>x. length x = 32"
  by unfold_locales (auto simp: TlStoreBinary_def TlFetchInt256_def fetch_binary_clean safe_fetch_binary)

interpretation tl_int512: tl_codec TlStoreBinary TlFetchInt512 "\<lambda>x. length x = 64"
  by unfold_locales (auto simp: TlStoreBinary_def TlFetchInt512_def fetch_binary_clean safe_fetch_binary)

interpretation tl_long: tl_codec "\<lambda>x. TlStoreBinary (bytes_of_u64 x)" TlFetchLong "\<lambda>_. True"
  by unfold_locales (auto simp: TlStoreBinary_def TlFetchLong_def fetch_long_clean safe_fetch_long)

interpretation tl_string: tl_codec TlStoreString TlFetchString "\<lambda>x. length x < 2 ^ 32"
  using string_codec.tl_codec_axioms
  by (simp add: TlStoreString_def [abs_def] TlFetchString_def store_str_def [abs_def] parse_str_def)

interpretation tl_bool: tl_codec TlStoreBool TlFetchBool "\<lambda>_. True"
proof (rule codecI)
  fix x :: bool
  let ?c = "if x then ID_BOOL_TRUE else ID_BOOL_FALSE"
  have "parses TlFetchBool (bytes_of_u32 ?c @ []) x"
    unfolding TlFetchBool_def
  proof (rule parses_fbind [OF parses_fetch(1)])
    show "parses (if ?c = ID_BOOL_TRUE then fret True
        else if ?c \<noteq> ID_BOOL_FALSE then fbind (set_error ''Bool expected'') (\<lambda>_. fret False) else fret False) [] x"
      by (cases x) (simp_all add: parses_fret ID_BOOL_TRUE_def ID_BOOL_FALSE_def)
  qed
  then have "parses TlFetchBool (bytes_of_u32 ?c) x" by simp
  moreover have "bytes_of_u32 ?c \<noteq> []"
    using length_bytes_of_u32 by (metis list.size(3) zero_neq_numeral)
  ultimately show "\<exists>bs. run_unsafe (TlStoreBool x) [] = Some bs \<and> bs \<noteq> [] \<and> parses TlFetchBool bs x"
    by (simp add: TlStoreBool_def)
next
  have "safe_fetch (fbind (set_error ''Bool expected'') (\<lambda>_. fret False))"
    by (intro safe_fbind safe_set_error safe_fret) simp
  then show "safe_fetch TlFetchBool"
    unfolding TlFetchBool_def by (intro safe_fbind safe_fetch_int) (simp add: safe_fret)
qed

interpretation tl_longs: tl_codec "TlStoreVector (\<lambda>x. TlStoreBinary (bytes_of_u64 x))" "TlFetchVector TlFetchLong"
    "\<lambda>v. length v < 2 ^ 31 \<and> (\<forall>x \<in> set v. True)"
  by (rule tl_long.tl_vector_codec)

end
