(* ===== verification/HandshakeApi.thy ===== *)
theory HandshakeApi
  imports Handshake TlObject
begin

text \<open>
  The layout that the scheme \<open>td/generate/scheme/mtproto_api.tl\<close> gives the objects of the handshake,
  written with the templates of the generated code.  \<open>api_laws\<close> states that the generated code follows
  the scheme; \<open>scheme_api\<close> does.
\<close>

section \<open>Layout of the objects\<close>

definition ID_VECTOR :: u32 where "ID_VECTOR = 0x1cb5c415"
definition resPQ_ID :: u32 where "resPQ_ID = 0x05162463"
definition server_DH_params_ok_ID :: u32 where "server_DH_params_ok_ID = 0xd0e8075c"
definition dh_gen_ok_ID :: u32 where "dh_gen_ok_ID = 0x3bcbf734"
definition dh_gen_retry_ID :: u32 where "dh_gen_retry_ID = 0x46dc1fb9"
definition dh_gen_fail_ID :: u32 where "dh_gen_fail_ID = 0xa69dae02"
definition req_pq_multi_ID :: u32 where "req_pq_multi_ID = 0xbe7e8ef1"
definition req_DH_params_ID :: u32 where "req_DH_params_ID = 0xd712e4be"
definition set_client_DH_params_ID :: u32 where "set_client_DH_params_ID = 0xf5045f1f"

abbreviation store_long :: "u64 \<Rightarrow> store_call list" where
  "store_long x \<equiv> TlStoreBinary (bytes_of_u64 x)"

abbreviation store_int :: "u32 \<Rightarrow> store_call list" where
  "store_int x \<equiv> TlStoreBinary (bytes_of_u32 x)"

text \<open>What \<open>store\<close> of an object the client sends passes to a storer: the identifier for a function, then the fields.\<close>

fun scheme_store :: "hs_object \<Rightarrow> store_call list" where
  "scheme_store (ReqPqMulti nonce) = store_int req_pq_multi_ID @ TlStoreBinary nonce"
| "scheme_store (ReqDHParams nonce server_nonce p q fingerprint encrypted_data) =
     store_int req_DH_params_ID @ TlStoreBinary nonce @ TlStoreBinary server_nonce @ TlStoreString p @ TlStoreString q
       @ store_long fingerprint @ TlStoreString encrypted_data"
| "scheme_store (SetClientDHParams nonce server_nonce encrypted_data) =
     store_int set_client_DH_params_ID @ TlStoreBinary nonce @ TlStoreBinary server_nonce @ TlStoreString encrypted_data"
| "scheme_store (PQInnerDataDc pq p q nonce server_nonce new_nonce dc) =
     TlStoreString pq @ TlStoreString p @ TlStoreString q @ TlStoreBinary nonce @ TlStoreBinary server_nonce
       @ TlStoreBinary new_nonce @ store_int dc"
| "scheme_store (PQInnerDataTempDc pq p q nonce server_nonce new_nonce dc expires_in) =
     TlStoreString pq @ TlStoreString p @ TlStoreString q @ TlStoreBinary nonce @ TlStoreBinary server_nonce
       @ TlStoreBinary new_nonce @ store_int dc @ store_int expires_in"
| "scheme_store (ClientDHInnerData nonce server_nonce retry_id g_b) =
     TlStoreBinary nonce @ TlStoreBinary server_nonce @ store_long retry_id @ TlStoreString g_b"
| "scheme_store (RsaPublicKey n e) = TlStoreString n @ TlStoreString e"

text \<open>The objects the server sends.\<close>

definition scheme_res_pq :: "res_pq \<Rightarrow> store_call list" where
  "scheme_res_pq = TlStoreBoxed resPQ_ID (\<lambda>x.
     TlStoreBinary (rp_nonce x) @ TlStoreBinary (rp_server_nonce x) @ TlStoreString (rp_pq x)
       @ TlStoreBoxed ID_VECTOR (TlStoreVector store_long) (rp_fingerprints x) @ [])"

definition scheme_dh_params :: "server_DH_params \<Rightarrow> store_call list" where
  "scheme_dh_params = TlStoreBoxed server_DH_params_ok_ID (\<lambda>x.
     TlStoreBinary (dp_nonce x) @ TlStoreBinary (dp_server_nonce x) @ TlStoreString (dp_encrypted_answer x) @ [])"

definition scheme_dh_inner :: "server_DH_inner \<Rightarrow> store_call list" where
  "scheme_dh_inner x =
     TlStoreBinary (di_nonce x) @ TlStoreBinary (di_server_nonce x) @ store_int (di_g x) @ TlStoreString (di_dh_prime x)
       @ TlStoreString (di_g_a x) @ store_int (di_server_time x) @ []"

fun scheme_dh_gen :: "dh_gen_answer \<Rightarrow> store_call list" where
  "scheme_dh_gen (DhGenOk n s x) = store_int dh_gen_ok_ID @ TlStoreBinary n @ TlStoreBinary s @ TlStoreBinary x @ []"
| "scheme_dh_gen (DhGenRetry n s x) = store_int dh_gen_retry_ID @ TlStoreBinary n @ TlStoreBinary s @ TlStoreBinary x @ []"
| "scheme_dh_gen (DhGenFail n s x) = store_int dh_gen_fail_ID @ TlStoreBinary n @ TlStoreBinary s @ TlStoreBinary x @ []"

definition res_pq_ok :: "res_pq \<Rightarrow> bool" where
  "res_pq_ok x \<longleftrightarrow> length (rp_nonce x) = 16 \<and> length (rp_server_nonce x) = 16 \<and> length (rp_pq x) < 2 ^ 32 \<and>
     length (rp_fingerprints x) < 2 ^ 31"

definition dh_params_ok :: "server_DH_params \<Rightarrow> bool" where
  "dh_params_ok x \<longleftrightarrow> length (dp_nonce x) = 16 \<and> length (dp_server_nonce x) = 16 \<and> length (dp_encrypted_answer x) < 2 ^ 32"

definition dh_inner_ok :: "server_DH_inner \<Rightarrow> bool" where
  "dh_inner_ok x \<longleftrightarrow> length (di_nonce x) = 16 \<and> length (di_server_nonce x) = 16 \<and> length (di_dh_prime x) < 2 ^ 32 \<and>
     length (di_g_a x) < 2 ^ 32"

fun dh_gen_ok :: "dh_gen_answer \<Rightarrow> bool" where
  "dh_gen_ok (DhGenOk n s x) \<longleftrightarrow> length n = 16 \<and> length s = 16 \<and> length x = 16"
| "dh_gen_ok (DhGenRetry n s x) \<longleftrightarrow> length n = 16 \<and> length s = 16 \<and> length x = 16"
| "dh_gen_ok (DhGenFail n s x) \<longleftrightarrow> length n = 16 \<and> length s = 16 \<and> length x = 16"

definition api_laws :: "hs_api \<Rightarrow> bool" where
  "api_laws A \<longleftrightarrow>
     (\<forall>obj. api_store A obj = scheme_store obj) \<and>
     tl_codec scheme_res_pq (api_fetch_res_pq A) res_pq_ok \<and>
     tl_codec scheme_dh_params (api_fetch_dh_params A) dh_params_ok \<and>
     tl_codec scheme_dh_inner (api_fetch_dh_inner A) dh_inner_ok \<and>
     tl_codec scheme_dh_gen (api_fetch_dh_gen A) dh_gen_ok"

section \<open>Sequences of fields\<close>

definition codes :: "store_call list \<Rightarrow> 'a fetch \<Rightarrow> 'a \<Rightarrow> bool" where
  "codes cs pa x \<longleftrightarrow> (\<exists>bs. run_unsafe cs [] = Some bs \<and> parses pa bs x)"

lemma codes_Nil: "codes [] (fret x) x"
  by (simp add: codes_def parses_fret)

lemma codes_run:
  assumes "codes cs pa x" and "run_unsafe cs [] = Some bs"
  shows "parses pa bs x"
  using assms by (auto simp: codes_def)

lemma codes_fbind:
  assumes "codes as pa x" and "codes cs (k x) y"
  shows "codes (as @ cs) (fbind pa k) y"
proof -
  obtain a b where "run_unsafe as [] = Some a" "parses pa a x" "run_unsafe cs [] = Some b" "parses (k x) b y"
    using assms by (auto simp: codes_def)
  then show ?thesis
    using run_unsafe_buf [of cs a] parses_fbind [of pa a x k b y] by (simp add: codes_def run_unsafe_append)
qed

lemma codec_codes: "tl_codec st pa ok \<Longrightarrow> ok x \<Longrightarrow> codes (st x) pa x"
  unfolding codes_def by (metis codec_parses)

lemma codes_int: "codes (store_int w) fetch_int w" "codes (store_int w) TlFetchInt w"
  using parses_fetch(1) by (auto simp: codes_def TlStoreBinary_def TlFetchInt_def)

lemmas codes_field = codec_codes [OF tl_int128.tl_codec_axioms] codec_codes [OF tl_int256.tl_codec_axioms]
  codec_codes [OF tl_string.tl_codec_axioms] codec_codes [OF tl_long.tl_codec_axioms, OF TrueI]

lemmas codes_fields = codes_fbind codes_field codes_int

lemma codes_self: "y = x \<Longrightarrow> codes [] (fret y) x"
  by (simp add: codes_Nil)

lemma codec_of_codes:
  assumes "\<And>x. ok x \<Longrightarrow> codes (st x) pa x" and "\<And>x. ok x \<Longrightarrow> \<exists>b cs. st x = StoreBinary b # cs \<and> b \<noteq> []" and "safe_fetch pa"
  shows "tl_codec st pa ok"
proof (rule codecI [OF _ assms(3)])
  fix x assume x: "ok x"
  obtain b cs where b: "st x = StoreBinary b # cs" "b \<noteq> []" using assms(2) [OF x] by blast
  obtain bs where bs: "run_unsafe (st x) [] = Some bs" "parses pa bs x" using assms(1) [OF x] by (auto simp: codes_def)
  have "bs \<noteq> []" using bs(1) b(2) unfolding b(1) run_unsafe_Cons by auto
  then show "\<exists>bs. run_unsafe (st x) [] = Some bs \<and> bs \<noteq> [] \<and> parses pa bs x" using bs by blast
qed

section \<open>Generated code that follows the scheme\<close>

abbreviation no_res_pq :: res_pq where
  "no_res_pq \<equiv> \<lparr>rp_nonce = [], rp_server_nonce = [], rp_pq = [], rp_fingerprints = []\<rparr>"

definition fetch_res_pq :: "res_pq fetch" where
  "fetch_res_pq = TlFetchBoxed resPQ_ID no_res_pq
     (fbind TlFetchInt128 (\<lambda>n. fbind TlFetchInt128 (\<lambda>s. fbind TlFetchString (\<lambda>pq.
      fbind (TlFetchBoxed ID_VECTOR [] (TlFetchVector TlFetchLong)) (\<lambda>f.
      fret \<lparr>rp_nonce = n, rp_server_nonce = s, rp_pq = pq, rp_fingerprints = f\<rparr>)))))"

definition fetch_dh_params :: "server_DH_params fetch" where
  "fetch_dh_params = TlFetchBoxed server_DH_params_ok_ID \<lparr>dp_nonce = [], dp_server_nonce = [], dp_encrypted_answer = []\<rparr>
     (fbind TlFetchInt128 (\<lambda>n. fbind TlFetchInt128 (\<lambda>s. fbind TlFetchString (\<lambda>e.
      fret \<lparr>dp_nonce = n, dp_server_nonce = s, dp_encrypted_answer = e\<rparr>))))"

definition fetch_dh_inner :: "server_DH_inner fetch" where
  "fetch_dh_inner =
     fbind TlFetchInt128 (\<lambda>n. fbind TlFetchInt128 (\<lambda>s. fbind TlFetchInt (\<lambda>g. fbind TlFetchString (\<lambda>p.
      fbind TlFetchString (\<lambda>ga. fbind TlFetchInt (\<lambda>t.
      fret \<lparr>di_nonce = n, di_server_nonce = s, di_g = g, di_dh_prime = p, di_g_a = ga, di_server_time = t\<rparr>))))))"

definition fetch_three :: "(bytes \<Rightarrow> bytes \<Rightarrow> bytes \<Rightarrow> 'a) \<Rightarrow> 'a fetch" where
  "fetch_three c = fbind TlFetchInt128 (\<lambda>n. fbind TlFetchInt128 (\<lambda>s. fbind TlFetchInt128 (\<lambda>x. fret (c n s x))))"

definition fetch_dh_gen_of :: "u32 \<Rightarrow> dh_gen_answer fetch" where
  "fetch_dh_gen_of c =
     (if c = dh_gen_ok_ID then fetch_three DhGenOk
      else if c = dh_gen_retry_ID then fetch_three DhGenRetry
      else if c = dh_gen_fail_ID then fetch_three DhGenFail
      else fbind (set_error ''Unknown constructor found '') (\<lambda>_. fret (DhGenFail [] [] [])))"

definition fetch_dh_gen :: "dh_gen_answer fetch" where
  "fetch_dh_gen = fbind fetch_int fetch_dh_gen_of"

definition scheme_api :: hs_api where
  "scheme_api = \<lparr>api_fetch_res_pq = fetch_res_pq, api_fetch_dh_params = fetch_dh_params, api_fetch_dh_gen = fetch_dh_gen,
     api_fetch_dh_inner = fetch_dh_inner, api_store = scheme_store\<rparr>"

lemmas safe_fields = tl_int128.pa_safe tl_string.pa_safe tl_longs.pa_safe safe_fetch_int safe_fret

lemma safe_TlFetchInt [abort_free]: "safe_fetch TlFetchInt"
  by (simp add: TlFetchInt_def safe_fetch_int)

lemma binary16_Cons: "length n = 16 \<Longrightarrow> \<exists>b cs'. TlStoreBinary n @ cs = StoreBinary b # cs' \<and> b \<noteq> []"
  by (auto simp: TlStoreBinary_def)

lemma int_Cons: "\<exists>b cs'. store_int w @ cs = StoreBinary b # cs' \<and> b \<noteq> []"
proof -
  have "length (bytes_of_u32 w) \<noteq> 0" by simp
  then have "bytes_of_u32 w \<noteq> []" by (metis list.size(3))
  then show ?thesis by (simp add: TlStoreBinary_def)
qed

lemma codec_res_pq: "tl_codec scheme_res_pq fetch_res_pq res_pq_ok"
  unfolding scheme_res_pq_def fetch_res_pq_def
proof (rule tl_codec.boxed_codec, rule codec_of_codes)
  fix x :: res_pq
  assume x: "res_pq_ok x"
  then show "codes (TlStoreBinary (rp_nonce x) @ TlStoreBinary (rp_server_nonce x) @ TlStoreString (rp_pq x)
       @ TlStoreBoxed ID_VECTOR (TlStoreVector store_long) (rp_fingerprints x) @ [])
    (fbind TlFetchInt128 (\<lambda>n. fbind TlFetchInt128 (\<lambda>s. fbind TlFetchString (\<lambda>pq.
      fbind (TlFetchBoxed ID_VECTOR [] (TlFetchVector TlFetchLong)) (\<lambda>f.
      fret \<lparr>rp_nonce = n, rp_server_nonce = s, rp_pq = pq, rp_fingerprints = f\<rparr>))))) x"
    unfolding res_pq_ok_def by - (rule codes_fields codec_codes [OF tl_longs.boxed_codec] | simp add: codes_self)+
  show "\<exists>b cs. TlStoreBinary (rp_nonce x) @ TlStoreBinary (rp_server_nonce x) @ TlStoreString (rp_pq x)
       @ TlStoreBoxed ID_VECTOR (TlStoreVector store_long) (rp_fingerprints x) @ [] = StoreBinary b # cs \<and> b \<noteq> []"
    using x by (intro binary16_Cons) (simp add: res_pq_ok_def)
qed (intro safe_fbind safe_fields tl_codec.pa_safe [OF tl_longs.boxed_codec])

lemma codec_dh_params: "tl_codec scheme_dh_params fetch_dh_params dh_params_ok"
  unfolding scheme_dh_params_def fetch_dh_params_def
proof (rule tl_codec.boxed_codec, rule codec_of_codes)
  fix x :: server_DH_params
  assume x: "dh_params_ok x"
  then show "codes (TlStoreBinary (dp_nonce x) @ TlStoreBinary (dp_server_nonce x) @ TlStoreString (dp_encrypted_answer x) @ [])
    (fbind TlFetchInt128 (\<lambda>n. fbind TlFetchInt128 (\<lambda>s. fbind TlFetchString (\<lambda>e.
      fret \<lparr>dp_nonce = n, dp_server_nonce = s, dp_encrypted_answer = e\<rparr>)))) x"
    unfolding dh_params_ok_def by - (rule codes_fields | simp add: codes_self)+
  show "\<exists>b cs. TlStoreBinary (dp_nonce x) @ TlStoreBinary (dp_server_nonce x) @ TlStoreString (dp_encrypted_answer x) @ []
      = StoreBinary b # cs \<and> b \<noteq> []"
    using x by (intro binary16_Cons) (simp add: dh_params_ok_def)
qed (intro safe_fbind safe_fields)

lemma codec_dh_inner: "tl_codec scheme_dh_inner fetch_dh_inner dh_inner_ok"
proof (rule codec_of_codes)
  fix x :: server_DH_inner
  assume x: "dh_inner_ok x"
  then show "codes (scheme_dh_inner x) fetch_dh_inner x"
    unfolding scheme_dh_inner_def fetch_dh_inner_def dh_inner_ok_def
    by - (rule codes_fields | simp add: codes_self)+
  show "\<exists>b cs. scheme_dh_inner x = StoreBinary b # cs \<and> b \<noteq> []"
    unfolding scheme_dh_inner_def using x by (intro binary16_Cons) (simp add: dh_inner_ok_def)
next
  show "safe_fetch fetch_dh_inner" unfolding fetch_dh_inner_def by (intro safe_fbind safe_fields safe_TlFetchInt)
qed

lemma codes_three:
  assumes "length n = 16" and "length s = 16" and "length x = 16"
  shows "codes (TlStoreBinary n @ TlStoreBinary s @ TlStoreBinary x @ []) (fetch_three c) (c n s x)"
  unfolding fetch_three_def using assms by - (rule codes_fields | simp add: codes_self)+

lemma dh_gen_IDs [simp]: "dh_gen_retry_ID \<noteq> dh_gen_ok_ID" "dh_gen_fail_ID \<noteq> dh_gen_ok_ID" "dh_gen_fail_ID \<noteq> dh_gen_retry_ID"
  by (simp_all add: dh_gen_ok_ID_def dh_gen_retry_ID_def dh_gen_fail_ID_def)

lemma fetch_dh_gen_of_simps:
  "fetch_dh_gen_of dh_gen_ok_ID = fetch_three DhGenOk" "fetch_dh_gen_of dh_gen_retry_ID = fetch_three DhGenRetry"
  "fetch_dh_gen_of dh_gen_fail_ID = fetch_three DhGenFail"
  by (simp_all add: fetch_dh_gen_of_def)

lemma codec_dh_gen: "tl_codec scheme_dh_gen fetch_dh_gen dh_gen_ok"
proof (rule codec_of_codes)
  fix x :: dh_gen_answer
  assume "dh_gen_ok x"
  then show "codes (scheme_dh_gen x) fetch_dh_gen x"
    unfolding fetch_dh_gen_def
    by (cases x; simp only: scheme_dh_gen.simps dh_gen_ok.simps)
      (rule codes_fbind [OF codes_int(1)], simp only: fetch_dh_gen_of_simps codes_three)+
  show "\<exists>b cs. scheme_dh_gen x = StoreBinary b # cs \<and> b \<noteq> []"
    by (cases x) (simp_all only: scheme_dh_gen.simps int_Cons)
next
  have "safe_fetch (fetch_three c)" for c :: "bytes \<Rightarrow> bytes \<Rightarrow> bytes \<Rightarrow> dh_gen_answer"
    unfolding fetch_three_def by (intro safe_fbind safe_fields)
  moreover have "safe_fetch (fbind (set_error ''Unknown constructor found '') (\<lambda>_. fret (DhGenFail [] [] [])))"
    by (intro safe_fbind safe_set_error safe_fret) simp
  ultimately show "safe_fetch fetch_dh_gen"
    unfolding fetch_dh_gen_def fetch_dh_gen_of_def [abs_def] by (intro safe_fbind safe_fetch_int) simp
qed

lemma scheme_api_laws: "api_laws scheme_api"
  by (simp add: api_laws_def scheme_api_def codec_res_pq codec_dh_params codec_dh_inner codec_dh_gen)

end
