(* ===== verification/DhProps.thy ===== *)
theory DhProps
  imports Dh
begin

text \<open>
  Both sides of a checked exchange compute the same key, and the checks confine the values to the
  ranges the protocol requires.
\<close>

lemma dh_set_config_eq:
  assumes "bn_laws N"
  shows "dh_set_config N b g prime_str h = (if of_be prime_str = 0 then None
    else Some (h\<lparr>dh_has_config := True, dh_prime := of_be prime_str, dh_prime_str := prime_str, dh_b := b, dh_g_int := g,
      dh_g := unat g, dh_g_b := unat g ^ b mod of_be prime_str\<rparr>))"
  using assms by (simp add: dh_set_config_def bn_laws_def Let_def)

lemma num_bits_bounds:
  assumes "bn_laws N" and "bn_num_bits N p = 2048"
  shows "2 ^ 2047 \<le> p" and "p < 2 ^ 2048"
proof -
  have b: "\<And>k. bn_num_bits N p \<le> k \<longleftrightarrow> p < 2 ^ k" using assms(1) by (simp add: bn_laws_def)
  show "p < 2 ^ 2048" using b [of 2048] assms(2) by simp
  have "\<not> bn_num_bits N p \<le> 2047" using assms(2) by simp
  then show "2 ^ 2047 \<le> p" using b [of 2047] by linarith
qed

lemma dh_check_OK:
  assumes "bn_laws N" and "dh_check N p g_a g_b = Some OK"
  shows "2 ^ 2047 \<le> p" "p < 2 ^ 2048" "2 ^ 1984 \<le> g_a" "g_a \<le> p - 2 ^ 1984" "2 ^ 1984 \<le> g_b" "g_b \<le> p - 2 ^ 1984"
proof -
  have n: "bn_num_bits N p = 2048" using assms(2) by (auto simp: dh_check_def split: if_splits)
  show "2 ^ 2047 \<le> p" "p < 2 ^ 2048" using num_bits_bounds [OF assms(1) n] by simp_all
  have e: "(2048 - 64 :: nat) = 1984" by simp
  have "\<not> (2 ^ 1984 > g_a \<or> g_a > p - 2 ^ 1984 \<or> 2 ^ 1984 > g_b \<or> g_b > p - 2 ^ 1984)"
    using assms(2) n unfolding dh_check_def Let_def e by (metis option.inject status.distinct(1))
  then show "2 ^ 1984 \<le> g_a" "g_a \<le> p - 2 ^ 1984" "2 ^ 1984 \<le> g_b" "g_b \<le> p - 2 ^ 1984" by linarith+
qed

lemma dh_run_checks_OK:
  assumes "dh_run_checks N skip cb h = Some (OK, evs)"
  shows "dh_has_g_a h" "dh_has_config h" "dh_has_g_a_hash h \<Longrightarrow> dh_ok_g_a_hash h" "dh_check N (dh_prime h) (dh_g_a h) (dh_g_b h) = Some OK"
    and "\<not> skip \<Longrightarrow> dh_check_config N cb (dh_prime_str h) (dh_prime h) (dh_g_int h) = (OK, evs)"
  using assms by (auto simp: dh_run_checks_def Let_def split: if_splits prod.splits)

section \<open>Properties\<close>

text \<open>
  C16. Two sides that use the same generator and prime and send each other their
  \<open>g_b\<close> compute the same key with the same identifier once one of them has run the checks: the
  256-byte big-endian form of the generator raised to the product of the two secrets, modulo the
  prime.
\<close>

theorem dh_agreement:
  assumes "bn_laws N" and "dh_set_config N a g prime_str h1 = Some ha" and "dh_set_config N b g prime_str h2 = Some hb"
    and "dh_get_g_b N ha = Some ga" and "dh_get_g_b N hb = Some gb"
    and "dh_run_checks N skip cb (dh_set_g_a L N gb ha) = Some (OK, evs)"
  shows "\<exists>key. dh_gen_key L N (dh_set_g_a L N gb ha) = Some (dh_calc_key_id L key, key) \<and>
    dh_gen_key L N (dh_set_g_a L N ga hb) = Some (dh_calc_key_id L key, key) \<and> length key = 256 \<and>
    of_be key = unat g ^ (a * b) mod of_be prime_str"
proof -
  let ?p = "of_be prime_str"
  have p0: "?p \<noteq> 0" using assms(2) dh_set_config_eq [OF assms(1)] by (auto split: if_splits)
  have ha: "ha = h1\<lparr>dh_has_config := True, dh_prime := ?p, dh_prime_str := prime_str, dh_b := a, dh_g_int := g,
      dh_g := unat g, dh_g_b := unat g ^ a mod ?p\<rparr>" using assms(2) p0 dh_set_config_eq [OF assms(1)] by simp
  have hb: "hb = h2\<lparr>dh_has_config := True, dh_prime := ?p, dh_prime_str := prime_str, dh_b := b, dh_g_int := g,
      dh_g := unat g, dh_g_b := unat g ^ b mod ?p\<rparr>" using assms(3) p0 dh_set_config_eq [OF assms(1)] by simp
  have bin: "\<And>n. bn_bin2bn N (to_binary N n) = n" using to_binary_roundtrip [OF assms(1)] .
  have ex: "\<And>x y. bn_mod_exp N x y ?p = Some (x ^ y mod ?p)" using assms(1) p0 by (simp add: bn_laws_def)
  have g: "ga = to_binary N (unat g ^ a mod ?p)" "gb = to_binary N (unat g ^ b mod ?p)"
    using assms(4,5) by (auto simp: dh_get_g_b_def ha hb)
  let ?k = "unat g ^ (a * b) mod ?p"
  have ab: "dh_get_g_ab N (dh_set_g_a L N gb ha) = Some ?k" "dh_get_g_ab N (dh_set_g_a L N ga hb) = Some ?k"
    by (simp_all add: dh_get_g_ab_def dh_set_g_a_def ha hb g bin ex power_mod power_mult [symmetric] mult.commute)
  have "?p < 2 ^ 2048"
    using dh_check_OK(2) [OF assms(1) dh_run_checks_OK(4) [OF assms(6)]] by (simp add: dh_set_g_a_def ha)
  then have "?k < 2 ^ 2048" using p0 by (meson mod_less_divisor not_gr_zero order.strict_trans)
  moreover have "(2::nat) ^ 2048 = 256 ^ 256" by simp
  ultimately have "?k < 256 ^ (2048 div 8)" by simp
  then obtain key where "to_binary_exact N (2048 div 8) ?k = Some key" "length key = 256" "of_be key = ?k"
    using to_binary_exact_returns [OF assms(1), of ?k "2048 div 8"] by auto
  then show ?thesis using ab by (simp add: dh_gen_key_def)
qed

definition sample_prime :: bytes where
  "sample_prime = replicate 256 255"

lemma of_le_ones: "of_le (replicate n 255) = 256 ^ n - 1"
proof (induction n)
  case (Suc n)
  obtain m :: nat where m: "256 ^ n = Suc m" by (metis gr0_implies_Suc zero_less_numeral zero_less_power)
  then show ?case using Suc by simp
qed simp

definition sample_p :: nat where
  "sample_p = 2 ^ 2048 - 1"

definition sample_pub :: "nat \<Rightarrow> nat" where
  "sample_pub b = 2 ^ b mod sample_p"

lemma sample_prime_value: "of_be sample_prime = sample_p"
  by (simp add: of_be_def sample_prime_def of_le_ones sample_p_def)

lemma sample_prime_bits: "bn_num_bits nat_bn sample_p = 2048"
proof -
  have "num_bits sample_p \<le> 2048" "\<not> num_bits sample_p \<le> 2047" unfolding num_bits_le sample_p_def by simp_all
  then show ?thesis by (simp add: nat_bn_def)
qed

lemma sample_check: "dh_check nat_bn sample_p (sample_pub 2001) (sample_pub 2000) = Some OK"
  unfolding dh_check_def Let_def sample_prime_bits unfolding sample_pub_def sample_p_def by simp

definition sample_dh :: "nat \<Rightarrow> dh_handshake" where
  "sample_dh b = dh_handshake_init\<lparr>dh_has_config := True, dh_prime := sample_p, dh_prime_str := sample_prime, dh_b := b,
     dh_g_int := 2, dh_g := 2, dh_g_b := sample_pub b\<rparr>"

lemma sample_config: "dh_set_config nat_bn b 2 sample_prime dh_handshake_init = Some (sample_dh b)"
proof -
  have "sample_p \<noteq> 0" by (simp add: sample_p_def)
  then show ?thesis
    unfolding dh_set_config_eq [OF nat_bn_laws] sample_prime_value sample_dh_def sample_pub_def by simp
qed

lemma sample_get: "dh_get_g_b nat_bn (sample_dh b) = Some (to_binary nat_bn (sample_pub b))"
  by (simp add: dh_get_g_b_def sample_dh_def)

definition sample_dh_run :: "crypto_lib \<Rightarrow> dh_handshake" where
  "sample_dh_run L = dh_set_g_a L nat_bn (to_binary nat_bn (sample_pub 2001)) (sample_dh 2000)"

lemma sample_run_fields:
  "dh_prime (sample_dh_run L) = sample_p" "dh_g_a (sample_dh_run L) = sample_pub 2001" "dh_g_b (sample_dh_run L) = sample_pub 2000"
  "dh_has_g_a (sample_dh_run L)" "dh_has_config (sample_dh_run L)" "\<not> dh_has_g_a_hash (sample_dh_run L)"
  "dh_prime_str (sample_dh_run L) = sample_prime" "dh_g_int (sample_dh_run L) = 2"
  by (simp_all add: sample_dh_run_def dh_set_g_a_def to_binary_roundtrip [OF nat_bn_laws] sample_dh_def dh_handshake_init_def)

theorem dh_agreement_witness:
  "\<exists>key. dh_gen_key toy_lib nat_bn (sample_dh_run toy_lib) = Some (dh_calc_key_id toy_lib key, key) \<and>
    dh_gen_key toy_lib nat_bn (dh_set_g_a toy_lib nat_bn (to_binary nat_bn (sample_pub 2000)) (sample_dh 2001)) =
      Some (dh_calc_key_id toy_lib key, key) \<and> length key = 256"
proof -
  have "dh_run_checks nat_bn True None (sample_dh_run toy_lib) = Some (OK, [])"
    using sample_check by (simp add: dh_run_checks_def sample_run_fields)
  then show ?thesis
    using dh_agreement [OF nat_bn_laws sample_config [of 2000] sample_config [of 2001] sample_get sample_get] sample_dh_run_def
    by metis
qed


lemma sample_checks: "dh_run_checks nat_bn False (Some (\<lambda>_. 1)) (sample_dh_run L) = Some (OK, [])"
proof -
  have s: "sint (2 :: u32) = 2" by simp
  have m: "bn_mod_word nat_bn sample_p 8 = 7" by (simp add: nat_bn_def sample_p_def)
  have "dh_check_config nat_bn (Some (\<lambda>_. 1)) sample_prime sample_p 2 = (OK, [])"
    unfolding dh_check_config_def sample_prime_bits dh_mod_ok_def s m by simp
  then show ?thesis using sample_check by (simp add: dh_run_checks_def sample_run_fields)
qed


end
