(* ===== verification/HandshakeProps.thy ===== *)
theory HandshakeProps
  imports HandshakeApi DhProps
begin

text \<open>
  The handshake as a state machine: what holds of the key whenever the handshake is about to finish.
\<close>

section \<open>Runs\<close>

text \<open>Everything the owner of a handshake can do with it, with any clocks, random numbers and messages.\<close>

inductive hs_step :: "crypto_lib \<Rightarrow> bn_lib \<Rightarrow> hs_api \<Rightarrow> handshake \<Rightarrow> handshake \<Rightarrow> bool" for L N A where
  timeout: "hs_step L N A h (hs_set_timeout_in now t h)"
| cleared: "hs_step L N A h (hs_clear now h)"
| finished: "hs_step L N A h (hs_on_finish now h)"
| resumed: "hs_resume A env h = Some (h', evs) \<Longrightarrow> hs_step L N A h h'"
| message: "hs_on_message n L N A env m h = Some (st, h', evs) \<Longrightarrow> hs_step L N A h h'"
| released: "hs_step L N A h (snd (release_auth_key h))"

inductive hs_reachable :: "crypto_lib \<Rightarrow> bn_lib \<Rightarrow> hs_api \<Rightarrow> handshake \<Rightarrow> bool" for L N A where
  new: "hs_reachable L N A (handshake_new now dc_id expires_in)"
| step: "hs_reachable L N A h \<Longrightarrow> hs_step L N A h h' \<Longrightarrow> hs_reachable L N A h'"

text \<open>
  The key is the result of a Diffie-Hellman exchange whose parameters came in an answer that was
  decrypted with the temporary key, matched its hash and both nonces, and passed the checks.
\<close>

definition key_agreed :: "crypto_lib \<Rightarrow> bn_lib \<Rightarrow> hs_api \<Rightarrow> handshake \<Rightarrow> bool" where
  "key_agreed L N A h \<longleftrightarrow>
     (\<exists>enc answer iv inner b k.
        k = hs_auth_key h \<and>
        aes_ige_decrypt L (fst (tmp_KDF L (hs_server_nonce h) (hs_new_nonce h)))
          (snd (tmp_KDF L (hs_server_nonce h) (hs_new_nonce h))) enc (length enc) = Some (answer, iv) \<and>
        parse_dh_answer L A answer h = Some (Inr inner) \<and>
        2 ^ 2047 \<le> of_be (di_dh_prime inner) \<and> of_be (di_dh_prime inner) < 2 ^ 2048 \<and>
        2 ^ 1984 \<le> of_be (di_g_a inner) \<and> of_be (di_g_a inner) \<le> of_be (di_dh_prime inner) - 2 ^ 1984 \<and>
        length (ak_key k) = 256 \<and> of_be (ak_key k) = of_be (di_g_a inner) ^ b mod of_be (di_dh_prime inner) \<and>
        ak_id k = dh_calc_key_id L (ak_key k) \<and> ak_created_at k = of_int (sint (di_server_time inner)) \<and>
        (hs_mode h = HsTemp \<longrightarrow> ak_expires_at k = hs_expires_at h) \<and>
        hs_server_salt h = u64_of_bytes (take 8 (hs_new_nonce h)) XOR u64_of_bytes (take 8 (hs_server_nonce h)))"

definition hs_inv :: "crypto_lib \<Rightarrow> bn_lib \<Rightarrow> hs_api \<Rightarrow> handshake \<Rightarrow> bool" where
  "hs_inv L N A h \<longleftrightarrow>
     (hs_state h = HsDHGenResponse \<or> hs_state h = HsFinish \<longrightarrow> ak_key (hs_auth_key h) \<noteq> [] \<longrightarrow> key_agreed L N A h)"

lemma parse_dh_answer_nonces:
  assumes "hs_nonce h' = hs_nonce h" and "hs_server_nonce h' = hs_server_nonce h"
  shows "parse_dh_answer L A answer h' = parse_dh_answer L A answer h"
  unfolding parse_dh_answer_def assms ..

text \<open>Only these parts of a handshake matter.\<close>

lemma key_agreed_cong:
  assumes "key_agreed L N A h" and "hs_auth_key h' = hs_auth_key h" and "hs_nonce h' = hs_nonce h"
    and "hs_server_nonce h' = hs_server_nonce h" and "hs_new_nonce h' = hs_new_nonce h" and "hs_mode h' = hs_mode h"
    and "hs_expires_at h' = hs_expires_at h" and "hs_server_salt h' = hs_server_salt h"
  shows "key_agreed L N A h'"
  using assms(1) unfolding key_agreed_def assms(2,4-8) parse_dh_answer_nonces [OF assms(3,4)] .

lemma hs_inv_start: "hs_state h = HsStart \<Longrightarrow> hs_inv L N A h"
  by (simp add: hs_inv_def)

lemma hs_clear_state [simp]: "hs_state (hs_clear now h) = HsStart"
  by (simp add: hs_clear_def)

lemma hs_send_Some: "hs_send A obj h = Some (h', evs) \<Longrightarrow> \<exists>bs. serialize (api_store A obj) = Some bs \<and> h' = h\<lparr>hs_last_query := bs\<rparr> \<and> evs = [HsSend bs]"
  by (auto simp: hs_send_def do_send_def)

lemma hs_inv_same:
  assumes "hs_inv L N A h" and "hs_state h' = hs_state h" and "hs_auth_key h' = hs_auth_key h" and "hs_nonce h' = hs_nonce h"
    and "hs_server_nonce h' = hs_server_nonce h" and "hs_new_nonce h' = hs_new_nonce h" and "hs_mode h' = hs_mode h"
    and "hs_expires_at h' = hs_expires_at h" and "hs_server_salt h' = hs_server_salt h"
  shows "hs_inv L N A h'"
  using assms(1) key_agreed_cong [OF _ assms(3-9)] unfolding hs_inv_def assms(2,3) by blast

section \<open>Messages\<close>

lemma send_req_DH_params_state:
  assumes "send_req_DH_params n L N A env res key p q h = Some (OK, h', evs)"
  shows "hs_state h' = HsServerDHParams"
  using assms by (auto simp: send_req_DH_params_def Let_def dest!: hs_send_Some split: option.splits if_splits prod.splits)

lemma fetch_result_error: "fetch_result f m b \<noteq> Some (Inl OK)"
  by (auto simp: fetch_result_def split: option.splits prod.splits)

lemma parse_dh_answer_error: "parse_dh_answer L A answer h \<noteq> Some (Inl OK)"
  by (auto simp: parse_dh_answer_def split: option.splits prod.splits)

lemma on_res_pq_state:
  assumes "on_res_pq n L N A env m h = Some (OK, h', evs)"
  shows "hs_state h' = HsServerDHParams \<or> hs_state h' = hs_state h"
  using assms fetch_result_error
  by (auto simp: on_res_pq_def Let_def dest!: send_req_DH_params_state split: option.splits if_splits sum.splits)

text \<open>What a successful \<open>finish_server_dh_params\<close> has computed.\<close>

lemma finish_server_dh_params_OK:
  assumes "finish_server_dh_params L N A env inner h = Some (OK, h', evs)"
  obtains d0 d evs1 g_b key_id key enc bs where
    "dh_set_config N (he_b env) (di_g inner) (di_dh_prime inner) dh_handshake_init = Some d0"
    and "d = dh_set_g_a L N (di_g_a inner) d0" and "dh_run_checks N False (he_dh_callback env) d = Some (OK, evs1)"
    and "dh_get_g_b N d = Some g_b" and "dh_gen_key L N d = Some (key_id, key)"
    and "hs_state h' = HsDHGenResponse" and "hs_nonce h' = hs_nonce h" and "hs_server_nonce h' = hs_server_nonce h"
    and "hs_new_nonce h' = hs_new_nonce h" and "hs_mode h' = hs_mode h" and "hs_expires_at h' = hs_expires_at h"
    and "hs_auth_key h' = (if hs_mode h = HsTemp then (auth_key_of key_id key)\<lparr>ak_expires_at := hs_expires_at h\<rparr>
           else auth_key_of key_id key)\<lparr>ak_created_at := of_int (sint (di_server_time inner))\<rparr>"
    and "hs_server_salt h' = u64_of_bytes (take 8 (hs_new_nonce h)) XOR u64_of_bytes (take 8 (hs_server_nonce h))"
  using assms unfolding finish_server_dh_params_def Let_def
  by (auto dest!: hs_send_Some split: option.splits prod.splits if_splits)


lemma dh_key_value:
  assumes N: "bn_laws N" and c: "dh_set_config N b g prime_str dh_handshake_init = Some d0" and d: "d = dh_set_g_a L N g_a d0"
    and r: "dh_run_checks N False cb d = Some (OK, evs)" and k: "dh_gen_key L N d = Some (key_id, key)"
  shows "2 ^ 2047 \<le> of_be prime_str" "of_be prime_str < 2 ^ 2048" "2 ^ 1984 \<le> of_be g_a"
    "of_be g_a \<le> of_be prime_str - 2 ^ 1984" "length key = 256" "of_be key = of_be g_a ^ b mod of_be prime_str"
    "key_id = dh_calc_key_id L key"
proof -
  have p0: "of_be prime_str \<noteq> 0" using c dh_set_config_eq [OF N] by (auto split: if_splits)
  have f: "dh_prime d = of_be prime_str" "dh_g_a d = of_be g_a" "dh_b d = b" "dh_has_g_a d" "dh_has_config d"
    using c p0 N unfolding d dh_set_config_eq [OF N] by (auto simp: dh_set_g_a_def bn_laws_def)
  note chk = dh_check_OK [OF N dh_run_checks_OK(4) [OF r], unfolded f]
  show "2 ^ 2047 \<le> of_be prime_str" "of_be prime_str < 2 ^ 2048" "2 ^ 1984 \<le> of_be g_a"
    "of_be g_a \<le> of_be prime_str - 2 ^ 1984" using chk by simp_all
  let ?k = "of_be g_a ^ b mod of_be prime_str"
  have ab: "dh_get_g_ab N d = Some ?k" using N p0 by (simp add: dh_get_g_ab_def f bn_laws_def)
  have "?k < 2 ^ 2048" using chk(2) p0 by (meson mod_less_divisor not_gr_zero order.strict_trans)
  moreover have "(2::nat) ^ 2048 = 256 ^ 256" by simp
  ultimately have "?k < 256 ^ (2048 div 8)" by simp
  then obtain key' where "to_binary_exact N (2048 div 8) ?k = Some key'" "length key' = 256" "of_be key' = ?k"
    using to_binary_exact_returns [OF N, of ?k "2048 div 8"] by auto
  then show "length key = 256" "of_be key = ?k" "key_id = dh_calc_key_id L key" using k ab by (auto simp: dh_gen_key_def)
qed

lemma on_server_dh_params_agreed:
  assumes N: "bn_laws N" and "on_server_dh_params L N A env m h = Some (OK, h', evs)"
  shows "key_agreed L N A h'"
proof -
  obtain enc answer iv inner where a: "aes_ige_decrypt L (fst (tmp_KDF L (hs_server_nonce h) (hs_new_nonce h)))
      (snd (tmp_KDF L (hs_server_nonce h) (hs_new_nonce h))) enc (length enc) = Some (answer, iv)"
    and i: "parse_dh_answer L A answer h = Some (Inr inner)"
    and f: "finish_server_dh_params L N A env inner h = Some (OK, h', evs)"
    using assms(2) fetch_result_error parse_dh_answer_error
    by (auto simp: on_server_dh_params_def Let_def split: option.splits if_splits sum.splits prod.splits)
  obtain d0 d evs1 g_b key_id key where c: "dh_set_config N (he_b env) (di_g inner) (di_dh_prime inner) dh_handshake_init = Some d0"
    "d = dh_set_g_a L N (di_g_a inner) d0" "dh_run_checks N False (he_dh_callback env) d = Some (OK, evs1)"
    "dh_gen_key L N d = Some (key_id, key)"
    and st: "hs_nonce h' = hs_nonce h" "hs_server_nonce h' = hs_server_nonce h"
      "hs_new_nonce h' = hs_new_nonce h" "hs_mode h' = hs_mode h" "hs_expires_at h' = hs_expires_at h"
      "hs_auth_key h' = (if hs_mode h = HsTemp then (auth_key_of key_id key)\<lparr>ak_expires_at := hs_expires_at h\<rparr>
           else auth_key_of key_id key)\<lparr>ak_created_at := of_int (sint (di_server_time inner))\<rparr>"
      "hs_server_salt h' = u64_of_bytes (take 8 (hs_new_nonce h)) XOR u64_of_bytes (take 8 (hs_server_nonce h))"
    using finish_server_dh_params_OK [OF f] by metis
  note v = dh_key_value [OF N c]
  have i': "parse_dh_answer L A answer h' = Some (Inr inner)" using i parse_dh_answer_nonces [OF st(1,2)] by simp
  have k: "ak_key (hs_auth_key h') = key" "ak_id (hs_auth_key h') = key_id"
    "ak_created_at (hs_auth_key h') = of_int (sint (di_server_time inner))"
    "hs_mode h' = HsTemp \<longrightarrow> ak_expires_at (hs_auth_key h') = hs_expires_at h'"
    unfolding st by (simp_all add: auth_key_of_def)
  show ?thesis
    unfolding key_agreed_def
    by (rule exI [of _ enc], rule exI [of _ answer], rule exI [of _ iv], rule exI [of _ inner], rule exI [of _ "he_b env"],
        rule exI [of _ "hs_auth_key h'"]) (use a i' k v st(2,3,7) in simp)
qed


lemma on_dh_gen_response_OK:
  assumes "on_dh_gen_response L A m h = Some (OK, h', evs)"
  shows "h' = h\<lparr>hs_state := HsFinish\<rparr>" and "evs = []"
    and "fetch_result (api_fetch_dh_gen A) m False =
      Some (Inr (DhGenOk (hs_nonce h) (hs_server_nonce h) (new_nonce_hash L (hs_new_nonce h) (ak_key (hs_auth_key h)))))"
  using assms fetch_result_error
  by (auto simp: on_dh_gen_response_def split: option.splits sum.splits dh_gen_answer.splits if_splits)

lemma hs_on_message_cases:
  assumes "hs_on_message n L N A env m h = Some (st, h', evs)"
  obtains (failed) "st \<noteq> OK" "hs_state h' = HsStart"
    | (res_pq) "hs_state h = HsResPQ" "st = OK" "on_res_pq n L N A env m h = Some (OK, h', evs)"
    | (dh_params) "hs_state h = HsServerDHParams" "st = OK" "on_server_dh_params L N A env m h = Some (OK, h', evs)"
    | (dh_gen) "hs_state h = HsDHGenResponse" "st = OK" "on_dh_gen_response L A m h = Some (OK, h', evs)"
  using assms unfolding hs_on_message_def by (cases "hs_state h") (auto split: option.splits if_splits)

lemma hs_inv_message:
  assumes N: "bn_laws N" and inv: "hs_inv L N A h" and m: "hs_on_message n L N A env m h = Some (st, h', evs)"
  shows "hs_inv L N A h'"
  using m
proof (cases rule: hs_on_message_cases)
  case failed
  then show ?thesis by (simp add: hs_inv_start)
next
  case res_pq
  then show ?thesis using on_res_pq_state [OF res_pq(3)] by (auto simp: hs_inv_def)
next
  case dh_params
  then show ?thesis using on_server_dh_params_agreed [OF N dh_params(3)] by (simp add: hs_inv_def)
next
  case dh_gen
  have "key_agreed L N A h'" if "ak_key (hs_auth_key h) \<noteq> []"
    using inv dh_gen(1) that on_dh_gen_response_OK(1) [OF dh_gen(3)]
    by (intro key_agreed_cong [of L N A h h']) (simp_all add: hs_inv_def)
  then show ?thesis using on_dh_gen_response_OK(1) [OF dh_gen(3)] by (simp add: hs_inv_def)
qed

lemma hs_inv_resume:
  assumes "hs_inv L N A h" and "hs_resume A env h = Some (h', evs)"
  shows "hs_inv L N A h'"
proof (cases "h' = h")
  case False
  then have "hs_state h' = HsStart \<or> hs_state h' = HsResPQ"
    using assms(2) by (auto simp: hs_resume_def on_start_def dest!: hs_send_Some split: if_splits option.splits)
  then show ?thesis by (auto simp: hs_inv_def)
qed (use assms in simp)

lemma hs_inv_step:
  assumes N: "bn_laws N" and "hs_step L N A h h'" and "hs_inv L N A h"
  shows "hs_inv L N A h'"
  using assms(2,3)
proof cases
  case (timeout now t)
  then show ?thesis using assms(3) by (intro hs_inv_same [of L N A h h']) (simp_all add: hs_set_timeout_in_def)
next
  case (resumed env evs)
  then show ?thesis using assms(3) hs_inv_resume by blast
next
  case (message n env m st evs)
  then show ?thesis using assms(3) hs_inv_message [OF N] by blast
next
  case released
  then show ?thesis by (simp add: hs_inv_def release_auth_key_def ak_clear_def)
qed (simp_all add: hs_inv_start hs_on_finish_def)

lemma hs_inv_reachable:
  assumes N: "bn_laws N" and "hs_reachable L N A h"
  shows "hs_inv L N A h"
  using assms(2)
proof induction
  case (new now dc_id expires_in)
  show ?case by (rule hs_inv_start) (simp add: handshake_new_def)
next
  case (step h h')
  then show ?case using hs_inv_step [OF N] by blast
qed

lemma finish_authentic:
  assumes N: "bn_laws N" and "hs_reachable L N A h" and m: "hs_on_message n L N A env m h = Some (st, h', evs)"
    and "is_ready_for_finish h'" and "ak_key (hs_auth_key h) \<noteq> []"
  shows "st = OK \<and> key_agreed L N A h' \<and> fetch_result (api_fetch_dh_gen A) m False =
    Some (Inr (DhGenOk (hs_nonce h') (hs_server_nonce h') (new_nonce_hash L (hs_new_nonce h') (ak_key (hs_auth_key h')))))"
  using m
proof (cases rule: hs_on_message_cases)
  case res_pq
  then show ?thesis using on_res_pq_state [OF res_pq(3)] assms(4) by (simp add: is_ready_for_finish_def)
next
  case dh_params
  then obtain inner where "finish_server_dh_params L N A env inner h = Some (OK, h', evs)"
    using fetch_result_error parse_dh_answer_error
    by (auto simp: on_server_dh_params_def Let_def split: option.splits if_splits sum.splits prod.splits)
  then have "hs_state h' = HsDHGenResponse" by (rule finish_server_dh_params_OK)
  then show ?thesis using assms(4) by (simp add: is_ready_for_finish_def)
next
  case dh_gen
  note g = on_dh_gen_response_OK [OF dh_gen(3)]
  have "hs_inv L N A h'" using hs_inv_message [OF N hs_inv_reachable [OF N assms(2)] m] .
  then show ?thesis using g assms(5) dh_gen(2) by (simp add: hs_inv_def)
qed (use assms(4) in \<open>simp add: is_ready_for_finish_def\<close>)

end
