(* ===== verification/FactorProps.thy ===== *)
theory FactorProps
  imports Factor
begin

text \<open>
  \<open>pq_factorize\<close> ends on every input and returns two factors of its argument.
\<close>

section \<open>The word arithmetic\<close>

lemma even_word: "(a AND 1 = (0 :: u64)) = even (unat a)"
proof -
  have "(a AND 1 = 0) = (unat (a AND 1) = 0)" by (metis unat_eq_zero)
  also have "unat (a AND 1) = unat a mod 2" by (simp add: and_one_eq unat_mod_distrib)
  finally show ?thesis by (simp add: even_iff_mod_2_eq_zero)
qed

lemma odd_part_spec:
  "a \<noteq> 0 \<Longrightarrow> \<exists>b k. odd_part a = Some b \<and> odd (unat b) \<and> unat a = unat b * 2 ^ k"
proof (induction a rule: odd_part.induct)
  case (1 a)
  show ?case
  proof (cases "a AND 1 = 0")
    case True
    then obtain h where h: "unat a = 2 * h" using even_word by (auto elim: evenE)
    have "0 < unat a" using 1(2) by (simp add: unat_gt_0)
    then have "unat (drop_bit 1 a) = h" "0 < h" using h by (simp_all add: unat_half)
    then have "drop_bit 1 a \<noteq> 0" by auto
    then obtain b k where b: "odd_part (drop_bit 1 a) = Some b" "odd (unat b)" "unat (drop_bit 1 a) = unat b * 2 ^ k"
      using 1(1) [OF 1(2) True] by blast
    then have "unat a = unat b * 2 ^ Suc k" using h \<open>unat (drop_bit 1 a) = h\<close> by simp
    moreover have "odd_part a = Some b" using odd_part.simps [of a] 1(2) True b(1) by simp
    ultimately show ?thesis using b(2) by blast
  next
    case False
    then have "odd_part a = Some a" using odd_part.simps [of a] 1(2) by simp
    moreover have "odd (unat a)" using False even_word by blast
    ultimately show ?thesis by (intro exI [of _ a] exI [of _ 0]) simp
  qed
qed

lemma odd_part_gcd:
  assumes "a \<noteq> 0" and "odd n"
  shows "\<exists>b. odd_part a = Some b \<and> odd (unat b) \<and> gcd (unat b) n = gcd (unat a) n"
proof -
  obtain b k where b: "odd_part a = Some b" "odd (unat b)" "unat a = unat b * 2 ^ k" using odd_part_spec [OF assms(1)] by blast
  have "coprime n (2 ^ k)" using assms(2) by simp
  then have "gcd (unat b * 2 ^ k) n = gcd (unat b) n" by (simp add: gcd_mult_right_right_cancel gcd.commute)
  then show ?thesis using b by metis
qed

lemma gcd_half_diff:
  fixes a b :: nat
  assumes "odd a" and "odd b" and "b < a"
  shows "gcd ((a - b) div 2) b = gcd a b"
proof -
  have "even (a - b)" using assms by simp
  then have "a - b = 2 * ((a - b) div 2)" by simp
  then have "gcd (a - b) b = gcd (2 * ((a - b) div 2)) b" by simp
  also have "\<dots> = gcd ((a - b) div 2) b"
    using gcd_mult_left_left_cancel [of b 2 "(a - b) div 2"] assms(2) by simp
  finally show ?thesis using gcd_diff1_nat [of b a] assms(3) by simp
qed

lemma pq_gcd_loop_spec:
  "odd (unat a) \<Longrightarrow> odd (unat b) \<Longrightarrow> \<exists>g. pq_gcd_loop a b = Some g \<and> unat g = gcd (unat a) (unat b)"
proof (induction a b rule: pq_gcd_loop.induct)
  case (1 a b)
  have step: "\<exists>x'. odd_part (drop_bit 1 (x - y)) = Some x' \<and> odd (unat x') \<and> gcd (unat x') (unat y) = gcd (unat x) (unat y)"
    if "y < x" "odd (unat x)" "odd (unat y)" for x y :: u64
  proof -
    have l: "unat y < unat x" using that(1) by (simp add: word_less_nat_alt)
    have h: "unat (drop_bit 1 (x - y)) = (unat x - unat y) div 2" using unat_half_diff [OF that(1)] by simp
    have "even (unat x - unat y)" "0 < unat x - unat y" using that l by auto
    then have "0 < (unat x - unat y) div 2" using dvd_div_eq_0_iff [of 2 "unat x - unat y"] by linarith
    then have "drop_bit 1 (x - y) \<noteq> 0" using h by auto
    then show ?thesis using odd_part_gcd [OF _ that(3)] h gcd_half_diff [OF that(2,3) l] by metis
  qed
  consider "b < a" | "a < b" | "a = b" by (meson linorder_cases)
  then show ?case
  proof cases
    case gt: 1
    obtain a' where a': "odd_part (drop_bit 1 (a - b)) = Some a'" "odd (unat a')" "gcd (unat a') (unat b) = gcd (unat a) (unat b)"
      using step [OF gt 1(3,4)] by blast
    then show ?thesis using 1(1) [OF gt a'(1)] 1(4) pq_gcd_loop.simps [of a b] gt by simp
  next
    case 2
    obtain b' where b': "odd_part (drop_bit 1 (b - a)) = Some b'" "odd (unat b')" "gcd (unat b') (unat a) = gcd (unat b) (unat a)"
      using step [OF 2 1(4,3)] by blast
    have n: "\<not> b < a" using 2 by simp
    then show ?thesis using 1(2) [OF n 2 b'(1)] 1(3) b' pq_gcd_loop.simps [of a b] 2 by (simp add: gcd.commute)
  next
    case 3
    then show ?thesis using pq_gcd_loop.simps [of a b] by simp
  qed
qed

lemma pq_gcd_spec:
  assumes "odd (unat b)"
  shows "\<exists>g. pq_gcd a b = Some g \<and> unat g = gcd (unat a) (unat b)"
proof (cases "a = 0")
  case False
  then obtain a' where "odd_part a = Some a'" "odd (unat a')" "gcd (unat a') (unat b) = gcd (unat a) (unat b)"
    using odd_part_gcd [OF _ assms] by blast
  then show ?thesis using pq_gcd_loop_spec [of a' b] assms False by (simp add: pq_gcd_def)
qed (simp add: pq_gcd_def)

lemma reduce_once:
  fixes a b pq :: u64
  assumes "unat a < unat pq" and "unat b < unat pq" and "unat pq \<le> 2 ^ 63"
  shows "unat (let c = a + b in if c \<ge> pq then c - pq else c) = (unat a + unat b) mod unat pq"
proof -
  have "unat a + unat b < 2 ^ 64" using assms by simp
  then have s: "unat (a + b) = unat a + unat b" by (simp add: unat_add_lem [where ?'a = 64, symmetric])
  show ?thesis
  proof (cases "pq \<le> a + b")
    case True
    then have "unat pq \<le> unat a + unat b" using s by (simp add: word_le_nat_alt)
    moreover have "unat (a + b - pq) = unat a + unat b - unat pq" using True s by (simp add: unat_sub)
    moreover have "unat a + unat b - unat pq < unat pq" using assms by linarith
    ultimately show ?thesis using True by (simp add: mod_if)
  next
    case False
    then have "unat a + unat b < unat pq" using s by (simp add: word_le_nat_alt)
    then show ?thesis using False s by simp
  qed
qed

lemma mod_add_mult: "(x mod m + y mod m * k) mod m = (x + y * k) mod (m :: nat)"
  by (rule mod_add_cong) (simp_all add: mod_mult_left_eq)

lemma pq_add_mul_spec:
  "unat c < unat pq \<Longrightarrow> unat a < unat pq \<Longrightarrow> unat pq \<le> 2 ^ 63 \<Longrightarrow>
    unat (pq_add_mul c a b pq) = (unat c + unat a * unat b) mod unat pq"
proof (induction c a b pq rule: pq_add_mul.induct)
  case (1 c a b pq)
  show ?case
  proof (cases "b = 0")
    case True
    then show ?thesis using 1(2) pq_add_mul.simps [of c a b pq] by simp
  next
    case False
    define c1 where "c1 = (if b AND 1 \<noteq> 0 then (let c' = c + a in if c' \<ge> pq then c' - pq else c') else c)"
    define a1 where "a1 = (let a' = a + a in if a' \<ge> pq then a' - pq else a')"
    have pos: "0 < unat pq" using 1(2) by linarith
    have a1: "unat a1 = (unat a + unat a) mod unat pq" unfolding a1_def by (rule reduce_once [OF 1(3,3,4)])
    have c1: "unat c1 = (unat c + unat a * (unat b mod 2)) mod unat pq"
    proof (cases "b AND 1 = 0")
      case True
      then have "unat b mod 2 = 0" using even_word [of b] by presburger
      then show ?thesis using True 1(2) by (simp add: c1_def)
    next
      case False
      then have "unat b mod 2 = 1" using even_word [of b] by presburger
      then show ?thesis using False reduce_once [OF 1(2,3,4)] by (simp add: c1_def)
    qed
    have "pq_add_mul c a b pq = pq_add_mul c1 a1 (drop_bit 1 b) pq"
      using False pq_add_mul.simps [of c a b pq] unfolding c1_def a1_def Let_def by simp
    also have "unat \<dots> = (unat c1 + unat a1 * unat (drop_bit 1 b)) mod unat pq"
      using 1(1) [OF False c1_def a1_def] a1 c1 pos 1(4) by simp
    also have "\<dots> = (unat c + unat a * (unat b mod 2) + (unat a + unat a) * (unat b div 2)) mod unat pq"
      unfolding a1 c1 mod_add_mult by (simp add: unat_half)
    also have "unat c + unat a * (unat b mod 2) + (unat a + unat a) * (unat b div 2) = unat c + unat a * unat b"
    proof -
      define h r where "h = unat b div 2" and "r = unat b mod 2"
      have "unat b = 2 * h + r" by (simp add: h_def r_def)
      then show ?thesis unfolding h_def [symmetric] r_def [symmetric] by (simp add: algebra_simps)
    qed
    finally show ?thesis .
  qed
qed

section \<open>The search\<close>

lemma pq_rounds_spec:
  assumes pq: "odd (unat pq)" "unat pq \<le> 2 ^ 63" and q: "unat q < unat pq"
  shows "unat x < unat pq \<Longrightarrow> 0 < n \<Longrightarrow> \<exists>g' iter'. pq_rounds n q pq x y j iter g = Some (g', iter') \<and> unat g' dvd unat pq"
proof (induction n arbitrary: x y j iter g)
  case (Suc n)
  let ?x = "pq_add_mul q x x pq"
  let ?z = "if ?x < y then pq + ?x - y else ?x - y"
  obtain g' where g': "pq_gcd ?z pq = Some g'" "unat g' = gcd (unat ?z) (unat pq)" using pq_gcd_spec [OF pq(1)] by blast
  then have d: "unat g' dvd unat pq" by simp
  have x': "unat ?x < unat pq" using pq_add_mul_spec [OF q Suc.prems(1) pq(2)] q by simp
  show ?case
  proof (cases "g' = 1 \<and> 0 < n")
    case True
    then show ?thesis using Suc.IH [OF x', of "if j AND (j - 1) = 0 then ?x else y" "j + 1" "iter + 1" g'] g'(1)
      by (simp add: Let_def)
  next
    case False
    then show ?thesis using g'(1) d by (cases "g' = 1") (simp_all add: Let_def)
  qed
qed simp

lemma pq_search_spec:
  "odd (unat pq) \<Longrightarrow> unat pq \<le> 2 ^ 63 \<Longrightarrow> 1 < unat pq \<Longrightarrow> i = 0 \<or> unat g dvd unat pq \<Longrightarrow>
    \<exists>g'. pq_search rnd pq i iter g = Some g' \<and> unat g' dvd unat pq"
proof (induction rnd pq i iter g rule: pq_search.induct)
  case (1 rnd pq i iter g)
  show ?case
  proof (cases "i < 3 \<or> iter < 1000")
    case True
    let ?q = "fst (rnd i) mod (pq - 1)" and ?x = "snd (rnd i) mod (pq - 1) + 1"
    have p1: "unat (pq - 1) = unat pq - 1" using 1(4) by (intro unat_minus_one) auto
    have pos: "0 < unat pq - 1" using 1(4) by simp
    have q: "unat ?q < unat pq - 1" "unat (snd (rnd i) mod (pq - 1)) < unat pq - 1"
      using pos by (simp_all add: unat_mod_distrib p1)
    have "unat (snd (rnd i) mod (pq - 1)) + unat (1 :: u64) < 2 ^ 64" using q(2) 1(3) by simp
    then have x: "unat ?x = unat (snd (rnd i) mod (pq - 1)) + 1"
      using unat_add_lem [of "snd (rnd i) mod (pq - 1)" 1] by simp
    have "(2::nat) ^ 1 < 2 ^ (min 5 i + 18)" by (rule power_strict_increasing) simp_all
    then have l: "0 < pq_limit i - 1" by (simp add: pq_limit_def)
    obtain g' iter' where r: "pq_rounds (pq_limit i - 1) ?q pq ?x ?x 1 iter g = Some (g', iter')" and d: "unat g' dvd unat pq"
      using pq_rounds_spec [OF 1(2,3) _ _ l, of ?q ?x] q x by fastforce
    show ?thesis
    proof (cases "1 < g' \<and> g' < pq")
      case True': True
      then show ?thesis using r d True pq_search.simps [of rnd pq i iter g] by (simp add: Let_def)
    next
      case False
      then show ?thesis
        using 1(1) [OF True refl refl r refl False 1(2,3,4)] r d True pq_search.simps [of rnd pq i iter g] by (simp add: Let_def)
    qed
  next
    case False
    then show ?thesis using 1(5) pq_search.simps [of rnd pq i iter g] by auto
  qed
qed

lemma pq_factorize_spec:
  "\<exists>p. pq_factorize rnd pq = Some p \<and> unat p dvd unat pq \<and> p \<noteq> 0 \<and> (pq \<noteq> 0 \<longrightarrow> unat p * unat p \<le> unat pq)"
proof (cases "pq \<le> 2 \<or> pq > push_bit 63 1")
  case True
  have "pq \<noteq> 0 \<Longrightarrow> 1 \<le> unat pq" using unat_gt_0 [of pq] by linarith
  then show ?thesis using True by (simp add: pq_factorize_def)
next
  case False
  have b: "2 < unat pq" "unat pq \<le> 2 ^ 63" using False by (auto simp: word_le_nat_alt word_less_nat_alt)
  show ?thesis
  proof (cases "pq AND 1 = 0")
    case True
    then have e: "even (unat pq)" using even_word by blast
    then have "4 \<le> unat pq" using b(1) by presburger
    then show ?thesis using True False e by (simp add: pq_factorize_def)
  next
    case odd: False
    then have o: "odd (unat pq)" using even_word by blast
    obtain g where g: "pq_search rnd pq 0 0 0 = Some g" "unat g dvd unat pq"
      using pq_search_spec [OF o b(2)] b(1) by (metis One_nat_def Suc_lessD numeral_2_eq_2)
    have g0: "0 < unat g" using g(2) b(1) by (cases "unat g = 0") auto
    then have gn: "g \<noteq> 0" by auto
    define h where "h = pq div g"
    have h: "unat h = unat pq div unat g" by (simp add: h_def unat_div_distrib)
    then have m: "unat h * unat g = unat pq" using g(2) by simp
    then have h0: "0 < unat h" using b(1) by (cases "unat h = 0") auto
    define p where "p = (if h < g then h else g)"
    have "unat h dvd unat pq" using m by (metis dvd_triv_left)
    then have "unat p dvd unat pq" using g(2) by (simp add: p_def)
    moreover have "unat p * unat p \<le> unat pq"
      using m [symmetric] by (simp add: p_def word_less_nat_alt mult_le_mono)
    moreover have "p \<noteq> 0" using h0 g0 by (auto simp: p_def)
    moreover have "pq_factorize rnd pq = Some p" using False odd g(1) gn by (simp add: pq_factorize_def p_def h_def)
    ultimately show ?thesis by blast
  qed
qed

lemma pq_rounds_big_spec:
  assumes N: "bn_laws N" and pq: "0 < pq"
  shows "\<exists>r iter'. pq_rounds_big N n t pq a b j iter = Some (r, iter') \<and> (\<forall>p. r = Some p \<longrightarrow> p dvd pq)"
proof (induction n arbitrary: a b j iter)
  case (Suc n)
  have m: "bn_mod_mul N a a pq = Some (a * a mod pq)" "\<And>q. bn_gcd N q pq = Some (gcd q pq)" using N pq by (simp_all add: bn_laws_def)
  show ?case using Suc.IH by (simp add: m Let_def)
qed simp

lemma pq_search_big_spec:
  "bn_laws N \<Longrightarrow> 0 < pq \<Longrightarrow> \<exists>r. pq_search_big N rnd pq i iter = Some r \<and> (\<forall>p. r = Some p \<longrightarrow> p dvd pq)"
proof (induction N rnd pq i iter rule: pq_search_big.induct)
  case (1 N rnd pq i iter)
  show ?case
  proof (cases "i < 3 \<or> iter < 1000")
    case True
    obtain r iter' where r: "pq_rounds_big N (2 ^ (i + 23) - 1) (unat (fst (rnd i))) pq (unat (snd (rnd i))) (unat (snd (rnd i))) 1 iter =
        Some (r, iter')" "\<forall>p. r = Some p \<longrightarrow> p dvd pq" using pq_rounds_big_spec [OF 1(2,3)] by blast
    show ?thesis
    proof (cases r)
      case None
      then show ?thesis
        using 1(1) [OF True refl refl r(1) refl None 1(2,3)] True r(1) pq_search_big.simps [of N rnd pq i iter] by simp
    next
      case (Some p)
      then show ?thesis using True r pq_search_big.simps [of N rnd pq i iter] by simp
    qed
  qed (simp add: pq_search_big.simps [of N rnd pq i iter])
qed

section \<open>Strings\<close>

lemma of_be_dropWhile: "of_be (dropWhile (\<lambda>b. b = 0) bs) = of_be bs"
proof -
  have "takeWhile (\<lambda>b. b = 0) bs = replicate (length (takeWhile (\<lambda>b. b = 0) bs)) 0"
    by (rule replicate_eqI) (auto dest: set_takeWhileD)
  then have "bs = replicate (length (takeWhile (\<lambda>b. b = 0) bs)) 0 @ dropWhile (\<lambda>b. b = 0) bs"
    by (metis takeWhile_dropWhile_id)
  then show ?thesis using of_be_zeros by metis
qed

lemma of_be_big_endian: "of_be (as_big_endian_string x) = unat x"
proof -
  have "unat x < 2 ^ 64" using unsigned_less [of x] by simp
  then show ?thesis by (simp add: as_big_endian_string_def of_be_dropWhile) (simp add: of_be_def bytes_of_u64_def le_simps)
qed

lemma of_be_eq_0: "of_be s = 0 \<Longrightarrow> s = replicate (length s) 0"
  using of_be_inject [of s "replicate (length s) 0"] of_be_zeros [of "length s" "[]"] by (simp add: of_be_def)

lemma push_byte:
  assumes "unat (v :: u64) < 2 ^ 56"
  shows "unat (push_bit 8 v OR ucast (b :: byte)) = 256 * unat v + unat b"
proof -
  have u: "unat b < 256" using unsigned_less [of b] by simp
  have "\<not> bit (push_bit 8 v) n \<or> \<not> bit (ucast b :: u64) n" for n
    by (auto simp: bit_push_bit_iff bit_ucast_iff dest: bit_imp_le_length)
  then have "push_bit 8 v OR ucast b = push_bit 8 v + ucast b" by (rule disjunctive_add [symmetric])
  moreover have "unat (push_bit 8 v) = 256 * unat v" using assms by (simp add: push_bit_eq_mult unat_word_ariths(2))
  moreover have "unat (ucast b :: u64) = unat b" using u by (simp add: unsigned_ucast_eq take_bit_eq_mod)
  ultimately show ?thesis using assms u by (simp add: unat_word_ariths(1))
qed

lemma of_be_snoc: "of_be (bs @ [b]) = 256 * of_be bs + unat b"
  by (simp add: of_be_def)

lemma foldl_value:
  "length bs \<le> 8 \<Longrightarrow> unat (foldl (\<lambda>pq b. push_bit 8 pq OR ucast b) (0 :: u64) bs) = of_be bs"
proof (induction bs rule: rev_induct)
  case (snoc b bs)
  have "of_be bs < 256 ^ length bs" by (rule of_be_bound)
  also have "\<dots> \<le> 256 ^ 7" using snoc.prems by (intro power_increasing) simp_all
  finally have "of_be bs < 2 ^ 56" by simp
  then show ?case using snoc push_byte of_be_snoc by simp
qed (simp add: of_be_def)

lemma pq_factorize_big_spec:
  assumes N: "bn_laws N" and pos: "0 < of_be s"
  shows "\<exists>r. pq_factorize_big N rnd s = Some r \<and> (\<forall>p q. r = Some (p, q) \<longrightarrow> of_be p * of_be q = of_be s \<and> of_be p \<le> of_be q)"
proof -
  have b: "bn_bin2bn N s = of_be s" "\<And>n. of_be (to_binary N n) = n"
    "\<And>a b. bn_div N a b = (if b = 0 then None else Some (a div b))"
    using N by (simp_all add: bn_laws_def to_binary_def)
  obtain r where r: "pq_search_big N rnd (of_be s) 0 0 = Some r" "\<forall>p. r = Some p \<longrightarrow> p dvd of_be s"
    using pq_search_big_spec [OF N pos] by blast
  show ?thesis
  proof (cases r)
    case None
    then show ?thesis using r by (simp add: pq_factorize_big_def b Let_def)
  next
    case (Some p)
    then have p: "p dvd of_be s" "p \<noteq> 0" using r(2) pos by auto
    then have "p * (of_be s div p) = of_be s" by simp
    then show ?thesis using r Some p(2) by (simp add: pq_factorize_big_def b Let_def mult.commute)
  qed
qed

text \<open>
  C19. \<open>pq_factorize\<close> ends for every number the server can send, whatever the
  random numbers, and never aborts, except for more than eight zero bytes.  Two factors it returns
  multiply to the number, the smaller one first.  For numbers of at most seven bytes it always
  returns two factors.
\<close>

theorem pq_factorize_correct:
  assumes "bn_laws N" and "length s < 2 ^ 31" and "of_be s \<noteq> 0 \<or> length s \<le> 8"
  shows "\<exists>r. pq_factorize_str N rnd rnd_big s = Some r \<and>
    (\<forall>p q. r = Some (p, q) \<longrightarrow> of_be p * of_be q = of_be s \<and> (of_be s \<noteq> 0 \<longrightarrow> of_be p \<le> of_be q)) \<and>
    (length s < 8 \<longrightarrow> r \<noteq> None)"
proof -
  have sz: "sint (of_nat (length s) :: u32) = int (length s)"
    using assms(2) by (rule sint_of_nat_u32)
  show ?thesis
  proof (cases "8 < length s \<or> (length s = 8 \<and> s ! 0 AND 128 \<noteq> 0)")
    case True
    have "0 < of_be s"
    proof (rule ccontr)
      assume "\<not> 0 < of_be s"
      then have z: "s = replicate (length s) 0" "length s \<le> 8" using of_be_eq_0 assms(3) by simp_all
      then have "length s = 8" "s ! 0 AND 128 \<noteq> 0" using True by linarith+
      then show False using z(1) by (metis and_zero_eq(1) bit.conj_zero_left nth_replicate zero_less_numeral)
    qed
    then show ?thesis using pq_factorize_big_spec [OF assms(1)] True sz by (auto simp: pq_factorize_str_def Let_def)
  next
    case False
    then have l: "length s \<le> 8" by linarith
    let ?pq = "foldl (\<lambda>pq b. push_bit 8 pq OR ucast b) (0 :: u64) s"
    have v: "unat ?pq = of_be s" by (rule foldl_value [OF l])
    obtain p where p: "pq_factorize rnd ?pq = Some p" "unat p dvd unat ?pq" "p \<noteq> 0" "?pq \<noteq> 0 \<longrightarrow> unat p * unat p \<le> unat ?pq"
      using pq_factorize_spec by blast
    have "unat (?pq mod p) = 0" using p(2) by (simp add: unat_mod_distrib)
    then have m: "?pq mod p = 0" by (simp add: unat_eq_zero)
    have r: "pq_factorize_str N rnd rnd_big s = Some (Some (as_big_endian_string p, as_big_endian_string (?pq div p)))"
      using False l sz p(1,3) m by (auto simp: pq_factorize_str_def Let_def)
    have d: "unat (?pq div p) = unat ?pq div unat p" by (simp add: unat_div_distrib)
    have "unat p * (unat ?pq div unat p) = unat ?pq" using p(2) by simp
    moreover have "?pq \<noteq> 0 \<longrightarrow> unat p \<le> unat ?pq div unat p"
      using p(3,4) by (simp add: less_eq_div_iff_mult_less_eq unat_gt_0)
    ultimately show ?thesis using r v d by (auto simp: of_be_big_endian)
  qed
qed

theorem pq_factorize_correct_witness:
  "\<exists>p q. pq_factorize_str nat_bn (\<lambda>_. (17, 3)) (\<lambda>_. (17, 3)) [1, 21] = Some (Some (p, q)) \<and>
    of_be p * of_be q = 277 \<and> of_be p \<le> of_be q"
proof -
  have v: "of_be [1, 21] = 277" by (simp add: of_be_def)
  show ?thesis
    using pq_factorize_correct [OF nat_bn_laws, of "[1, 21]" "\<lambda>_. (17, 3)" "\<lambda>_. (17, 3)"] unfolding v by fastforce
qed

text \<open>
  C39. A server that sends more than eight zero bytes as the number to factorize makes
  the client abort: the big-number loop multiplies modulo zero, which OpenSSL refuses, and the
  wrapper treats a refused operation as fatal.
\<close>

theorem pq_zero_aborts:
  assumes "bn_laws N" and "8 < length s" and "length s < 2 ^ 31" and "of_be s = 0"
  shows "pq_factorize_str N rnd rnd_big s = None"
proof -
  have sz: "sint (of_nat (length s) :: u32) = int (length s)" using assms(3) by (rule sint_of_nat_u32)
  have "(0::nat) < 2 ^ (0 + 23) - 1" by simp
  then obtain n where n: "(2::nat) ^ (0 + 23) - 1 = Suc n" using gr0_implies_Suc by blast
  have "bn_mod_mul N a a 0 = None" for a using assms(1) by (simp add: bn_laws_def)
  then have "pq_rounds_big N (2 ^ (0 + 23) - 1) t 0 a b j iter = None" for t a b j iter unfolding n by simp
  then have "pq_search_big N rnd_big 0 0 0 = None"
    unfolding pq_search_big.simps [of N rnd_big 0 0 0] Let_def by simp
  then show ?thesis
    using assms sz by (simp add: pq_factorize_str_def pq_factorize_big_def Let_def bn_laws_def)
qed

theorem pq_zero_aborts_witness: "pq_factorize_str nat_bn (\<lambda>_. (17, 3)) (\<lambda>_. (17, 3)) (replicate 9 0) = None"
  using pq_zero_aborts [OF nat_bn_laws, of "replicate 9 0"] of_be_zeros [of 9 "[]"] by (simp add: of_be_def)

end
