(* ===== verification/HandshakeServer.thy ===== *)
theory HandshakeServer
  imports HandshakeProps FactorProps
begin

text \<open>
  The other side of the handshake, as the protocol prescribes it: a server that knows the private exponent
  of the public key and a secret for the Diffie-Hellman exchange.  It reads the queries of the client with
  the layout of the scheme.  The lemmas follow one message after the other.
\<close>

section \<open>A server\<close>

record hs_server =
  sv_server_nonce :: bytes
  sv_pq :: bytes
  sv_fingerprints :: "u64 list"
  sv_n :: nat
  sv_d :: nat
  sv_a :: nat
  sv_g :: u32
  sv_prime :: bytes
  sv_time :: u32
  sv_pad :: "nat \<Rightarrow> bytes"

definition read_all :: "'a fetch \<Rightarrow> bytes \<Rightarrow> 'a option" where
  "read_all m bs = (case m (tl_parser_of bs) of None \<Rightarrow> None | Some (x, p) \<Rightarrow> if p_error p = [] then Some x else None)"

definition read_req_pq :: "bytes fetch" where
  "read_req_pq = fbind fetch_int (\<lambda>_. fbind TlFetchInt128 fret)"

definition read_req_dh :: "(bytes \<times> bytes) fetch" where
  "read_req_dh = fbind fetch_int (\<lambda>_. fbind TlFetchInt128 (\<lambda>n. fbind TlFetchInt128 (\<lambda>_. fbind TlFetchString (\<lambda>_.
     fbind TlFetchString (\<lambda>_. fbind TlFetchLong (\<lambda>_. fbind TlFetchString (\<lambda>e. fret (n, e))))))))"

definition read_set_dh :: "bytes fetch" where
  "read_set_dh = fbind fetch_int (\<lambda>_. fbind TlFetchInt128 (\<lambda>_. fbind TlFetchInt128 (\<lambda>_. fbind TlFetchString fret)))"

definition read_inner_pq :: "bytes fetch" where
  "read_inner_pq = fbind fetch_int (\<lambda>_. fbind TlFetchString (\<lambda>_. fbind TlFetchString (\<lambda>_. fbind TlFetchString (\<lambda>_.
     fbind TlFetchInt128 (\<lambda>_. fbind TlFetchInt128 (\<lambda>_. fbind TlFetchInt256 fret))))))"

definition read_inner_dh :: "bytes fetch" where
  "read_inner_dh = fbind fetch_int (\<lambda>_. fbind TlFetchInt128 (\<lambda>_. fbind TlFetchInt128 (\<lambda>_. fbind TlFetchLong (\<lambda>_.
     fbind TlFetchString fret))))"

text \<open>\<open>resPQ\<close> for a nonce.\<close>

definition server_res_pq :: "hs_server \<Rightarrow> bytes \<Rightarrow> res_pq" where
  "server_res_pq sv nonce = \<lparr>rp_nonce = nonce, rp_server_nonce = sv_server_nonce sv, rp_pq = sv_pq sv,
     rp_fingerprints = sv_fingerprints sv\<rparr>"

definition server_1 :: "hs_server \<Rightarrow> bytes \<Rightarrow> bytes option" where
  "server_1 sv q = (case read_all read_req_pq q of None \<Rightarrow> None | Some nonce \<Rightarrow> run_unsafe (scheme_res_pq (server_res_pq sv nonce)) [])"

text \<open>RSA decryption and the inverse of the padding, with its check.\<close>

definition be_bytes :: "nat \<Rightarrow> nat \<Rightarrow> bytes" where
  "be_bytes k x = rev (le_bytes k x)"

definition server_open :: "crypto_lib \<Rightarrow> hs_server \<Rightarrow> bytes \<Rightarrow> bytes option" where
  "server_open L sv enc =
     (let dec = be_bytes 256 (of_be enc ^ sv_d sv mod sv_n sv);
          key = xorb (take 32 dec) (lib_sha256 L (drop 32 dec))
      in case aes_ige_decrypt L key (replicate 32 0) (drop 32 dec) 224 of None \<Rightarrow> None
         | Some (dwh, _) \<Rightarrow>
           (let data = rev (take 192 dwh)
            in if drop 192 dwh = lib_sha256 L (key @ data) then Some data else None))"

text \<open>\<open>SHA1(data) + data + padding\<close>, encrypted with the temporary key.\<close>

definition tmp_encrypt :: "crypto_lib \<Rightarrow> (nat \<Rightarrow> bytes) \<Rightarrow> bytes \<Rightarrow> bytes \<Rightarrow> bytes \<Rightarrow> bytes option" where
  "tmp_encrypt L pad server_nonce new_nonce data =
     (let sz = 20 + length data;
          plain = lib_sha1 L data @ data @ pad ((sz + 15) div 16 * 16 - sz);
          (k, iv) = tmp_KDF L server_nonce new_nonce
      in map_option fst (aes_ige_encrypt L k iv plain (length plain)))"

definition server_inner :: "bn_lib \<Rightarrow> hs_server \<Rightarrow> bytes \<Rightarrow> server_DH_inner" where
  "server_inner N sv nonce = \<lparr>di_nonce = nonce, di_server_nonce = sv_server_nonce sv, di_g = sv_g sv, di_dh_prime = sv_prime sv,
     di_g_a = to_binary N (unat (sv_g sv) ^ sv_a sv mod of_be (sv_prime sv)), di_server_time = sv_time sv\<rparr>"

definition server_2 :: "crypto_lib \<Rightarrow> bn_lib \<Rightarrow> hs_server \<Rightarrow> bytes \<Rightarrow> (bytes \<times> bytes \<times> bytes) option" where
  "server_2 L N sv q =
     (case read_all read_req_dh q of None \<Rightarrow> None
      | Some (nonce, enc) \<Rightarrow>
      (case server_open L sv enc of None \<Rightarrow> None
       | Some data \<Rightarrow>
       (case read_all read_inner_pq data of None \<Rightarrow> None
        | Some new_nonce \<Rightarrow>
        (case run_unsafe (store_int server_DH_inner_data_ID @ scheme_dh_inner (server_inner N sv nonce)) [] of None \<Rightarrow> None
         | Some ans \<Rightarrow>
         (case tmp_encrypt L (sv_pad sv) (sv_server_nonce sv) new_nonce ans of None \<Rightarrow> None
          | Some enc' \<Rightarrow>
            map_option (\<lambda>m. (m, nonce, new_nonce))
              (run_unsafe (scheme_dh_params \<lparr>dp_nonce = nonce, dp_server_nonce = sv_server_nonce sv, dp_encrypted_answer = enc'\<rparr>) []))))))"

text \<open>The last answer, with the key the server computed.\<close>

definition server_3 :: "crypto_lib \<Rightarrow> hs_server \<Rightarrow> bytes \<Rightarrow> bytes \<Rightarrow> bytes \<Rightarrow> (bytes \<times> bytes) option" where
  "server_3 L sv nonce new_nonce q =
     (case read_all read_set_dh q of None \<Rightarrow> None
      | Some enc \<Rightarrow>
      (case aes_ige_decrypt L (fst (tmp_KDF L (sv_server_nonce sv) new_nonce)) (snd (tmp_KDF L (sv_server_nonce sv) new_nonce))
              enc (length enc) of None \<Rightarrow> None
       | Some (plain, _) \<Rightarrow>
       (case read_all read_inner_dh (drop 20 plain) of None \<Rightarrow> None
        | Some g_b \<Rightarrow>
          (let key = be_bytes 256 (of_be g_b ^ sv_a sv mod of_be (sv_prime sv))
           in map_option (\<lambda>m. (m, key))
                (run_unsafe (scheme_dh_gen (DhGenOk nonce (sv_server_nonce sv) (new_nonce_hash L new_nonce key))) [])))))"

section \<open>Reading and writing\<close>

lemma be_bytes_of_be: "length bs = k \<Longrightarrow> be_bytes k (of_be bs) = bs"
  using le_bytes_of_le [of "rev bs"] by (auto simp: be_bytes_def of_be_def)

lemma of_be_be_bytes: "x < 256 ^ k \<Longrightarrow> of_be (be_bytes k x) = x"
  by (simp add: be_bytes_def of_be_def of_le_le_bytes)

lemma parses_at_start:
  assumes "parses m bs x" and "length (bs @ rest) < size_max"
  shows "m (tl_parser_of (bs @ rest)) = Some (x, consume (length bs) (tl_parser_of (bs @ rest)))"
  using assms clean_tl_parser_of [OF assms(2)] by (auto simp: parses_def tl_parser_of_def)

lemma read_all_parses:
  assumes "parses m bs x" and "length (bs @ rest) < size_max"
  shows "read_all m (bs @ rest) = Some x"
  unfolding read_all_def parses_at_start [OF assms] by (simp add: tl_parser_of_def)

lemma fetch_result_parses:
  assumes "parses m bs x" and "length bs < size_max"
  shows "fetch_result m bs False = Some (Inr x)"
  using parses_at_start [OF assms(1), of "[]"] assms(2) by (simp add: fetch_result_def fbind_def fret_def tl_parser_of_def)

lemma fetch_result_codec:
  assumes "tl_codec st m ok" and "ok x" and "run_unsafe (st x) [] = Some bs" and "length bs < size_max"
  shows "fetch_result m bs False = Some (Inr x)"
  using fetch_result_parses [OF codes_run [OF codec_codes [OF assms(1,2)] assms(3)] assms(4)] .

text \<open>Lengths of stored objects.\<close>

lemma run_length: "run_unsafe cs [] = Some bs \<Longrightarrow> run_calc cs 0 = Some (length bs)"
  using run_calc_unsafe(2) [of cs "[]" bs] by simp

lemma calc_string_bounds: "length s \<le> calc_store_string s" "calc_store_string s \<le> length s + 11"
  by (auto simp: calc_store_string_def Let_def)

lemma string_returns: "length s < 2 ^ 32 \<Longrightarrow> \<exists>b. unsafe_store_string s = Some b"
  by (simp add: unsafe_store_string_def Let_def)

definition stores :: "store_call list \<Rightarrow> nat \<Rightarrow> bool" where
  "stores cs n \<longleftrightarrow> (\<exists>bs. run_unsafe cs [] = Some bs \<and> length bs \<le> n)"

lemma stores_Nil: "stores [] 0"
  by (simp add: stores_def)

lemma stores_append: "stores as n \<Longrightarrow> stores bs m \<Longrightarrow> stores (as @ bs) (n + m)"
proof -
  assume "stores as n" "stores bs m"
  then obtain a b where "run_unsafe as [] = Some a" "length a \<le> n" "run_unsafe bs [] = Some b" "length b \<le> m"
    by (auto simp: stores_def)
  then show ?thesis using run_unsafe_buf [of bs a] by (simp add: stores_def run_unsafe_append)
qed

lemma stores_binary: "stores (TlStoreBinary b) (length b)"
  by (simp add: stores_def TlStoreBinary_def)

lemma stores_string: "length s < 2 ^ 32 \<Longrightarrow> stores (TlStoreString s) (length s + 11)"
proof -
  assume "length s < 2 ^ 32"
  then obtain b where b: "unsafe_store_string s = Some b" using string_returns by blast
  have "length b \<le> length s + 11" using length_unsafe_store_string [OF b] calc_string_bounds(2) by simp
  then show ?thesis using b by (simp add: stores_def TlStoreString_def)
qed

lemma stores_boxed: "stores (f x) n \<Longrightarrow> stores (TlStoreBoxed i f x) (4 + n)"
  using stores_append [OF stores_binary [of "bytes_of_u32 i"], of "f x" n]
  by (simp add: TlStoreBoxed_def TlStoreBinary_def)

lemma stores_longs: "length v < 2 ^ 31 \<Longrightarrow> stores (TlStoreVector store_long v) (4 + 8 * length v)"
proof -
  assume v: "length v < 2 ^ 31"
  have "stores (concat (map store_long v)) (8 * length v)" for v
  proof (induction v)
    case (Cons x v)
    then show ?case using stores_append [OF stores_binary [of "bytes_of_u64 x"]] by simp
  qed (simp add: stores_Nil)
  then show ?thesis
    using v stores_append [OF stores_binary [of "bytes_of_u32 (of_nat (length v))"], of "concat (map store_long v)"]
    by (auto simp: TlStoreVector_def TlStoreBinary_def stores_def)
qed

lemma stores_mono: "stores cs n \<Longrightarrow> n \<le> m \<Longrightarrow> stores cs m"
  by (auto simp: stores_def)

lemmas stores_intros = stores_append stores_binary stores_string


section \<open>The first message\<close>

definition server_ok :: "hs_server \<Rightarrow> bool" where
  "server_ok sv \<longleftrightarrow> length (sv_server_nonce sv) = 16 \<and> length (sv_pq sv) \<le> 8 \<and> (length (sv_pq sv) = 8 \<longrightarrow> sv_pq sv ! 0 AND 128 = 0) \<and>
     length (sv_fingerprints sv) < 2 ^ 20 \<and> length (sv_prime sv) < 2 ^ 20 \<and> (\<forall>n. length (sv_pad sv n) = n) \<and>
     2 ^ 2040 \<le> sv_n sv \<and> sv_n sv < 2 ^ 2048"

lemma server_okD:
  assumes "server_ok sv"
  shows "length (sv_server_nonce sv) = 16" "length (sv_pq sv) \<le> 8" "length (sv_pq sv) = 8 \<longrightarrow> sv_pq sv ! 0 AND 128 = 0"
    "length (sv_fingerprints sv) < 2 ^ 20" "length (sv_prime sv) < 2 ^ 20" "\<And>n. length (sv_pad sv n) = n"
    "2 ^ 2040 \<le> sv_n sv" "sv_n sv < 2 ^ 2048"
  using assms unfolding server_ok_def by blast+

lemma small_size: "n \<le> 2 ^ 32 \<Longrightarrow> n < size_max"
  by (simp add: size_max_def)

lemma first_exchange:
  assumes A: "api_laws A" and sv: "server_ok sv" and h: "hs_state h = HsStart" and n: "length (he_nonce env) = 16"
  obtains q m where "hs_resume A env h = Some (h\<lparr>hs_nonce := he_nonce env, hs_last_query := q, hs_state := HsResPQ\<rparr>, [HsSend q])"
    and "server_1 sv q = Some m" and "fetch_result (api_fetch_res_pq A) m False = Some (Inr (server_res_pq sv (he_nonce env)))"
proof -
  let ?q = "bytes_of_u32 req_pq_multi_ID @ he_nonce env"
  have q: "run_unsafe (api_store A (ReqPqMulti (he_nonce env))) [] = Some ?q"
    using A by (simp add: api_laws_def TlStoreBinary_def)
  have start: "hs_resume A env h = Some (h\<lparr>hs_nonce := he_nonce env, hs_last_query := ?q, hs_state := HsResPQ\<rparr>, [HsSend ?q])"
    using h q by (simp add: hs_resume_def on_start_def hs_send_def do_send_def serialize_run)
  have "codes (store_int req_pq_multi_ID @ TlStoreBinary (he_nonce env) @ []) read_req_pq (he_nonce env)"
    unfolding read_req_pq_def using n by - (rule codes_fields | simp add: codes_self)+
  then have "parses read_req_pq ?q (he_nonce env)" by (rule codes_run) (simp add: TlStoreBinary_def)
  then have r: "read_all read_req_pq ?q = Some (he_nonce env)"
    using read_all_parses [of read_req_pq ?q "he_nonce env" "[]"] n small_size by simp
  let ?x = "server_res_pq sv (he_nonce env)"
  note s = server_okD(1,2,4) [OF sv]
  have ok: "res_pq_ok ?x" using s n by (simp add: server_res_pq_def res_pq_ok_def)
  have "stores (scheme_res_pq ?x) (4 + (16 + (16 + ((length (sv_pq sv) + 11) + ((4 + (4 + 8 * length (sv_fingerprints sv))) + 0)))))"
    unfolding scheme_res_pq_def
    using s n stores_binary [of "he_nonce env"] stores_binary [of "sv_server_nonce sv"]
      stores_string [of "sv_pq sv"] stores_longs [of "sv_fingerprints sv"]
    by (intro stores_boxed stores_append stores_Nil) (simp_all add: server_res_pq_def)
  then obtain m where m: "run_unsafe (scheme_res_pq ?x) [] = Some m" "length m \<le> 2 ^ 32"
    using s by (auto simp: stores_def)
  have "fetch_result (api_fetch_res_pq A) m False = Some (Inr ?x)"
    using A ok m small_size by (intro fetch_result_codec [where st = scheme_res_pq and ok = res_pq_ok]) (simp_all add: api_laws_def)
  then show thesis using that start r m(1) by (simp add: server_1_def)
qed

section \<open>The padded and encrypted block\<close>

lemma aes_ige_encrypt_returns:
  assumes "crypto_laws L" and "length key = 32" and "length iv = 32" and "length from mod 16 = 0"
  obtains out iv' where "aes_ige_encrypt L key iv from (length from) = Some (out, iv')" and "length out = length from"
    and "aes_ige_decrypt L key iv out (length from) = Some (from, iv')"
proof -
  have "length from = 16 * (length from div 16)" using assms(4) by auto
  then obtain out iv' where o: "aes_ige_encrypt L key iv from (length from) = Some (out, iv')"
    using aes_ige_encrypt_eq [OF assms(1-3)] by blast
  note d = aes_ige_decrypt_encrypt [OF assms o]
  show thesis using that o d by simp
qed

lemma rsa_pad_opens:
  assumes L: "crypto_laws L" and k: "length key = 32" and d: "length data = 192"
  obtains dec iv where "rsa_pad L key data = Some dec" and "length dec = 256"
    and "xorb (take 32 dec) (lib_sha256 L (drop 32 dec)) = key"
    and "aes_ige_decrypt L key (replicate 32 0) (drop 32 dec) 224 = Some (rev data @ lib_sha256 L (key @ data), iv)"
proof -
  have sh: "\<And>x. length (lib_sha256 L x) = 32" using L by (simp add: crypto_laws_def)
  let ?p = "rev data @ lib_sha256 L (key @ data)"
  have p: "length ?p = 224" using d sh by simp
  have m: "length ?p mod 16 = 0" unfolding p by simp
  obtain out iv' where o: "aes_ige_encrypt L key (replicate 32 0) ?p 224 = Some (out, iv')" "length out = 224"
    "aes_ige_decrypt L key (replicate 32 0) out 224 = Some (?p, iv')"
    using aes_ige_encrypt_returns [OF L k _ m, of "replicate 32 0"] unfolding p by auto
  let ?dec = "xorb key (lib_sha256 L out) @ out"
  have x: "length (xorb key (lib_sha256 L out)) = 32" using k sh by simp
  have "xorb (xorb key (lib_sha256 L out)) (lib_sha256 L out) = key" using k sh by (simp add: xorb_cancel)
  then show thesis using that [of ?dec iv'] o x by (simp add: rsa_pad_def)
qed

lemma rsa_encrypt_value:
  assumes N: "bn_laws N" and n: "2 ^ 2040 \<le> rsa_n r" "rsa_n r < 2 ^ 2048" and l: "length dec = 256"
  shows "rsa_encrypt N r dec 256 = (if of_be dec < rsa_n r then Some (Some (be_bytes 256 (of_be dec ^ rsa_e r mod rsa_n r))) else Some None)"
proof -
  have b: "\<And>k. bn_num_bits N (rsa_n r) \<le> k \<longleftrightarrow> rsa_n r < 2 ^ k" using N by (simp add: bn_laws_def)
  have "bn_num_bits N (rsa_n r) \<le> 2048" using b [of 2048] n(2) by simp
  moreover have "\<not> bn_num_bits N (rsa_n r) \<le> 2040" using b [of 2040] n(1) by linarith
  ultimately have bits: "2041 \<le> bn_num_bits N (rsa_n r)" "bn_num_bits N (rsa_n r) \<le> 2048" by linarith+
  have n0: "0 < rsa_n r" using n(1) by (metis less_le_trans zero_less_numeral zero_less_power)
  let ?y = "of_be dec ^ rsa_e r mod rsa_n r"
  have e: "(2::nat) ^ 2048 = 256 ^ 256" by simp
  have "?y < 256 ^ 256" using mod_less_divisor [OF n0] n(2) unfolding e by (rule order.strict_trans)
  then obtain bs where bs: "to_binary_exact N 256 ?y = Some bs" "length bs = 256" "of_be bs = ?y"
    using to_binary_exact_returns [OF N] by blast
  have "bs = be_bytes 256 ?y" using be_bytes_of_be [OF bs(2)] bs(3) by simp
  moreover have "bn_bin2bn N dec = of_be dec" "bn_mod_exp N (of_be dec) (rsa_e r) (rsa_n r) = Some ?y"
    using N n0 by (simp_all add: bn_laws_def)
  ultimately show ?thesis using bits l bs(1) by (simp add: rsa_encrypt_def Let_def not_le)
qed

lemma rsa_loop_returns:
  assumes L: "crypto_laws L" and N: "bn_laws N" and n: "2 ^ 2040 \<le> rsa_n r" "rsa_n r < 2 ^ 2048"
    and ks: "\<And>i. length (keys i) = 32" and d: "length data = 192"
    and fit: "rsa_pad L (keys (i + k)) data = Some dec" "of_be dec < rsa_n r" "k < fuel"
  shows "\<exists>j dec'. rsa_pad L (keys j) data = Some dec' \<and> of_be dec' < rsa_n r \<and> length dec' = 256 \<and>
    rsa_loop fuel L N keys r data i = Some (be_bytes 256 (of_be dec' ^ rsa_e r mod rsa_n r))"
  using fit
proof (induction fuel arbitrary: i k)
  case (Suc fuel)
  obtain dec0 where p: "rsa_pad L (keys i) data = Some dec0" "length dec0 = 256"
    using rsa_pad_opens [OF L ks d] by metis
  show ?case
  proof (cases "of_be dec0 < rsa_n r")
    case True
    then show ?thesis using p rsa_encrypt_value [OF N n p(2)] by auto
  next
    case False
    then obtain k' where k': "k = Suc k'" using Suc.prems p by (cases k) auto
    then show ?thesis
      using Suc.IH [of "i + 1" k'] Suc.prems p False rsa_encrypt_value [OF N n p(2)] by auto
  qed
qed simp

lemma server_open_encrypted:
  assumes L: "crypto_laws L" and sv: "server_ok sv" and k: "length key = 32" and d: "length data = 192"
    and p: "rsa_pad L key data = Some dec" and lt: "of_be dec < sv_n sv" and inv: "\<And>x. x < sv_n sv \<Longrightarrow> x ^ (e * sv_d sv) mod sv_n sv = x"
  shows "server_open L sv (be_bytes 256 (of_be dec ^ e mod sv_n sv)) = Some data"
proof -
  obtain iv where o: "length dec = 256" "xorb (take 32 dec) (lib_sha256 L (drop 32 dec)) = key"
    "aes_ige_decrypt L key (replicate 32 0) (drop 32 dec) 224 = Some (rev data @ lib_sha256 L (key @ data), iv)"
    using rsa_pad_opens [OF L k d] p by (metis option.inject)
  have e: "(2::nat) ^ 2048 = 256 ^ 256" by simp
  have n: "0 < sv_n sv" "sv_n sv < 256 ^ 256" using lt server_okD(8) [OF sv] unfolding e [symmetric] by linarith+
  have "of_be dec ^ e mod sv_n sv < 256 ^ 256" using mod_less_divisor [OF n(1)] n(2) by (rule order.strict_trans)
  then have "of_be (be_bytes 256 (of_be dec ^ e mod sv_n sv)) ^ sv_d sv mod sv_n sv = of_be dec"
    using inv [OF lt] by (simp add: of_be_be_bytes power_mod power_mult [symmetric])
  then show ?thesis using o d be_bytes_of_be [OF o(1)] by (simp add: server_open_def Let_def)
qed


section \<open>The second message\<close>

lemma pq_small_factors:
  assumes "length s \<le> 8" and "length s = 8 \<longrightarrow> s ! 0 AND 128 = 0"
  obtains p q where "pq_factorize_str N rnd rnd_big s = Some (Some (p, q))" and "length p \<le> 8" and "length q \<le> 8"
proof -
  have sz: "sint (of_nat (length s) :: u32) = int (length s)" using assms(1) by (intro sint_of_nat_u32) simp
  let ?pq = "foldl (\<lambda>pq b. push_bit 8 pq OR ucast b) (0 :: u64) s"
  obtain p where p: "pq_factorize rnd ?pq = Some p" "unat p dvd unat ?pq" "p \<noteq> 0" using pq_factorize_spec by blast
  have "unat (?pq mod p) = 0" using p(2) by (simp add: unat_mod_distrib)
  then have m: "?pq mod p = 0" by (simp add: unat_eq_zero)
  have "pq_factorize_str N rnd rnd_big s = Some (Some (as_big_endian_string p, as_big_endian_string (?pq div p)))"
    using assms sz p(1,3) m by (auto simp: pq_factorize_str_def Let_def)
  moreover have "length (as_big_endian_string x) \<le> 8" for x
    using length_dropWhile_le [of "\<lambda>b. b = 0" "rev (bytes_of_u64 x)"] by (simp add: as_big_endian_string_def)
  ultimately show thesis using that by blast
qed

lemma run_split:
  assumes "run_unsafe (as @ cs) [] = Some x"
  obtains a b where "run_unsafe as [] = Some a" and "run_unsafe cs [] = Some b" and "x = a @ b"
proof -
  obtain a where a: "run_unsafe as [] = Some a" using assms by (auto simp: run_unsafe_append split: option.splits)
  then show thesis using assms that run_unsafe_buf [of cs a] by (auto simp: run_unsafe_append)
qed

text \<open>Reading a prefix of what was stored.\<close>

lemma read_prefix:
  assumes "codes cs pa x" and "stores (cs @ cs') n" and "n + length rest < size_max"
  obtains bs where "run_unsafe (cs @ cs') [] = Some bs" and "length bs \<le> n" and "read_all pa (bs @ rest) = Some x"
proof -
  obtain bs where bs: "run_unsafe (cs @ cs') [] = Some bs" "length bs \<le> n" using assms(2) by (auto simp: stores_def)
  obtain a b where ab: "run_unsafe cs [] = Some a" "bs = a @ b" using run_split [OF bs(1)] by metis
  have "length (a @ b @ rest) < size_max" using bs(2) ab(2) assms(3) by simp
  then show thesis using that [OF bs] read_all_parses [OF codes_run [OF assms(1) ab(1)]] ab(2) by simp
qed

lemma read_stored:
  assumes "codes cs pa x" and "stores cs n" and "n < size_max"
  obtains bs where "run_unsafe cs [] = Some bs" and "length bs \<le> n" and "read_all pa bs = Some x"
  using read_prefix [of cs pa x "[]" n "[]"] assms by auto

lemma inner_pq_stored:
  assumes A: "api_laws A" and l: "length (rp_pq res) \<le> 8" "length p \<le> 8" "length q \<le> 8" "length (hs_nonce h) = 16"
    "length (hs_server_nonce h) = 16" "length (hs_new_nonce h) = 32" "length rest \<le> 1024"
  obtains data where "pq_inner_data A res p q h = Some data" and "length data \<le> 144"
    and "read_all read_inner_pq (data @ rest) = Some (hs_new_nonce h)"
proof -
  let ?cs = "\<lambda>i. store_int i @ TlStoreString (rp_pq res) @ TlStoreString p @ TlStoreString q @ TlStoreBinary (hs_nonce h)
       @ TlStoreBinary (hs_server_nonce h) @ TlStoreBinary (hs_new_nonce h) @ []"
  have c: "codes (?cs i) read_inner_pq (hs_new_nonce h)" for i
    unfolding read_inner_pq_def using l by - (rule codes_fields | simp add: codes_self)+
  have str: "stores (TlStoreString s) 19" if "length s \<le> 8" for s
    using stores_mono [OF stores_string [of s], of 19] that by simp
  have bin: "stores (TlStoreBinary s) n" if "length s = n" for s n using stores_binary [of s] that by simp
  have st: "stores (?cs i) (4 + (19 + (19 + (19 + (16 + (16 + (32 + 0)))))))" for i
    using l by (intro stores_append str bin stores_Nil) simp_all
  define i where "i = (if hs_mode h = HsMain then p_q_inner_data_dc_ID else p_q_inner_data_temp_dc_ID)"
  define tl where "tl = (if hs_mode h = HsMain then store_int (hs_dc_id h) else store_int (hs_dc_id h) @ store_int (hs_expires_in h))"
  have "stores tl 8"
    unfolding tl_def using stores_mono [OF bin [of "bytes_of_u32 (hs_dc_id h)" 4], of 8]
      stores_append [OF bin [of "bytes_of_u32 (hs_dc_id h)" 4] bin [of "bytes_of_u32 (hs_expires_in h)" 4]] by simp
  from stores_append [OF st this, of i] have "stores (?cs i @ tl) 144" by (rule stores_mono) simp
  then obtain data where d: "run_unsafe (?cs i @ tl) [] = Some data" "length data \<le> 144"
    "read_all read_inner_pq (data @ rest) = Some (hs_new_nonce h)"
    by (rule read_prefix [OF c, where rest = rest]) (use l(7) in \<open>auto simp: size_max_def\<close>)
  have "pq_inner_data A res p q h = run_unsafe (?cs i @ tl) []"
    using A by (cases "hs_mode h") (simp_all add: pq_inner_data_def store_object_def serialize_run api_laws_def i_def tl_def TlStoreBinary_def)
  then show thesis using that d by simp
qed

text \<open>The 192 bytes the client encrypts, and that a round of its loop draws a key for which the padded block is below the modulus.\<close>

definition pq_request_data :: "bn_lib \<Rightarrow> hs_api \<Rightarrow> hs_env \<Rightarrow> res_pq \<Rightarrow> handshake \<Rightarrow> bytes option" where
  "pq_request_data N A env res h =
     (case pq_factorize_str N (he_pq env) (he_pq_big env) (rp_pq res) of
        Some (Some (p, q)) \<Rightarrow>
          map_option (\<lambda>data. data @ he_pad env (192 - length data))
            (pq_inner_data A res p q (h\<lparr>hs_server_nonce := rp_server_nonce res, hs_new_nonce := he_new_nonce env\<rparr>))
      | _ \<Rightarrow> None)"

definition rsa_round_fits :: "crypto_lib \<Rightarrow> bn_lib \<Rightarrow> hs_api \<Rightarrow> hs_env \<Rightarrow> res_pq \<Rightarrow> handshake \<Rightarrow> nat \<Rightarrow> nat \<Rightarrow> bool" where
  "rsa_round_fits L N A env res h modulus k \<longleftrightarrow>
     (\<exists>data dec. pq_request_data N A env res h = Some data \<and> rsa_pad L (he_aes_key env k) data = Some dec \<and> of_be dec < modulus)"

definition env_ok :: "hs_env \<Rightarrow> bool" where
  "env_ok env \<longleftrightarrow> length (he_nonce env) = 16 \<and> length (he_new_nonce env) = 32 \<and> (\<forall>n. length (he_pad env n) = n) \<and>
     (\<forall>i. length (he_aes_key env i) = 32)"

lemma second_exchange:
  assumes L: "crypto_laws L" and N: "bn_laws N" and A: "api_laws A" and sv: "server_ok sv" and e: "env_ok env"
    and h: "hs_state h = HsResPQ" "length (hs_nonce h) = 16" and t: "he_now env 0 < hs_start_time h + hs_timeout_in h * (6 / 10)"
    and m: "fetch_result (api_fetch_res_pq A) m False = Some (Inr (server_res_pq sv (hs_nonce h)))"
    and key: "he_get_rsa_key env (sv_fingerprints sv) = Inr key" "rsa_n (rk_rsa key) = sv_n sv"
    and inv: "\<And>x. x < sv_n sv \<Longrightarrow> x ^ (rsa_e (rk_rsa key) * sv_d sv) mod sv_n sv = x"
    and fit: "rsa_round_fits L N A env (server_res_pq sv (hs_nonce h)) h (sv_n sv) k" "k < n"
  obtains h' q enc data where "hs_on_message n L N A env m h = Some (OK, h', [HsSend q])"
    and "hs_state h' = HsServerDHParams" and "hs_nonce h' = hs_nonce h" and "hs_server_nonce h' = sv_server_nonce sv"
    and "hs_new_nonce h' = he_new_nonce env" and "hs_start_time h' = hs_start_time h" and "hs_timeout_in h' = hs_timeout_in h"
    and "read_all read_req_dh q = Some (hs_nonce h, enc)" and "server_open L sv enc = Some data"
    and "read_all read_inner_pq data = Some (he_new_nonce env)"
proof -
  let ?res = "server_res_pq sv (hs_nonce h)"
  note s = server_okD [OF sv]
  obtain p q where pq: "pq_factorize_str N (he_pq env) (he_pq_big env) (sv_pq sv) = Some (Some (p, q))" "length p \<le> 8" "length q \<le> 8"
    using pq_small_factors [OF s(2,3)] by metis
  have el: "length (he_new_nonce env) = 32" "\<And>n. length (he_pad env n) = n" "\<And>i. length (he_aes_key env i) = 32"
    using e by (simp_all add: env_ok_def)
  define h1 where "h1 = h\<lparr>hs_server_nonce := sv_server_nonce sv, hs_new_nonce := he_new_nonce env\<rparr>"
  have l: "length (rp_pq ?res) \<le> 8" "length (hs_nonce h1) = 16" "length (hs_server_nonce h1) = 16" "length (hs_new_nonce h1) = 32"
    using s(1,2) h(2) el(1) by (simp_all add: server_res_pq_def h1_def)
  note stored = inner_pq_stored [OF A l(1) pq(2,3) l(2-4)]
  obtain data where d: "pq_inner_data A ?res p q h1 = Some data" "length data \<le> 144" by (rule stored [of "[]"]) simp_all
  let ?pad = "he_pad env (192 - length data)"
  have "length ?pad \<le> 1024" using el(2) by simp
  then obtain data' where "pq_inner_data A ?res p q h1 = Some data'" "read_all read_inner_pq (data' @ ?pad) = Some (hs_new_nonce h1)"
    by (rule stored)
  then have rd: "read_all read_inner_pq (data @ ?pad) = Some (he_new_nonce env)" using d(1) by (simp add: h1_def)
  have dl: "length (data @ ?pad) = 192" using d(2) el(2) by simp
  obtain dec where f: "rsa_pad L (he_aes_key env (0 + k)) (data @ ?pad) = Some dec" "of_be dec < rsa_n (rk_rsa key)"
    using fit(1) pq(1) d(1) key(2) by (auto simp: rsa_round_fits_def pq_request_data_def server_res_pq_def h1_def)
  obtain j dec' where j: "rsa_pad L (he_aes_key env j) (data @ ?pad) = Some dec'" "of_be dec' < sv_n sv" "length dec' = 256"
    "rsa_loop n L N (he_aes_key env) (rk_rsa key) (data @ ?pad) 0 = Some (be_bytes 256 (of_be dec' ^ rsa_e (rk_rsa key) mod sv_n sv))"
    using rsa_loop_returns [where keys = "he_aes_key env" and r = "rk_rsa key" and i = 0, unfolded key(2), OF L N s(7,8) el(3) dl
        f [unfolded key(2)] fit(2)] by blast
  let ?enc = "be_bytes 256 (of_be dec' ^ rsa_e (rk_rsa key) mod sv_n sv)"
  have el256: "length ?enc = 256" by (simp add: be_bytes_def)
  let ?cs = "store_int req_DH_params_ID @ TlStoreBinary (hs_nonce h) @ TlStoreBinary (sv_server_nonce sv) @ TlStoreString p @ TlStoreString q
       @ store_long (rk_fingerprint key) @ TlStoreString ?enc @ []"
  have c: "codes ?cs read_req_dh (hs_nonce h, ?enc)"
    unfolding read_req_dh_def using h(2) s(1) pq(2,3) el256 by - (rule codes_fields | simp add: codes_self)+
  have "stores ?cs (4 + (16 + (16 + ((length p + 11) + ((length q + 11) + (8 + ((256 + 11) + 0)))))))"
    using h(2) s(1) pq(2,3) el256 stores_binary [of "hs_nonce h"] stores_binary [of "sv_server_nonce sv"]
      stores_binary [of "bytes_of_u32 req_DH_params_ID"] stores_binary [of "bytes_of_u64 (rk_fingerprint key)"]
      stores_string [of p] stores_string [of q] stores_string [of ?enc] stores_Nil
    by (intro stores_append) simp_all
  then obtain q2 where q2: "run_unsafe ?cs [] = Some q2" "read_all read_req_dh q2 = Some (hs_nonce h, ?enc)"
    by (rule read_stored [OF c]) (use pq(2,3) in \<open>auto simp: size_max_def\<close>)
  have q2': "serialize (api_store A (ReqDHParams (hs_nonce h) (sv_server_nonce sv) p q (rk_fingerprint key) ?enc)) = Some q2"
    using q2(1) A by (simp add: serialize_run api_laws_def)
  define h2 where "h2 = (if hs_mode h1 = HsTemp then h1\<lparr>hs_expires_at := he_now env 1 + of_int (sint (hs_expires_in h1))\<rparr> else h1)"
  have h2: "hs_nonce h2 = hs_nonce h" "hs_server_nonce h2 = sv_server_nonce sv" "hs_new_nonce h2 = he_new_nonce env"
    "hs_start_time h2 = hs_start_time h" "hs_timeout_in h2 = hs_timeout_in h" by (simp_all add: h2_def h1_def)
  have snd: "send_req_DH_params n L N A env ?res key p q (h\<lparr>hs_server_nonce := sv_server_nonce sv\<rparr>) =
    Some (OK, h2\<lparr>hs_last_query := q2, hs_state := HsServerDHParams\<rparr>, [HsSend q2])"
    using d j(4) q2' h2 unfolding send_req_DH_params_def Let_def h1_def [symmetric] h2_def [symmetric]
    by (simp add: hs_send_def do_send_def)
  have "on_res_pq n L N A env m h = Some (OK, h2\<lparr>hs_last_query := q2, hs_state := HsServerDHParams\<rparr>, [HsSend q2])"
    using t m key(1) pq(1) snd unfolding on_res_pq_def by (simp add: server_res_pq_def)
  then have msg: "hs_on_message n L N A env m h = Some (OK, h2\<lparr>hs_last_query := q2, hs_state := HsServerDHParams\<rparr>, [HsSend q2])"
    using h(1) by (simp add: hs_on_message_def)
  have "server_open L sv ?enc = Some (data @ ?pad)"
    using server_open_encrypted [OF L sv el(3) dl j(1,2) inv] .
  then show thesis using that [OF msg] h2 q2(2) rd by simp
qed


section \<open>The third message\<close>

lemma tmp_encrypt_returns:
  assumes L: "crypto_laws L" and n: "length new_nonce = 32" and pad: "\<And>n. length (pad n) = n"
  obtains enc r iv where "tmp_encrypt L pad server_nonce new_nonce data = Some enc" and "length enc mod 16 = 0"
    and "length enc \<le> length data + 35" and "r < 16"
    and "aes_ige_decrypt L (fst (tmp_KDF L server_nonce new_nonce)) (snd (tmp_KDF L server_nonce new_nonce)) enc (length enc) =
      Some (lib_sha1 L data @ data @ pad r, iv)"
proof -
  define r where "r = (20 + length data + 15) div 16 * 16 - (20 + length data)"
  let ?p = "lib_sha1 L data @ data @ pad r"
  have r: "r < 16" "(20 + length data + r) mod 16 = 0" unfolding r_def by presburger+
  have l: "length ?p = 20 + length data + r" using L pad by (simp add: crypto_laws_def)
  have m: "length ?p mod 16 = 0" unfolding l by (rule r(2))
  obtain k iv where k: "tmp_KDF L server_nonce new_nonce = (k, iv)" by force
  have kl: "length k = 32" "length iv = 32" using tmp_KDF_lengths [OF L n, of server_nonce] k by simp_all
  obtain enc iv' where e: "aes_ige_encrypt L k iv ?p (length ?p) = Some (enc, iv')" "length enc = length ?p"
    "aes_ige_decrypt L k iv enc (length ?p) = Some (?p, iv')"
    using aes_ige_encrypt_returns [OF L kl m] by metis
  have "tmp_encrypt L pad server_nonce new_nonce data = Some enc"
    using e(1) k by (simp add: tmp_encrypt_def Let_def r_def add.assoc)
  then show thesis using that [of enc r iv'] e k m l r(1) by simp
qed

lemma client_DH_data_eq:
  "client_DH_data L A env g_b h = (case store_object A client_DH_inner_data_ID (ClientDHInnerData (hs_nonce h) (hs_server_nonce h) 0 g_b) of
     None \<Rightarrow> None | Some data \<Rightarrow> tmp_encrypt L (he_pad env) (hs_server_nonce h) (hs_new_nonce h) data)"
  unfolding client_DH_data_def tmp_encrypt_def Let_def ..

lemma to_binary_256:
  assumes N: "bn_laws N" and "x < 2 ^ 2048"
  shows "length (to_binary N x) \<le> 256" and "of_be (to_binary N x) = x"
proof -
  have "bn_num_bits N x \<le> 2048" using assms by (simp add: bn_laws_def)
  moreover have "length (to_binary N x) = (bn_num_bits N x + 7) div 8" using N by (simp add: bn_laws_def to_binary_def)
  ultimately show "length (to_binary N x) \<le> 256" by linarith
  show "of_be (to_binary N x) = x" using N by (simp add: bn_laws_def to_binary_def)
qed

lemma parse_answer:
  assumes L: "crypto_laws L" and A: "api_laws A" and ok: "dh_inner_ok inner"
    and ans: "run_unsafe (store_int server_DH_inner_data_ID @ scheme_dh_inner inner) [] = Some ans" and l: "length ans \<le> 2 ^ 30"
    and r: "length pad < 16" and n: "di_nonce inner = hs_nonce h" "di_server_nonce inner = hs_server_nonce h"
  shows "parse_dh_answer L A (lib_sha1 L ans @ ans @ pad) h = Some (Inr inner)"
proof -
  let ?a = "lib_sha1 L ans @ ans @ pad"
  let ?P = "tl_parser_of ?a"
  have sh: "length (lib_sha1 L ans) = 20" using L by (simp add: crypto_laws_def)
  obtain body where b: "run_unsafe (scheme_dh_inner inner) [] = Some body" "ans = bytes_of_u32 server_DH_inner_data_ID @ body"
    using run_split [OF ans] by (auto simp: TlStoreBinary_def)
  have la: "length ?a < size_max" using sh l r by (simp add: size_max_def)
  have c: "clean ?P" by (rule clean_tl_parser_of [OF la])
  have d: "p_data ?P = ?a" by (simp add: tl_parser_of_def)
  have f1: "fetch_binary 20 ?P = Some (lib_sha1 L ans, consume 20 ?P)" using fetch_binary_clean [OF c _ sh d] by simp
  have c1: "clean (consume 20 ?P)" using clean_consume [OF c, of 20] d sh by simp
  have d1: "p_data (consume 20 ?P) = bytes_of_u32 server_DH_inner_data_ID @ (body @ pad)" using d sh b(2) by simp
  have f2: "fetch_int (consume 20 ?P) = Some (server_DH_inner_data_ID, consume 24 ?P)"
    using fetch_int_clean [OF c1 d1] by simp
  have c2: "clean (consume 24 ?P)" using clean_consume [OF c, of 24] d sh b(2) by simp
  have d2: "p_data (consume 24 ?P) = body @ pad" using d sh b(2) by simp
  have "tl_codec scheme_dh_inner (api_fetch_dh_inner A) dh_inner_ok" using A by (simp add: api_laws_def)
  then have "parses (api_fetch_dh_inner A) body inner" by (rule codes_run [OF codec_codes [where st = scheme_dh_inner and ok = dh_inner_ok, OF _ ok] b(1)])
  then have f3: "api_fetch_dh_inner A (consume 24 ?P) = Some (inner, consume (24 + length body) ?P)"
    using c2 d2 by (simp add: parses_def)
  have left: "p_left_len (consume (24 + length body) ?P) = length pad" using sh b(2) by (simp add: tl_parser_of_def)
  have err: "p_error (consume (24 + length body) ?P) = []" by (simp add: tl_parser_of_def)
  have sub: "substr ?a 20 (length ?a - length pad - 20) = Some ans" using sh by (simp add: substr_def)
  show ?thesis
    unfolding parse_dh_answer_def using f1 f2 f3 left err sub r n by simp
qed


lemma dh_gen_key_returns:
  assumes N: "bn_laws N" and c: "dh_set_config N b g prime_str dh_handshake_init = Some d0" and d: "d = dh_set_g_a L N g_a d0"
    and r: "dh_run_checks N False cb d = Some (OK, evs)"
  obtains key where "dh_gen_key L N d = Some (dh_calc_key_id L key, key)" and "length key = 256"
    and "of_be key = of_be g_a ^ b mod of_be prime_str" and "dh_get_g_b N d = Some (to_binary N (unat g ^ b mod of_be prime_str))"
    and "0 < of_be prime_str" and "of_be prime_str < 2 ^ 2048"
proof -
  have p0: "of_be prime_str \<noteq> 0" using c dh_set_config_eq [OF N] by (auto split: if_splits)
  have f: "dh_prime d = of_be prime_str" "dh_g_a d = of_be g_a" "dh_b d = b" "dh_has_g_a d" "dh_has_config d"
    "dh_g_b d = unat g ^ b mod of_be prime_str"
    using c p0 N unfolding d dh_set_config_eq [OF N] by (auto simp: dh_set_g_a_def bn_laws_def)
  have lt: "of_be prime_str < 2 ^ 2048" using dh_check_OK(2) [OF N dh_run_checks_OK(4) [OF r]] f by simp
  let ?k = "of_be g_a ^ b mod of_be prime_str"
  have "?k < 2 ^ 2048" using lt p0 by (meson mod_less_divisor not_gr_zero order.strict_trans)
  moreover have "(2::nat) ^ 2048 = 256 ^ 256" by simp
  ultimately have "?k < 256 ^ (2048 div 8)" by simp
  then obtain key where k: "to_binary_exact N (2048 div 8) ?k = Some key" "length key = 256" "of_be key = ?k"
    using to_binary_exact_returns [OF N, of ?k "2048 div 8"] by auto
  have "dh_get_g_ab N d = Some ?k" using N p0 by (simp add: dh_get_g_ab_def f bn_laws_def)
  then show thesis using that [of key] k p0 lt f by (simp add: dh_gen_key_def dh_get_g_b_def)
qed

text \<open>What the client sends in its third query, and what the server reads in it.\<close>

lemma client_DH_stored:
  assumes L: "crypto_laws L" and A: "api_laws A" and e: "env_ok env" and n: "length (hs_nonce h) = 16" "length (hs_server_nonce h) = 16"
    "length (hs_new_nonce h) = 32" and g: "length g_b \<le> 256"
  obtains enc plain iv q where "client_DH_data L A env g_b h = Some enc"
    and "serialize (api_store A (SetClientDHParams (hs_nonce h) (hs_server_nonce h) enc)) = Some q"
    and "read_all read_set_dh q = Some enc"
    and "aes_ige_decrypt L (fst (tmp_KDF L (hs_server_nonce h) (hs_new_nonce h))) (snd (tmp_KDF L (hs_server_nonce h) (hs_new_nonce h)))
      enc (length enc) = Some (plain, iv)"
    and "read_all read_inner_dh (drop 20 plain) = Some g_b"
proof -
  have bin: "stores (TlStoreBinary s) n" if "length s = n" for s n using stores_binary [of s] that by simp
  let ?cs = "store_int client_DH_inner_data_ID @ TlStoreBinary (hs_nonce h) @ TlStoreBinary (hs_server_nonce h) @ store_long 0
    @ TlStoreString g_b @ []"
  have c: "codes ?cs read_inner_dh g_b"
    unfolding read_inner_dh_def using n g by - (rule codes_fields | simp add: codes_self)+
  have "stores ?cs (4 + (16 + (16 + (8 + ((length g_b + 11) + 0)))))"
    using n g by (intro stores_append bin stores_string stores_Nil) simp_all
  then have "stores ?cs 400" by (rule stores_mono) (use g in simp)
  then have st: "stores (?cs @ []) 400" by simp
  have pads: "\<And>n. length (he_pad env n) = n" using e by (simp add: env_ok_def)
  obtain data where d: "run_unsafe ?cs [] = Some data" "length data \<le> 400" using st by (auto simp: stores_def)
  obtain enc r iv where t: "tmp_encrypt L (he_pad env) (hs_server_nonce h) (hs_new_nonce h) data = Some enc"
    "length enc \<le> length data + 35" "r < 16"
    "aes_ige_decrypt L (fst (tmp_KDF L (hs_server_nonce h) (hs_new_nonce h))) (snd (tmp_KDF L (hs_server_nonce h) (hs_new_nonce h)))
      enc (length enc) = Some (lib_sha1 L data @ data @ he_pad env r, iv)"
    using tmp_encrypt_returns [OF L n(3) pads] by metis
  have el: "length enc \<le> 435" using t(2) d(2) by simp
  have "length (lib_sha1 L data) = 20" using L by (simp add: crypto_laws_def)
  moreover have "read_all read_inner_dh (data @ he_pad env r) = Some g_b"
    using read_prefix [OF c st, of "he_pad env r"] d(1) t(3) pads by (auto simp: size_max_def)
  ultimately have rd: "read_all read_inner_dh (drop 20 (lib_sha1 L data @ data @ he_pad env r)) = Some g_b" by simp
  have "store_object A client_DH_inner_data_ID (ClientDHInnerData (hs_nonce h) (hs_server_nonce h) 0 g_b) = Some data"
    using d(1) A by (simp add: store_object_def serialize_run api_laws_def TlStoreBinary_def)
  then have cd: "client_DH_data L A env g_b h = Some enc" using t(1) by (simp add: client_DH_data_eq)
  let ?qs = "store_int set_client_DH_params_ID @ TlStoreBinary (hs_nonce h) @ TlStoreBinary (hs_server_nonce h) @ TlStoreString enc @ []"
  have c2: "codes ?qs read_set_dh enc"
    unfolding read_set_dh_def using n el by - (rule codes_fields | simp add: codes_self)+
  have "stores ?qs (4 + (16 + (16 + ((length enc + 11) + 0))))"
    using n el by (intro stores_append bin stores_string stores_Nil) simp_all
  then obtain q where q: "run_unsafe ?qs [] = Some q" "read_all read_set_dh q = Some enc"
    by (rule read_stored [OF c2]) (use el in \<open>auto simp: size_max_def\<close>)
  have "serialize (api_store A (SetClientDHParams (hs_nonce h) (hs_server_nonce h) enc)) = Some q"
    using q(1) A by (simp add: serialize_run api_laws_def)
  then show thesis using that cd q(2) t(4) rd by blast
qed


lemma server_2_returns:
  assumes L: "crypto_laws L" and N: "bn_laws N" and A: "api_laws A" and sv: "server_ok sv"
    and h: "length (hs_nonce h) = 16" "hs_server_nonce h = sv_server_nonce sv" "length (hs_new_nonce h) = 32"
    and q: "read_all read_req_dh q = Some (hs_nonce h, enc0)" "server_open L sv enc0 = Some data" "read_all read_inner_pq data = Some (hs_new_nonce h)"
    and p: "of_be (sv_prime sv) < 2 ^ 2048" "0 < of_be (sv_prime sv)"
  obtains m enc answer iv where "server_2 L N sv q = Some (m, hs_nonce h, hs_new_nonce h)"
    and "fetch_result (api_fetch_dh_params A) m False = Some (Inr \<lparr>dp_nonce = hs_nonce h, dp_server_nonce = hs_server_nonce h, dp_encrypted_answer = enc\<rparr>)"
    and "length enc mod 16 = 0"
    and "aes_ige_decrypt L (fst (tmp_KDF L (hs_server_nonce h) (hs_new_nonce h))) (snd (tmp_KDF L (hs_server_nonce h) (hs_new_nonce h)))
      enc (length enc) = Some (answer, iv)"
    and "parse_dh_answer L A answer h = Some (Inr (server_inner N sv (hs_nonce h)))"
proof -
  note s = server_okD(1,5,6) [OF sv]
  have bin: "stores (TlStoreBinary s) n" if "length s = n" for s n using stores_binary [of s] that by simp
  let ?i = "server_inner N sv (hs_nonce h)"
  have "unat (sv_g sv) ^ sv_a sv mod of_be (sv_prime sv) < 2 ^ 2048"
    using mod_less_divisor [OF p(2)] p(1) by (rule order.strict_trans)
  then have ga: "length (di_g_a ?i) \<le> 256" using to_binary_256(1) [OF N] by (simp add: server_inner_def)
  have ok: "dh_inner_ok ?i" using ga s h by (simp add: dh_inner_ok_def server_inner_def)
  have "stores (store_int server_DH_inner_data_ID @ scheme_dh_inner ?i)
      (4 + (16 + (16 + (4 + ((length (sv_prime sv) + 11) + ((length (di_g_a ?i) + 11) + (4 + 0)))))))"
    unfolding scheme_dh_inner_def using s h ga
    by (intro stores_append bin stores_string stores_Nil) (simp_all add: server_inner_def bin stores_string)
  then obtain ans where a: "run_unsafe (store_int server_DH_inner_data_ID @ scheme_dh_inner ?i) [] = Some ans" "length ans \<le> 2 ^ 21"
    using s ga by (auto simp: stores_def)
  obtain enc r iv where t: "tmp_encrypt L (sv_pad sv) (sv_server_nonce sv) (hs_new_nonce h) ans = Some enc" "length enc mod 16 = 0"
    "length enc \<le> length ans + 35" "r < 16"
    "aes_ige_decrypt L (fst (tmp_KDF L (sv_server_nonce sv) (hs_new_nonce h))) (snd (tmp_KDF L (sv_server_nonce sv) (hs_new_nonce h)))
      enc (length enc) = Some (lib_sha1 L ans @ ans @ sv_pad sv r, iv)"
    using tmp_encrypt_returns [OF L h(3) s(3)] by metis
  have pr: "parse_dh_answer L A (lib_sha1 L ans @ ans @ sv_pad sv r) h = Some (Inr ?i)"
    using parse_answer [OF L A ok a(1), of "sv_pad sv r" h] a(2) t(4) s(3) h(2) by (simp add: server_inner_def)
  let ?d = "\<lparr>dp_nonce = hs_nonce h, dp_server_nonce = hs_server_nonce h, dp_encrypted_answer = enc\<rparr>"
  have el: "length enc \<le> 2 ^ 22" using t(3) a(2) by simp
  have "stores (scheme_dh_params ?d) (4 + (16 + (16 + ((length enc + 11) + 0))))"
    unfolding scheme_dh_params_def using h s el
    by (intro stores_boxed stores_append bin stores_Nil) (simp_all add: bin stores_string)
  then obtain m where m: "run_unsafe (scheme_dh_params ?d) [] = Some m" "length m \<le> 2 ^ 32"
    using el by (auto simp: stores_def)
  have "dh_params_ok ?d" using h s el by (simp add: dh_params_ok_def)
  then have f: "fetch_result (api_fetch_dh_params A) m False = Some (Inr ?d)"
    using A m small_size by (intro fetch_result_codec [where st = scheme_dh_params and ok = dh_params_ok]) (simp_all add: api_laws_def)
  have "server_2 L N sv q = Some (m, hs_nonce h, hs_new_nonce h)"
    using q a(1) t(1) m(1) h(2) by (simp add: server_2_def)
  then show thesis using that [OF _ f t(2)] t(5) pr h(2) by metis
qed

lemma finish_returns:
  assumes L: "crypto_laws L" and N: "bn_laws N" and A: "api_laws A" and e: "env_ok env"
    and h: "length (hs_nonce h) = 16" "length (hs_server_nonce h) = 16" "length (hs_new_nonce h) = 32"
    and c: "dh_set_config N (he_b env) (di_g inner) (di_dh_prime inner) dh_handshake_init = Some d0"
    and r: "dh_run_checks N False (he_dh_callback env) (dh_set_g_a L N (di_g_a inner) d0) = Some (OK, evs)"
  obtains h' q enc plain iv key where "finish_server_dh_params L N A env inner h = Some (OK, h', map HsPrime evs @ [HsSend q])"
    and "hs_state h' = HsDHGenResponse" and "hs_nonce h' = hs_nonce h" and "hs_server_nonce h' = hs_server_nonce h"
    and "hs_new_nonce h' = hs_new_nonce h" and "ak_key (hs_auth_key h') = key" and "ak_id (hs_auth_key h') = dh_calc_key_id L key"
    and "hs_server_salt h' = u64_of_bytes (take 8 (hs_new_nonce h)) XOR u64_of_bytes (take 8 (hs_server_nonce h))"
    and "length key = 256" and "of_be key = of_be (di_g_a inner) ^ he_b env mod of_be (di_dh_prime inner)"
    and "read_all read_set_dh q = Some enc"
    and "aes_ige_decrypt L (fst (tmp_KDF L (hs_server_nonce h) (hs_new_nonce h))) (snd (tmp_KDF L (hs_server_nonce h) (hs_new_nonce h)))
      enc (length enc) = Some (plain, iv)"
    and "read_all read_inner_dh (drop 20 plain) = Some (to_binary N (unat (di_g inner) ^ he_b env mod of_be (di_dh_prime inner)))"
proof -
  let ?d = "dh_set_g_a L N (di_g_a inner) d0"
  let ?gb = "to_binary N (unat (di_g inner) ^ he_b env mod of_be (di_dh_prime inner))"
  obtain key where k: "dh_gen_key L N ?d = Some (dh_calc_key_id L key, key)" "length key = 256"
    "of_be key = of_be (di_g_a inner) ^ he_b env mod of_be (di_dh_prime inner)" "dh_get_g_b N ?d = Some ?gb"
    "0 < of_be (di_dh_prime inner)" "of_be (di_dh_prime inner) < 2 ^ 2048"
    using dh_gen_key_returns [OF N c refl r] by metis
  have "unat (di_g inner) ^ he_b env mod of_be (di_dh_prime inner) < 2 ^ 2048"
    using mod_less_divisor [OF k(5)] k(6) by (rule order.strict_trans)
  then have gb: "length ?gb \<le> 256" by (rule to_binary_256(1) [OF N])
  define h1 where "h1 = h\<lparr>hs_server_time_diff := of_int (sint (di_server_time inner)) - he_now env 1\<rparr>"
  have h1: "hs_nonce h1 = hs_nonce h" "hs_server_nonce h1 = hs_server_nonce h" "hs_new_nonce h1 = hs_new_nonce h" by (simp_all add: h1_def)
  obtain enc plain iv q where st: "client_DH_data L A env ?gb h1 = Some enc"
    "serialize (api_store A (SetClientDHParams (hs_nonce h) (hs_server_nonce h) enc)) = Some q" "read_all read_set_dh q = Some enc"
    "aes_ige_decrypt L (fst (tmp_KDF L (hs_server_nonce h) (hs_new_nonce h))) (snd (tmp_KDF L (hs_server_nonce h) (hs_new_nonce h)))
      enc (length enc) = Some (plain, iv)" "read_all read_inner_dh (drop 20 plain) = Some ?gb"
    using client_DH_stored [OF L A e, of h1 ?gb] h gb unfolding h1 by metis
  have sn: "hs_send A (SetClientDHParams (hs_nonce h) (hs_server_nonce h) enc) h1 = Some (h1\<lparr>hs_last_query := q\<rparr>, [HsSend q])"
    using st(2) by (simp add: hs_send_def do_send_def)
  define ak where "ak = (if hs_mode h1 = HsTemp then (auth_key_of (dh_calc_key_id L key) key)\<lparr>ak_expires_at := hs_expires_at h1\<rparr>
    else auth_key_of (dh_calc_key_id L key) key)\<lparr>ak_created_at := of_int (sint (di_server_time inner))\<rparr>"
  let ?h = "h1\<lparr>hs_last_query := q, hs_auth_key := ak,
    hs_server_salt := u64_of_bytes (take 8 (hs_new_nonce h)) XOR u64_of_bytes (take 8 (hs_server_nonce h)), hs_state := HsDHGenResponse\<rparr>"
  have "finish_server_dh_params L N A env inner h = Some (OK, ?h, map HsPrime evs @ [HsSend q])"
    using c r k(1,4) st(1) sn unfolding finish_server_dh_params_def Let_def h1_def [symmetric] h1 by (simp add: ak_def h1)
  moreover have "ak_key ak = key" "ak_id ak = dh_calc_key_id L key" by (simp_all add: ak_def auth_key_of_def)
  ultimately show thesis using that [of ?h q key enc plain iv] h1 k(2,3) st(3-5) by simp
qed

end
