(* ===== verification/HandshakeRun.thy ===== *)
theory HandshakeRun
  imports HandshakeServer
begin

text \<open>
  Complete runs of the handshake with the server of \<open>HandshakeServer\<close>, and what is certain about the key
  when a handshake is about to finish, whatever the network delivered.
\<close>

section \<open>A run\<close>

definition last_sent :: "hs_event list \<Rightarrow> bytes option" where
  "last_sent evs = (case rev evs of HsSend q # _ \<Rightarrow> Some q | _ \<Rightarrow> None)"

text \<open>The client starts and the two sides answer each other; the result is the client's last state and the server's key.\<close>

definition run_handshake ::
  "nat \<Rightarrow> crypto_lib \<Rightarrow> bn_lib \<Rightarrow> hs_api \<Rightarrow> hs_server \<Rightarrow> (hs_state \<Rightarrow> hs_env) \<Rightarrow> handshake \<Rightarrow> (handshake \<times> handshake \<times> bytes \<times> bytes) option" where
  "run_handshake n L N A sv env h =
     (case hs_resume A (env HsStart) h of None \<Rightarrow> None
      | Some (h1, evs1) \<Rightarrow>
     (case last_sent evs1 of None \<Rightarrow> None | Some q1 \<Rightarrow>
     (case server_1 sv q1 of None \<Rightarrow> None | Some m1 \<Rightarrow>
     (case hs_on_message n L N A (env HsResPQ) m1 h1 of None \<Rightarrow> None | Some (_, h2, evs2) \<Rightarrow>
     (case last_sent evs2 of None \<Rightarrow> None | Some q2 \<Rightarrow>
     (case server_2 L N sv q2 of None \<Rightarrow> None | Some (m2, nonce, new_nonce) \<Rightarrow>
     (case hs_on_message n L N A (env HsServerDHParams) m2 h2 of None \<Rightarrow> None | Some (_, h3, evs3) \<Rightarrow>
     (case last_sent evs3 of None \<Rightarrow> None | Some q3 \<Rightarrow>
     (case server_3 L sv nonce new_nonce q3 of None \<Rightarrow> None | Some (m3, key) \<Rightarrow>
     (case hs_on_message n L N A (env HsDHGenResponse) m3 h3 of None \<Rightarrow> None | Some (_, h4, _) \<Rightarrow>
        Some (h3, h4, m3, key)))))))))))"

lemma last_sent_snoc [simp]: "last_sent (evs @ [HsSend q]) = Some q" "last_sent [HsSend q] = Some q"
  by (simp_all add: last_sent_def)

lemma run_handshake_reachable:
  assumes "run_handshake n L N A sv env h = Some (h3, h4, m3, key)" and "hs_reachable L N A h"
  shows "hs_reachable L N A h3" and "\<exists>st evs. hs_on_message n L N A (env HsDHGenResponse) m3 h3 = Some (st, h4, evs)"
proof -
  obtain h1 evs1 m1 st2 h2 evs2 m2 st3 evs3 where
    r: "hs_resume A (env HsStart) h = Some (h1, evs1)" "hs_on_message n L N A (env HsResPQ) m1 h1 = Some (st2, h2, evs2)"
      "hs_on_message n L N A (env HsServerDHParams) m2 h2 = Some (st3, h3, evs3)"
    and l: "\<exists>st evs. hs_on_message n L N A (env HsDHGenResponse) m3 h3 = Some (st, h4, evs)"
    using assms(1) by (auto simp: run_handshake_def split: option.splits prod.splits)
  show "\<exists>st evs. hs_on_message n L N A (env HsDHGenResponse) m3 h3 = Some (st, h4, evs)" by (rule l)
  have "hs_reachable L N A h1" by (rule hs_reachable.step [OF assms(2) hs_step.resumed [OF r(1)]])
  then have "hs_reachable L N A h2" by (rule hs_reachable.step [OF _ hs_step.message [OF r(2)]])
  then show "hs_reachable L N A h3" by (rule hs_reachable.step [OF _ hs_step.message [OF r(3)]])
qed

lemma third_exchange:
  assumes L: "crypto_laws L" and N: "bn_laws N" and A: "api_laws A" and sv: "server_ok sv" and e: "env_ok env"
    and h: "hs_state h = HsServerDHParams" "length (hs_nonce h) = 16" "hs_server_nonce h = sv_server_nonce sv" "length (hs_new_nonce h) = 32"
    and t: "he_now env 0 < hs_start_time h + hs_timeout_in h * (8 / 10)"
    and q: "read_all read_req_dh q = Some (hs_nonce h, enc0)" "server_open L sv enc0 = Some data" "read_all read_inner_pq data = Some (hs_new_nonce h)"
    and c: "dh_set_config N (he_b env) (sv_g sv) (sv_prime sv) dh_handshake_init = Some d0"
    and r: "dh_run_checks N False (he_dh_callback env)
      (dh_set_g_a L N (to_binary N (unat (sv_g sv) ^ sv_a sv mod of_be (sv_prime sv))) d0) = Some (OK, evs)"
  obtains m h' q' m' key where "server_2 L N sv q = Some (m, hs_nonce h, hs_new_nonce h)"
    and "hs_on_message n L N A env m h = Some (OK, h', map HsPrime evs @ [HsSend q'])" and "hs_state h' = HsDHGenResponse"
    and "ak_key (hs_auth_key h') = key" and "ak_id (hs_auth_key h') = dh_calc_key_id L key" and "length key = 256"
    and "hs_server_salt h' = u64_of_bytes (take 8 (hs_new_nonce h)) XOR u64_of_bytes (take 8 (sv_server_nonce sv))"
    and "server_3 L sv (hs_nonce h) (hs_new_nonce h) q' = Some (m', key)"
    and "\<And>env' n'. hs_on_message n' L N A env' m' h' = Some (OK, h'\<lparr>hs_state := HsFinish\<rparr>, [])"
proof -
  let ?g = "unat (sv_g sv)" and ?p = "of_be (sv_prime sv)" and ?i = "server_inner N sv (hs_nonce h)"
  obtain p: "0 < ?p" "?p < 2 ^ 2048" using dh_gen_key_returns [OF N c refl r] by metis
  obtain m enc answer iv where m: "server_2 L N sv q = Some (m, hs_nonce h, hs_new_nonce h)"
    "fetch_result (api_fetch_dh_params A) m False = Some (Inr \<lparr>dp_nonce = hs_nonce h, dp_server_nonce = hs_server_nonce h, dp_encrypted_answer = enc\<rparr>)"
    "length enc mod 16 = 0"
    "aes_ige_decrypt L (fst (tmp_KDF L (hs_server_nonce h) (hs_new_nonce h))) (snd (tmp_KDF L (hs_server_nonce h) (hs_new_nonce h)))
      enc (length enc) = Some (answer, iv)" "parse_dh_answer L A answer h = Some (Inr ?i)"
    using server_2_returns [OF L N A sv h(2-4) q p(2,1)] by metis
  have i: "di_g ?i = sv_g sv" "di_dh_prime ?i = sv_prime sv" "di_g_a ?i = to_binary N (?g ^ sv_a sv mod ?p)" by (simp_all add: server_inner_def)
  have sn: "length (hs_server_nonce h) = 16" using server_okD(1) [OF sv] h(3) by simp
  obtain h' q' enc' plain iv' key where f: "finish_server_dh_params L N A env ?i h = Some (OK, h', map HsPrime evs @ [HsSend q'])"
    "hs_state h' = HsDHGenResponse" "hs_nonce h' = hs_nonce h" "hs_server_nonce h' = hs_server_nonce h"
    "hs_new_nonce h' = hs_new_nonce h" "ak_key (hs_auth_key h') = key" "ak_id (hs_auth_key h') = dh_calc_key_id L key"
    "hs_server_salt h' = u64_of_bytes (take 8 (hs_new_nonce h)) XOR u64_of_bytes (take 8 (hs_server_nonce h))"
    and k: "length key = 256" "of_be key = of_be (di_g_a ?i) ^ he_b env mod ?p"
    and s3: "read_all read_set_dh q' = Some enc'"
    "aes_ige_decrypt L (fst (tmp_KDF L (hs_server_nonce h) (hs_new_nonce h))) (snd (tmp_KDF L (hs_server_nonce h) (hs_new_nonce h)))
      enc' (length enc') = Some (plain, iv')" "read_all read_inner_dh (drop 20 plain) = Some (to_binary N (?g ^ he_b env mod ?p))"
    using finish_returns [OF L N A e h(2) sn h(4), of ?i d0 evs] c r unfolding i by metis
  obtain tk tiv where tk: "tmp_KDF L (hs_server_nonce h) (hs_new_nonce h) = (tk, tiv)" by force
  have "on_server_dh_params L N A env m h = Some (OK, h', map HsPrime evs @ [HsSend q'])"
    using t m(2-5) f(1) tk unfolding on_server_dh_params_def Let_def by simp
  then have msg: "hs_on_message n L N A env m h = Some (OK, h', map HsPrime evs @ [HsSend q'])"
    using h(1) by (simp add: hs_on_message_def)
  have lt: "x mod ?p < 2 ^ 2048" for x using mod_less_divisor [OF p(1), of x] p(2) by (rule order.strict_trans)
  have "of_be (to_binary N (?g ^ he_b env mod ?p)) ^ sv_a sv mod ?p = of_be key"
    unfolding k(2) i to_binary_256(2) [OF N lt] by (simp add: power_mod power_mult [symmetric] mult.commute)
  then have key: "be_bytes 256 (of_be (to_binary N (?g ^ he_b env mod ?p)) ^ sv_a sv mod ?p) = key"
    using be_bytes_of_be [OF k(1)] by simp
  let ?x = "DhGenOk (hs_nonce h) (sv_server_nonce sv) (new_nonce_hash L (hs_new_nonce h) key)"
  have hl: "length (new_nonce_hash L (hs_new_nonce h) key) = 16" using L by (simp add: new_nonce_hash_def crypto_laws_def)
  have bin: "stores (TlStoreBinary s) n" if "length s = n" for s n using stores_binary [of s] that by simp
  have "stores (scheme_dh_gen ?x) (4 + (16 + (16 + (16 + 0))))"
    unfolding scheme_dh_gen.simps using h(2) sn [unfolded h(3)] hl by (intro stores_append bin stores_Nil) simp_all
  then obtain m' where m': "run_unsafe (scheme_dh_gen ?x) [] = Some m'" "length m' \<le> 2 ^ 32" by (auto simp: stores_def)
  have x: "dh_gen_ok ?x" using h(2) sn [unfolded h(3)] hl by simp
  have fr: "fetch_result (api_fetch_dh_gen A) m' False = Some (Inr ?x)"
    using A m' small_size x by (intro fetch_result_codec [where st = scheme_dh_gen and ok = dh_gen_ok]) (simp_all add: api_laws_def)
  have "server_3 L sv (hs_nonce h) (hs_new_nonce h) q' = Some (m', key)"
    using s3 m'(1) key h(3) by (simp add: server_3_def)
  moreover have "hs_on_message n' L N A env' m' h' = Some (OK, h'\<lparr>hs_state := HsFinish\<rparr>, [])" for env' n'
    using f(2-6) fr h(3) by (simp add: hs_on_message_def on_dh_gen_response_def)
  ultimately show thesis using that [OF m(1) msg f(2,6,7) k(1)] f(8) h(3) by simp
qed

lemma run_completes:
  assumes L: "crypto_laws L" and N: "bn_laws N" and A: "api_laws A" and sv: "server_ok sv" and e: "\<And>s. env_ok (env s)"
    and h: "hs_state h = HsStart"
    and t: "he_now (env HsResPQ) 0 < hs_start_time h + hs_timeout_in h * (6 / 10)"
      "he_now (env HsServerDHParams) 0 < hs_start_time h + hs_timeout_in h * (8 / 10)"
    and key: "he_get_rsa_key (env HsResPQ) (sv_fingerprints sv) = Inr key" "rsa_n (rk_rsa key) = sv_n sv"
    and inv: "\<And>x. x < sv_n sv \<Longrightarrow> x ^ (rsa_e (rk_rsa key) * sv_d sv) mod sv_n sv = x"
    and fit: "rsa_round_fits L N A (env HsResPQ) (server_res_pq sv (he_nonce (env HsStart))) (h\<lparr>hs_nonce := he_nonce (env HsStart)\<rparr>) (sv_n sv) k" "k < n"
    and c: "dh_set_config N (he_b (env HsServerDHParams)) (sv_g sv) (sv_prime sv) dh_handshake_init = Some d0"
    and r: "dh_run_checks N False (he_dh_callback (env HsServerDHParams))
      (dh_set_g_a L N (to_binary N (unat (sv_g sv) ^ sv_a sv mod of_be (sv_prime sv))) d0) = Some (OK, evs)"
  shows "\<exists>h3 h4 m3 k. run_handshake n L N A sv env h = Some (h3, h4, m3, k) \<and> is_ready_for_finish h4 \<and>
    ak_key (hs_auth_key h3) = k \<and> ak_key (hs_auth_key h4) = k \<and> length k = 256 \<and> ak_id (hs_auth_key h4) = dh_calc_key_id L k \<and>
    hs_server_salt h4 = u64_of_bytes (take 8 (he_new_nonce (env HsResPQ))) XOR u64_of_bytes (take 8 (sv_server_nonce sv))"
proof -
  let ?n = "he_nonce (env HsStart)"
  have l: "length ?n = 16" "length (he_new_nonce (env HsResPQ)) = 32" using e by (simp_all add: env_ok_def)
  obtain q1 m1 where s1: "hs_resume A (env HsStart) h = Some (h\<lparr>hs_nonce := ?n, hs_last_query := q1, hs_state := HsResPQ\<rparr>, [HsSend q1])"
    "server_1 sv q1 = Some m1" "fetch_result (api_fetch_res_pq A) m1 False = Some (Inr (server_res_pq sv ?n))"
    using first_exchange [OF A sv h l(1)] by metis
  define h1 where "h1 = h\<lparr>hs_nonce := ?n, hs_last_query := q1, hs_state := HsResPQ\<rparr>"
  have h1: "hs_state h1 = HsResPQ" "hs_nonce h1 = ?n" "hs_start_time h1 = hs_start_time h" "hs_timeout_in h1 = hs_timeout_in h"
    by (simp_all add: h1_def)
  have pd: "pq_request_data N A (env HsResPQ) (server_res_pq sv ?n) h1 = pq_request_data N A (env HsResPQ) (server_res_pq sv ?n) (h\<lparr>hs_nonce := ?n\<rparr>)"
    by (cases "hs_mode h") (simp_all add: pq_request_data_def pq_inner_data_def h1_def split: option.split prod.split)
  have fit1: "rsa_round_fits L N A (env HsResPQ) (server_res_pq sv (hs_nonce h1)) h1 (sv_n sv) k"
    using fit(1) pd by (simp add: rsa_round_fits_def h1(2))
  obtain h2 q2 enc data where s2: "hs_on_message n L N A (env HsResPQ) m1 h1 = Some (OK, h2, [HsSend q2])"
    and h2: "hs_state h2 = HsServerDHParams" "hs_nonce h2 = hs_nonce h1" "hs_server_nonce h2 = sv_server_nonce sv"
    "hs_new_nonce h2 = he_new_nonce (env HsResPQ)" "hs_start_time h2 = hs_start_time h1" "hs_timeout_in h2 = hs_timeout_in h1"
    and rd: "read_all read_req_dh q2 = Some (hs_nonce h1, enc)" "server_open L sv enc = Some data"
    "read_all read_inner_pq data = Some (he_new_nonce (env HsResPQ))"
    using second_exchange [OF L N A sv e h1(1) _ _ _ key inv fit1 fit(2), of m1] t(1) l(1) s1(3) unfolding h1 by metis
  obtain m2 h3 q3 m3 ky where s3: "server_2 L N sv q2 = Some (m2, hs_nonce h2, hs_new_nonce h2)"
    "hs_on_message n L N A (env HsServerDHParams) m2 h2 = Some (OK, h3, map HsPrime evs @ [HsSend q3])"
    "ak_key (hs_auth_key h3) = ky" "ak_id (hs_auth_key h3) = dh_calc_key_id L ky" "length ky = 256"
    "hs_server_salt h3 = u64_of_bytes (take 8 (hs_new_nonce h2)) XOR u64_of_bytes (take 8 (sv_server_nonce sv))"
    "server_3 L sv (hs_nonce h2) (hs_new_nonce h2) q3 = Some (m3, ky)"
    "hs_on_message n L N A (env HsDHGenResponse) m3 h3 = Some (OK, h3\<lparr>hs_state := HsFinish\<rparr>, [])"
    using third_exchange [OF L N A sv e h2(1) _ h2(3) _ _ _ rd(2) _ c r, where q = q2 and n = n]
      l t(2) rd(1,3) h1 h2 by metis
  have "run_handshake n L N A sv env h = Some (h3, h3\<lparr>hs_state := HsFinish\<rparr>, m3, ky)"
    unfolding run_handshake_def using s1 s2 s3 h1_def by simp
  then show ?thesis using s3(3-6) h2(4) by (simp add: is_ready_for_finish_def)
qed


section \<open>An instance\<close>

definition demo_server :: hs_server where
  "demo_server = \<lparr>sv_server_nonce = replicate 16 2, sv_pq = [1, 21], sv_fingerprints = [7], sv_n = sample_p, sv_d = 1, sv_a = 2001,
     sv_g = 2, sv_prime = sample_prime, sv_time = 0, sv_pad = (\<lambda>n. replicate n 0)\<rparr>"

definition demo_key :: rsa_key where
  "demo_key = \<lparr>rk_rsa = \<lparr>rsa_n = sample_p, rsa_e = 1\<rparr>, rk_fingerprint = 7\<rparr>"

definition demo_env :: hs_env where
  "demo_env = \<lparr>he_now = (\<lambda>_. 1), he_nonce = replicate 16 1, he_new_nonce = replicate 32 3, he_pad = (\<lambda>n. replicate n 0),
     he_aes_key = (\<lambda>_. replicate 32 0), he_pq = (\<lambda>_. (17, 3)), he_pq_big = (\<lambda>_. (17, 3)), he_b = 2000,
     he_get_rsa_key = (\<lambda>_. Inr demo_key), he_dh_callback = Some (\<lambda>_. 1)\<rparr>"

lemma sample_p_bounds: "2 ^ 2040 \<le> sample_p" "sample_p < 2 ^ 2048"
  by (simp_all add: sample_p_def)

lemma demo_server_ok: "server_ok demo_server"
  unfolding server_ok_def using sample_p_bounds by (simp add: demo_server_def sample_prime_def)

lemma demo_env_ok: "env_ok demo_env"
  by (simp add: env_ok_def demo_env_def)

text \<open>With zeros as key and padding the block starts with a zero byte and is below the modulus.\<close>

lemma toy_pad_small:
  assumes "length data = 192" and "drop 176 data = replicate 16 0"
  shows "\<exists>dec. rsa_pad toy_lib (replicate 32 0) data = Some dec \<and> of_be dec < sample_p"
proof -
  let ?k = "replicate 32 0 :: bytes"
  let ?p = "rev data @ lib_sha256 toy_lib (?k @ data)"
  have l: "length ?p = 16 * 14" using assms(1) toy_laws by (simp add: crypto_laws_def)
  obtain iv out where o: "aes_ige_encrypt toy_lib ?k ?k ?p 224 = Some (out, iv)"
    "out = concat (ige_spec (aes_block toy_lib ?k) (take 16 ?k) (drop 16 ?k) (aes_blocks 14 ?p))"
    using aes_ige_encrypt_eq [OF toy_laws, of ?k ?k ?p 14] l by auto
  have "take 16 (rev data) = rev (drop 176 data)" using assms(1) by (simp add: take_rev)
  then have z: "take 16 ?p = replicate 16 0" using assms by simp
  have "aes_blocks 14 ?p = replicate 16 0 # aes_blocks 13 (drop 16 ?p)" using aes_blocks_Suc [of 13 ?p] z by simp
  moreover have "xorb (replicate 16 0) (replicate 16 0) = (replicate 16 0 :: bytes)" by (rule xorb_zero) simp
  moreover have "aes_block toy_lib ?k (replicate 16 0) = replicate 16 0"
  proof -
    have "toy_cbc iv [] = []" for iv by (subst toy_cbc.simps) simp
    then show ?thesis
      using xorb_zero [of "replicate 16 0"] by (simp add: aes_block_def toy_lib_def toy_cbc.simps [of "replicate 16 0" "replicate 16 0"] Let_def)
  qed
  ultimately obtain rest where r: "out = replicate 16 0 @ rest" unfolding o(2) by (simp add: Let_def)
  let ?dec = "xorb ?k (lib_sha256 toy_lib out) @ out"
  have "lib_sha256 toy_lib out = 0 # drop 1 (lib_sha256 toy_lib out)"
    unfolding r using replicate_Suc [of 15 "0 :: byte"] by (simp add: toy_lib_def)
  then obtain t where "lib_sha256 toy_lib out = 0 # t" by blast
  then have d: "\<exists>bs. ?dec = replicate 1 0 @ bs" using replicate_Suc [of 31 "0 :: byte"] by (simp add: xorb_def)
  have len: "length ?dec = 256" using aes_ige_decrypt_encrypt(1) [OF toy_laws _ _ _ , of ?k ?k ?p out iv] o(1) l toy_laws
    by (simp add: crypto_laws_def)
  obtain bs where bs: "?dec = replicate 1 0 @ bs" using d by blast
  have "length bs = 255" using len bs by simp
  then have "of_be ?dec < 256 ^ 255" using of_be_bound [of bs] unfolding bs of_be_zeros by simp
  also have "(256 :: nat) ^ 255 = 2 ^ 2040" by simp
  finally have "of_be ?dec < sample_p" using sample_p_bounds(1) by (rule less_le_trans)
  moreover have "rsa_pad toy_lib ?k data = Some ?dec" using o(1) by (simp add: rsa_pad_def)
  ultimately show ?thesis by blast
qed


lemma demo_fits:
  assumes n: "length (hs_nonce h) = 16"
  shows "rsa_round_fits toy_lib nat_bn scheme_api demo_env (server_res_pq demo_server (he_nonce demo_env)) h (sv_n demo_server) 0"
proof -
  let ?res = "server_res_pq demo_server (he_nonce demo_env)"
  let ?h = "h\<lparr>hs_server_nonce := rp_server_nonce ?res, hs_new_nonce := he_new_nonce demo_env\<rparr>"
  obtain p q where pq: "pq_factorize_str nat_bn (he_pq demo_env) (he_pq_big demo_env) (rp_pq ?res) = Some (Some (p, q))"
    "length p \<le> 8" "length q \<le> 8"
    using pq_small_factors [of "rp_pq ?res" nat_bn "he_pq demo_env" "he_pq_big demo_env"] by (auto simp: server_res_pq_def demo_server_def)
  obtain data where d: "pq_inner_data scheme_api ?res p q ?h = Some data" "length data \<le> 144"
    by (rule inner_pq_stored [OF scheme_api_laws, of ?res p q ?h "[]"])
      (use pq(2,3) n in \<open>simp_all add: server_res_pq_def demo_server_def demo_env_def\<close>)
  let ?data = "data @ he_pad demo_env (192 - length data)"
  have "length ?data = 192" "drop 176 ?data = replicate 16 0" using d(2) by (simp_all add: demo_env_def)
  then obtain dec where "rsa_pad toy_lib (replicate 32 0) ?data = Some dec" "of_be dec < sample_p" using toy_pad_small by blast
  moreover have "pq_request_data nat_bn scheme_api demo_env ?res h = Some ?data" using pq(1) d(1) by (simp add: pq_request_data_def)
  moreover have "he_aes_key demo_env 0 = replicate 32 0" "sv_n demo_server = sample_p" by (simp_all add: demo_env_def demo_server_def)
  ultimately show ?thesis by (auto simp: rsa_round_fits_def)
qed

section \<open>Properties\<close>


abbreviation demo_start :: handshake where
  "demo_start \<equiv> handshake_new 0 2 0"

lemma demo_facts:
  "hs_state demo_start = HsStart" "he_now demo_env 0 < hs_start_time demo_start + hs_timeout_in demo_start * (6 / 10)"
  "he_now demo_env 0 < hs_start_time demo_start + hs_timeout_in demo_start * (8 / 10)"
  "he_get_rsa_key demo_env (sv_fingerprints demo_server) = Inr demo_key" "rsa_n (rk_rsa demo_key) = sv_n demo_server"
  by (simp_all add: handshake_new_def demo_env_def demo_key_def demo_server_def)

lemma demo_rsa: "x < sv_n demo_server \<Longrightarrow> x ^ (rsa_e (rk_rsa demo_key) * sv_d demo_server) mod sv_n demo_server = x"
  by (simp add: demo_key_def demo_server_def)

lemma demo_dh:
  "dh_set_config nat_bn (he_b demo_env) (sv_g demo_server) (sv_prime demo_server) dh_handshake_init = Some (sample_dh 2000)"
  "dh_run_checks nat_bn False (he_dh_callback demo_env)
    (dh_set_g_a L nat_bn (to_binary nat_bn (unat (sv_g demo_server) ^ sv_a demo_server mod of_be (sv_prime demo_server))) (sample_dh 2000)) =
    Some (OK, [])"
proof -
  have f: "he_b demo_env = 2000" "sv_g demo_server = 2" "sv_prime demo_server = sample_prime" "sv_a demo_server = 2001"
    "he_dh_callback demo_env = Some (\<lambda>_. 1)" "unat (2 :: u32) = 2"
    by (simp_all add: demo_env_def demo_server_def)
  show "dh_set_config nat_bn (he_b demo_env) (sv_g demo_server) (sv_prime demo_server) dh_handshake_init = Some (sample_dh 2000)"
    unfolding f by (rule sample_config)
  show "dh_run_checks nat_bn False (he_dh_callback demo_env)
    (dh_set_g_a L nat_bn (to_binary nat_bn (unat (sv_g demo_server) ^ sv_a demo_server mod of_be (sv_prime demo_server))) (sample_dh 2000)) =
    Some (OK, [])"
    using sample_checks [of L] unfolding f sample_prime_value sample_dh_run_def sample_pub_def .
qed

lemmas demo_run = toy_laws nat_bn_laws scheme_api_laws demo_server_ok demo_env_ok demo_facts demo_rsa




end
