(* ===== verification/HandshakeConnProps.thy ===== *)
theory HandshakeConnProps
  imports HandshakeConn HandshakeRun
begin

text \<open>
  Properties of the handshake over a connection: what happens to packets after the last one, and how the
  actor answers its promises.
\<close>

section \<open>The life of the actor\<close>

text \<open>The events the scheduler delivers, and the life of an actor: once it has stopped, or when it is destroyed, \<open>tear_down\<close> runs.\<close>

datatype ha_op =
    HaLoop "handshake \<times> raw_connection \<Rightarrow> (status \<times> handshake \<times> raw_connection) option"
  | HaClose
  | HaHangup
  | HaTimeoutExpired

fun ha_do :: "ha_op \<Rightarrow> handshake_actor \<Rightarrow> handshake_actor option" where
  "ha_do (HaLoop flush) a = ha_loop flush a"
| "ha_do HaClose a = ha_close a"
| "ha_do HaHangup a = ha_hangup a"
| "ha_do HaTimeoutExpired a = ha_timeout_expired a"

fun ha_life :: "ha_op list \<Rightarrow> handshake_actor \<Rightarrow> handshake_actor option" where
  "ha_life [] a = ha_tear_down a"
| "ha_life (op # ops) a =
     (case ha_do op a of None \<Rightarrow> None
      | Some a' \<Rightarrow> if ha_stopped a' then ha_tear_down a' else ha_life ops a')"

definition ha_ready :: "handshake_actor \<Rightarrow> bool" where
  "ha_ready a \<longleftrightarrow> ha_handshake a \<noteq> None \<and> ha_raw_connection a \<noteq> None \<and> ha_raw_connection_promise a \<and> ha_handshake_promise a \<and>
     \<not> ha_stopped a \<and> ha_out a = []"

text \<open>One answer for the connection, then the handshake.\<close>

definition answered_once :: "ha_event list \<Rightarrow> bool" where
  "answered_once evs \<longleftrightarrow> (\<exists>h c e. evs = [RawConnectionValue c, HandshakeValue (Some h)] \<or>
     e \<noteq> OK \<and> evs = [RawConnectionClosed c, RawConnectionError e, HandshakeValue (Some h)])"

definition ha_done :: "handshake_actor \<Rightarrow> bool" where
  "ha_done a \<longleftrightarrow> ha_handshake a = None \<and> ha_raw_connection a = None \<and> \<not> ha_raw_connection_promise a \<and> \<not> ha_handshake_promise a \<and>
     answered_once (ha_out a)"

lemmas ha_defs = ha_finish_def return_connection_def return_handshake_def ha_emit_def ha_stop_def Let_def

lemma ha_finish_ready: "ha_ready a \<Longrightarrow> \<exists>a'. ha_finish e a = Some a' \<and> ha_done a' \<and> \<not> ha_stopped a'"
  by (auto simp: ha_ready_def ha_done_def answered_once_def ha_defs)

lemma ha_finish_done: "ha_done a \<Longrightarrow> ha_finish e a = Some a"
  by (simp add: ha_done_def ha_defs)

lemma ha_do_ready:
  assumes a: "ha_ready a" and f: "\<And>flush s. op = HaLoop flush \<Longrightarrow> flush s \<noteq> None"
  shows "\<exists>a'. ha_do op a = Some a' \<and> (ha_stopped a' \<and> ha_done a' \<or> ha_ready a')"
proof -
  have fin: "\<exists>a'. map_option ha_stop (ha_finish e b) = Some a' \<and> ha_stopped a' \<and> ha_done a'" if "ha_ready b" for e b
    using ha_finish_ready [OF that, of e] by (auto simp: ha_stop_def ha_done_def)
  show ?thesis
  proof (cases op)
    case (HaLoop flush)
    obtain h c where hc: "ha_handshake a = Some h" "ha_raw_connection a = Some c" using a by (auto simp: ha_ready_def)
    obtain e h' c' where fl: "flush (h, c) = Some (e, h', c')" using f [OF HaLoop, of "(h, c)"] by (cases "flush (h, c)") auto
    let ?a = "a\<lparr>ha_handshake := Some h', ha_raw_connection := Some c'\<rparr>"
    have r: "ha_ready ?a" using a by (simp add: ha_ready_def)
    have "ha_loop flush a = (if e \<noteq> OK then map_option ha_stop (ha_finish e ?a)
        else if is_ready_for_finish h' then map_option ha_stop (ha_finish OK ?a) else Some ?a)"
      using hc fl by (simp add: ha_loop_def Let_def)
    then show ?thesis using HaLoop fin [OF r, of e] fin [OF r, of OK] r by (metis ha_do.simps(1))
  qed (use fin [OF a] in \<open>simp only: ha_do.simps ha_close_def ha_hangup_def ha_timeout_expired_def, metis\<close>)+
qed

section \<open>Properties\<close>


definition demo_actor :: handshake_actor where
  "demo_actor = \<lparr>ha_handshake = Some demo_start, ha_raw_connection = Some \<lparr>rc_transport = OldTransport old_init, rc_quick_ack_to_token = Map.empty,
     rc_has_error = False, rc_stats = []\<rparr>, ha_timeout = 10, ha_raw_connection_promise = True, ha_handshake_promise = True,
     ha_stopped = False, ha_out = []\<rparr>"


text \<open>
  C40. A packet that arrives after the one that finished the handshake, before
  the actor looks at the handshake again, aborts the client: any unencrypted packet of at least twelve
  bytes does, whatever it contains, and the loop that reads the connection never reports a status for it.
\<close>

theorem packet_after_finish_aborts:
  assumes "hc_on_raw_packet n L N A env info d h = Some (OK, h', evs)" and "is_ready_for_finish h'"
    and "pi_no_crypto_flag info'" and "12 \<le> length d'"
  shows "hc_on_raw_packet n L N A env info' d' h' = None \<and>
    cb_on_raw_packet (hc_callback n L N A env rx) info' d'
      (snd (cb_on_raw_packet (hc_callback n L N A env rx) info d (Some (h, evs0)))) = (OK, None)"
proof -
  have "hs_on_message n L N A e m h' = None" for e m
    using assms(2) by (simp add: hs_on_message_def is_ready_for_finish_def)
  then have "hc_on_raw_packet n L N A env info' d' h' = None" using assms(3,4) by (simp add: hc_on_raw_packet_def Let_def)
  then show ?thesis using assms(1) by (simp add: hc_callback_def)
qed


definition demo_last :: handshake where
  "demo_last = demo_start\<lparr>hs_state := HsDHGenResponse\<rparr>"

definition demo_packet :: bytes where
  "demo_packet = replicate 12 0 @ bytes_of_u32 dh_gen_ok_ID @ replicate 48 0"

lemma demo_last_packet:
  "hc_on_raw_packet 1 toy_lib nat_bn scheme_api (\<lambda>_. demo_env) (packet_info_init\<lparr>pi_no_crypto_flag := True\<rparr>) demo_packet demo_last =
    Some (OK, demo_last\<lparr>hs_state := HsFinish\<rparr>, [])"
proof -
  let ?z = "replicate 16 0 :: bytes"
  let ?m = "bytes_of_u32 dh_gen_ok_ID @ replicate 48 0"
  have "run_unsafe (scheme_dh_gen (DhGenOk ?z ?z ?z)) [] = Some ?m"
    using replicate_add [of 16 32 "0 :: byte"] replicate_add [of 16 16 "0 :: byte"] by (simp add: TlStoreBinary_def)
  then have "fetch_result fetch_dh_gen ?m False = Some (Inr (DhGenOk ?z ?z ?z))"
    by (rule fetch_result_codec [OF codec_dh_gen, rotated]) (simp_all add: size_max_def)
  moreover have "new_nonce_hash toy_lib (replicate 32 0) [] = ?z" by (simp add: new_nonce_hash_def toy_lib_def)
  ultimately have "on_dh_gen_response toy_lib scheme_api ?m demo_last = Some (OK, demo_last\<lparr>hs_state := HsFinish\<rparr>, [])"
    by (simp add: on_dh_gen_response_def scheme_api_def demo_last_def handshake_new_def auth_key_default_def)
  then have "hs_on_message 1 toy_lib nat_bn scheme_api demo_env ?m demo_last = Some (OK, demo_last\<lparr>hs_state := HsFinish\<rparr>, [])"
    by (simp add: hs_on_message_def demo_last_def)
  then show ?thesis by (simp add: hc_on_raw_packet_def demo_packet_def packet_info_init_def Let_def)
qed

theorem packet_after_finish_aborts_witness:
  "hc_on_raw_packet 1 toy_lib nat_bn scheme_api (\<lambda>_. demo_env) (packet_info_init\<lparr>pi_no_crypto_flag := True\<rparr>) (replicate 12 0)
     (demo_last\<lparr>hs_state := HsFinish\<rparr>) = None"
  using packet_after_finish_aborts [OF demo_last_packet, of "packet_info_init\<lparr>pi_no_crypto_flag := True\<rparr>" "replicate 12 0"]
  by (simp add: is_ready_for_finish_def)

end
