(* ===== verification/Spec2Isabelle.thy ===== *)
theory Spec2Isabelle
  imports TlProps AuthProps MtProps RawProps SessionRun HandshakeConnProps
begin

text \<open>
  A verification development of autoproto, the MTProto client library under \<open>src/\<close>.
\<close>

end
